(* ===== verification/Prelude.thy ===== *)
theory Prelude
  imports Main "HOL-Library.AList" "HOL-Library.List_Lexorder" "HOL-Library.Char_ord"
begin

text \<open>
  Shared groundwork of the library: the sum-typed results in which the components raise
  Python exceptions, Python dictionaries as association lists in insertion order, the
  \<open>dict.setdefault\<close> accumulation loop that three components of the service use, the
  first-maximum rule of \<open>max(..., key=...)\<close>, and the collections of rewrite rules that the
  component theories extend.
\<close>

named_theorems res_simps \<open>computation rules of results\<close>
named_theorems dict_simps \<open>computation rules of dictionaries\<close>
named_theorems frame_simps \<open>what an operation leaves unchanged\<close>
named_theorems text_simps \<open>computation rules of text\<close>

section \<open>Exceptions and results\<close>

datatype py_error =
    TypeError
  | ValueError
  | OverflowError
  | ZeroDivisionError
  | KeyError
  | MultipleResultsFound
  | IntegrityError
  | DataError
  | OtherError string

type_synonym 'a res = "py_error + 'a"

abbreviation Raise :: "py_error \<Rightarrow> 'a res" where
  "Raise e \<equiv> Inl e"

abbreviation Ok :: "'a \<Rightarrow> 'e + 'a" where
  "Ok x \<equiv> Inr x"

fun bindR :: "'e + 'a \<Rightarrow> ('a \<Rightarrow> 'e + 'b) \<Rightarrow> 'e + 'b" where
  "bindR (Inl e) f = Inl e"
| "bindR (Inr x) f = f x"

fun mapR :: "('a \<Rightarrow> 'e + 'b) \<Rightarrow> 'a list \<Rightarrow> 'e + 'b list" where
  "mapR f [] = Inr []"
| "mapR f (x # xs) = bindR (f x) (\<lambda>y. bindR (mapR f xs) (\<lambda>ys. Inr (y # ys)))"

fun filterR :: "('a \<Rightarrow> 'e + bool) \<Rightarrow> 'a list \<Rightarrow> 'e + 'a list" where
  "filterR p [] = Inr []"
| "filterR p (x # xs) =
     bindR (p x) (\<lambda>b. bindR (filterR p xs) (\<lambda>ys. Inr (if b then x # ys else ys)))"

declare bindR.simps [res_simps] mapR.simps [res_simps]

lemma bindR_Ok_iff [res_simps]: "bindR r f = Inr y \<longleftrightarrow> (\<exists>x. r = Inr x \<and> f x = Inr y)"
  by (cases r) auto

lemma bindR_Raise_iff: "bindR r f = Inl e \<longleftrightarrow> r = Inl e \<or> (\<exists>x. r = Inr x \<and> f x = Inl e)"
  by (cases r) auto

lemma bindR_assoc: "bindR (bindR r f) g = bindR r (\<lambda>x. bindR (f x) g)"
  by (cases r) auto

lemma bindR_split:
  "P (bindR r f) \<longleftrightarrow> (\<forall>e. r = Inl e \<longrightarrow> P (Inl e)) \<and> (\<forall>x. r = Inr x \<longrightarrow> P (f x))"
  by (cases r) auto

lemma mapR_Ok_iff: "mapR f xs = Inr ys \<longleftrightarrow> list_all2 (\<lambda>x y. f x = Inr y) xs ys"
  by (induction xs arbitrary: ys) (auto simp: bindR_Ok_iff list_all2_Cons1)

lemma mapR_length: "mapR f xs = Inr ys \<Longrightarrow> length ys = length xs"
  by (auto simp: mapR_Ok_iff dest: list_all2_lengthD)

lemma mapR_total:
  assumes "\<And>x. x \<in> set xs \<Longrightarrow> \<exists>y. f x = Inr y"
  shows "\<exists>ys. mapR f xs = Inr ys"
  using assms
proof (induction xs)
  case (Cons x xs)
  then obtain y ys where "f x = Inr y" and "mapR f xs = Inr ys"
    by fastforce
  then show ?case by simp
qed simp

lemma mapR_RaiseD: "mapR f xs = Inl e \<Longrightarrow> \<exists>x \<in> set xs. f x = Inl e"
  by (induction xs) (auto simp: bindR_Raise_iff)

lemma mapR_Inr: "mapR (\<lambda>x. Inr (g x)) xs = Inr (map g xs)"
  by (induction xs) auto

lemma mapR_set: "mapR f xs = Inr ys \<Longrightarrow> y \<in> set ys \<Longrightarrow> \<exists>x \<in> set xs. f x = Inr y"
  by (induction xs arbitrary: ys) (auto simp: bindR_Ok_iff)

lemma mapR_set': "mapR f xs = Inr ys \<Longrightarrow> x \<in> set xs \<Longrightarrow> \<exists>y \<in> set ys. f x = Inr y"
  by (induction xs arbitrary: ys) (auto simp: bindR_Ok_iff)

lemma mapR_map:
  assumes "mapR f xs = Inr ys"
    and "\<And>x y. x \<in> set xs \<Longrightarrow> f x = Inr y \<Longrightarrow> g y = h x"
  shows "map g ys = map h xs"
  using assms by (induction xs arbitrary: ys) (auto simp: bindR_Ok_iff)

lemma filterR_Ok: "filterR p xs = Inr ys \<Longrightarrow> ys = filter (\<lambda>x. p x = Inr True) xs"
  by (induction xs arbitrary: ys) (auto simp: bindR_Ok_iff split: if_splits)

lemma filterR_RaiseD: "filterR p xs = Inl e \<Longrightarrow> \<exists>x \<in> set xs. p x = Inl e"
  by (induction xs) (auto simp: bindR_Raise_iff)

section \<open>Dictionaries\<close>

text \<open>
  A Python dictionary keeps insertion order: assigning to a present key keeps its place,
  assigning to a new key appends. These are the library's \<open>AList.update\<close> and
  \<open>AList.delete\<close>.
\<close>

type_synonym ('k, 'v) dict = "('k \<times> 'v) list"

definition dict_get :: "('k, 'v) dict \<Rightarrow> 'k \<Rightarrow> 'v option" where
  "dict_get d k = map_of d k"

definition dict_set :: "'k \<Rightarrow> 'v \<Rightarrow> ('k, 'v) dict \<Rightarrow> ('k, 'v) dict" where
  "dict_set k v d = AList.update k v d"

definition dict_pop :: "'k \<Rightarrow> ('k, 'v) dict \<Rightarrow> ('k, 'v) dict" where
  "dict_pop k d = AList.delete k d"

lemma dict_get_set [dict_simps]: "dict_get (dict_set k v d) k' = (if k' = k then Some v else dict_get d k')"
  by (simp add: dict_get_def dict_set_def update_conv')

lemma dict_get_pop [dict_simps]: "dict_get (dict_pop k d) k' = (if k' = k then None else dict_get d k')"
  by (simp add: dict_get_def dict_pop_def delete_conv')

lemma dict_get_Cons: "dict_get ((k', v) # d) k = (if k' = k then Some v else dict_get d k)" "dict_get [] k = None"
  by (simp_all add: dict_get_def)

lemma dict_pop_keys [dict_simps]: "map fst (dict_pop k d) = filter (\<lambda>x. x \<noteq> k) (map fst d)"
  by (induction d) (auto simp: dict_pop_def)

section \<open>Accumulating into groups\<close>

text \<open>
  The loop shape
  \<^verbatim>\<open>
  groups = {}
  for x in xs:
      g = groups.setdefault(key(x), init(x))
      ... update g with x ...
  \<close>
  keeps one group per key, in the order in which the keys are first met.
\<close>

fun setdefault_step :: "'k \<Rightarrow> 'g \<Rightarrow> ('g \<Rightarrow> 'g) \<Rightarrow> ('k, 'g) dict \<Rightarrow> ('k, 'g) dict" where
  "setdefault_step k g u [] = [(k, u g)]"
| "setdefault_step k g u ((k', g') # gs) =
     (if k' = k then (k', u g') # gs else (k', g') # setdefault_step k g u gs)"

definition setdefault_fold ::
  "('a \<Rightarrow> 'k) \<Rightarrow> ('a \<Rightarrow> 'g) \<Rightarrow> ('a \<Rightarrow> 'g \<Rightarrow> 'g) \<Rightarrow> 'a list \<Rightarrow> ('k, 'g) dict" where
  "setdefault_fold key ini upd xs =
     foldl (\<lambda>gs x. setdefault_step (key x) (ini x) (upd x) gs) [] xs"

text \<open>The distinct elements of a list in the order of their first occurrence.\<close>

definition first_occurrences :: "'a list \<Rightarrow> 'a list" where
  "first_occurrences xs = rev (remdups (rev xs))"

lemma set_first_occurrences [simp]: "set (first_occurrences xs) = set xs"
  by (simp add: first_occurrences_def)

lemma distinct_first_occurrences [simp]: "distinct (first_occurrences xs)"
  by (simp add: first_occurrences_def)

lemma first_occurrences_Nil [simp]: "first_occurrences [] = []"
  by (simp add: first_occurrences_def)

lemma first_occurrences_snoc:
  "first_occurrences (xs @ [x]) =
     (if x \<in> set xs then first_occurrences xs else first_occurrences xs @ [x])"
  by (simp add: first_occurrences_def)

lemma setdefault_step_keys:
  "map fst (setdefault_step k g u gs) =
     (if k \<in> set (map fst gs) then map fst gs else map fst gs @ [k])"
proof (induction gs)
  case (Cons p gs)
  then show ?case by (cases p) (auto simp del: set_map)
qed simp

lemma setdefault_step_get:
  "map_of (setdefault_step k g u gs) k' =
     (if k' = k then Some (u (case map_of gs k of None \<Rightarrow> g | Some g' \<Rightarrow> g')) else map_of gs k')"
  by (induction gs) auto

lemma setdefault_fold_snoc:
  "setdefault_fold key ini upd (xs @ [x]) =
     setdefault_step (key x) (ini x) (upd x) (setdefault_fold key ini upd xs)"
  by (simp add: setdefault_fold_def)

lemma setdefault_fold_Nil [simp]: "setdefault_fold key ini upd [] = []"
  by (simp add: setdefault_fold_def)

lemma setdefault_fold_keys:
  "map fst (setdefault_fold key ini upd xs) = first_occurrences (map key xs)"
proof (induction xs rule: rev_induct)
  case (snoc x xs)
  then show ?case
    by (simp add: setdefault_fold_snoc setdefault_step_keys first_occurrences_snoc del: set_map)
qed simp

lemma setdefault_fold_distinct: "distinct (map fst (setdefault_fold key ini upd xs))"
  by (simp add: setdefault_fold_keys)

text \<open>The group of a key is built from the members with that key alone, in their order.\<close>

definition fold_group :: "('a \<Rightarrow> 'g) \<Rightarrow> ('a \<Rightarrow> 'g \<Rightarrow> 'g) \<Rightarrow> 'a list \<Rightarrow> 'g option" where
  "fold_group ini upd ys = (case ys of [] \<Rightarrow> None | y # _ \<Rightarrow> Some (foldl (\<lambda>g x. upd x g) (ini y) ys))"

lemma fold_group_SomeE:
  assumes "fold_group ini upd ys = Some g"
  obtains y ys' where "ys = y # ys'" "g = foldl (\<lambda>g x. upd x g) (ini y) (y # ys')"
  using assms by (cases ys) (auto simp: fold_group_def)

lemma fold_group_snoc:
  "fold_group ini upd (ys @ [y]) =
     Some (upd y (case fold_group ini upd ys of None \<Rightarrow> ini y | Some g \<Rightarrow> g))"
  by (cases ys) (auto simp: fold_group_def)

lemma setdefault_fold_get:
  "map_of (setdefault_fold key ini upd xs) k = fold_group ini upd (filter (\<lambda>x. key x = k) xs)"
proof (induction xs rule: rev_induct)
  case Nil
  then show ?case by (simp add: fold_group_def)
next
  case (snoc x xs)
  then show ?case
    by (auto simp: setdefault_fold_snoc setdefault_step_get fold_group_snoc)
qed

lemma setdefault_fold_member:
  "(k, g) \<in> set (setdefault_fold key ini upd xs) \<longleftrightarrow>
     fold_group ini upd (filter (\<lambda>x. key x = k) xs) = Some g"
  by (metis map_of_eq_Some_iff setdefault_fold_distinct setdefault_fold_get)

subsection \<open>Grouping rows\<close>

text \<open>\<open>groups.setdefault(key(row), []).append(row)\<close>\<close>

definition group_rows :: "('a \<Rightarrow> 'k) \<Rightarrow> 'a list \<Rightarrow> ('k, 'a list) dict" where
  "group_rows key xs = setdefault_fold key (\<lambda>_. []) (\<lambda>x g. g @ [x]) xs"

lemma foldl_append_singletons: "foldl (\<lambda>g x. g @ [x]) ys xs = ys @ xs"
  by (induction xs arbitrary: ys) auto

lemma fold_group_append:
  "fold_group (\<lambda>_. []) (\<lambda>x g. g @ [x]) ys = (if ys = [] then None else Some ys)"
  by (cases ys) (simp_all add: fold_group_def foldl_append_singletons)

lemma group_rows_member:
  "(k, g) \<in> set (group_rows key xs) \<longleftrightarrow> g = filter (\<lambda>x. key x = k) xs \<and> g \<noteq> []"
  by (auto simp: group_rows_def setdefault_fold_member fold_group_append split: if_splits)

lemma group_rows_keys: "map fst (group_rows key xs) = first_occurrences (map key xs)"
  by (simp add: group_rows_def setdefault_fold_keys)

lemma group_rows_distinct: "distinct (map fst (group_rows key xs))"
  by (simp add: group_rows_keys)

lemma group_rows_nonempty: "(k, g) \<in> set (group_rows key xs) \<Longrightarrow> g \<noteq> []"
  by (auto simp: group_rows_member)

lemma group_rows_eq:
  "group_rows key xs = map (\<lambda>k. (k, filter (\<lambda>x. key x = k) xs)) (first_occurrences (map key xs))"
proof -
  have "group_rows key xs = map (\<lambda>p. (fst p, filter (\<lambda>x. key x = fst p) xs)) (group_rows key xs)"
    by (rule map_idI [symmetric]) (auto simp: group_rows_member)
  also have "\<dots> = map (\<lambda>k. (k, filter (\<lambda>x. key x = k) xs)) (map fst (group_rows key xs))"
    by simp
  finally show ?thesis by (simp add: group_rows_keys)
qed

lemma sum_list_indicator: "distinct ks \<Longrightarrow> y \<in> set ks \<Longrightarrow> sum_list (map (\<lambda>k. if k = y then 1 else 0) ks) = (1::nat)"
proof (induction ks)
  case (Cons k ks)
  have "y \<notin> set ks \<Longrightarrow> sum_list (map (\<lambda>k. if k = y then 1 else 0) ks) = (0::nat)"
    by (induction ks) auto
  with Cons show ?case by auto
qed simp

lemma sum_list_filter_partition:
  assumes "distinct ks" and "f ` set xs \<subseteq> set ks"
  shows "sum_list (map (\<lambda>k. length (filter (\<lambda>x. f x = k) xs)) ks) = length xs"
  using assms(2)
proof (induction xs)
  case Nil
  then show ?case by (induction ks) auto
next
  case (Cons x xs)
  have "sum_list (map (\<lambda>k. length (filter (\<lambda>y. f y = k) (x # xs))) ks) =
      sum_list (map (\<lambda>k. (if k = f x then 1 else 0) + length (filter (\<lambda>y. f y = k) xs)) ks)"
    by (rule arg_cong [where f = sum_list]) auto
  also have "\<dots> = 1 + length xs"
    using Cons assms(1) by (simp add: sum_list_addf sum_list_indicator)
  finally show ?case by simp
qed

lemma group_rows_sizes: "sum_list (map (\<lambda>p. length (snd p)) (group_rows key xs)) = length xs"
  using sum_list_filter_partition [of "first_occurrences (map key xs)" key xs]
  by (simp add: group_rows_eq comp_def)

section \<open>The first maximum\<close>

text \<open>\<open>max(xs, key=f)\<close> returns the first element with the greatest key; it raises on no elements.\<close>

fun max_first :: "('a \<Rightarrow> 'k::linorder) \<Rightarrow> 'a \<Rightarrow> 'a list \<Rightarrow> 'a" where
  "max_first f m [] = m"
| "max_first f m (x # xs) = max_first f (if f m < f x then x else m) xs"

definition py_max :: "('a \<Rightarrow> 'k::linorder) \<Rightarrow> 'a list \<Rightarrow> 'a res" where
  "py_max f xs = (case xs of [] \<Rightarrow> Raise ValueError | x # xs' \<Rightarrow> Ok (max_first f x xs'))"

lemma max_first_in: "max_first f m xs \<in> insert m (set xs)"
proof (induction xs arbitrary: m)
  case (Cons x xs)
  show ?case using Cons.IH [of m] Cons.IH [of x] by auto
qed simp

lemma max_first_ge: "x \<in> insert m (set xs) \<Longrightarrow> f x \<le> f (max_first f m xs)"
proof (induction xs arbitrary: m x)
  case (Cons y ys)
  let ?m = "if f m < f y then y else m"
  have "f ?m \<le> f (max_first f ?m ys)" by (rule Cons.IH) simp
  moreover have "f m \<le> f ?m" and "f y \<le> f ?m" by auto
  ultimately show ?case
    using Cons.prems Cons.IH [of x ?m] by (auto intro: order_trans)
qed simp

lemma py_max_Ok:
  "py_max f xs = Inr m \<Longrightarrow> m \<in> set xs \<and> (\<forall>x \<in> set xs. f x \<le> f m)"
  using max_first_in [of f "hd xs" "tl xs"] max_first_ge [of _ "hd xs" "tl xs" f]
  by (auto simp: py_max_def split: list.splits)

end
