(* ===== verification/PyText.thy ===== *)
theory PyText
  imports Prelude "HOL-Library.Sublist"
begin

text \<open>
  Python's \<open>str\<close> operations that the service uses, on code points U+0000 to U+00FF: a
  \<open>char\<close> stands for the code point of its number (Latin-1), which is also how the web
  server decodes request headers. On this range the definitions below agree with Python's
  Unicode database: the white space of \<open>str.isspace\<close>/\<open>str.strip\<close> (the same set as the
  \<open>\s\<close> of a \<open>re\<close> pattern), the letters of \<open>str.isalpha\<close> and the case mapping of
  \<open>str.lower\<close>. Strings are ordered by code point, as Python orders them.
\<close>

section \<open>Character classes\<close>

definition code_point :: "char \<Rightarrow> nat" where
  "code_point c = of_char c"

definition is_space :: "char \<Rightarrow> bool" where
  "is_space c = (let n = code_point c in (9 \<le> n \<and> n \<le> 13) \<or> (28 \<le> n \<and> n \<le> 32) \<or> n = 133 \<or> n = 160)"

definition is_digit :: "char \<Rightarrow> bool" where
  "is_digit c = (let n = code_point c in 48 \<le> n \<and> n \<le> 57)"

definition is_alpha_char :: "char \<Rightarrow> bool" where
  "is_alpha_char c = (let n = code_point c in
     (65 \<le> n \<and> n \<le> 90) \<or> (97 \<le> n \<and> n \<le> 122) \<or> n = 170 \<or> n = 181 \<or> n = 186 \<or>
     (192 \<le> n \<and> n \<le> 214) \<or> (216 \<le> n \<and> n \<le> 246) \<or> (248 \<le> n \<and> n \<le> 255))"

definition is_upper :: "char \<Rightarrow> bool" where
  "is_upper c = (let n = code_point c in (65 \<le> n \<and> n \<le> 90) \<or> (192 \<le> n \<and> n \<le> 214) \<or> (216 \<le> n \<and> n \<le> 222))"

definition lower_char :: "char \<Rightarrow> char" where
  "lower_char c = (if is_upper c then char_of (code_point c + 32) else c)"

definition py_lower :: "string \<Rightarrow> string" where
  "py_lower s = map lower_char s"

definition py_isalpha :: "string \<Rightarrow> bool" where
  "py_isalpha s = (s \<noteq> [] \<and> list_all is_alpha_char s)"

lemma code_point_less: "code_point c < 256"
  by (simp add: code_point_def)

lemma code_point_lower:
  "code_point (lower_char c) = (if is_upper c then code_point c + 32 else code_point c)"
  using code_point_less [of c]
  by (auto simp: lower_char_def code_point_def is_upper_def Let_def take_bit_eq_mod)

lemma lower_char_idem [simp]: "lower_char (lower_char c) = lower_char c"
proof -
  have "\<not> is_upper (lower_char c)"
    by (auto simp: is_upper_def Let_def code_point_lower)
  then show ?thesis by (simp add: lower_char_def)
qed

lemma py_lower_idem [simp]: "py_lower (py_lower s) = py_lower s"
  by (simp add: py_lower_def)

lemma py_lower_length [simp]: "length (py_lower s) = length s"
  by (simp add: py_lower_def)

lemma py_lower_empty [simp]: "py_lower s = [] \<longleftrightarrow> s = []"
  by (simp add: py_lower_def)

section \<open>Trimming, splitting, prefixes\<close>

definition py_strip :: "string \<Rightarrow> string" where
  "py_strip s = rev (dropWhile is_space (rev (dropWhile is_space s)))"

definition py_startswith :: "string \<Rightarrow> string \<Rightarrow> bool" where
  "py_startswith s p = prefix p s"

definition py_endswith :: "string \<Rightarrow> string \<Rightarrow> bool" where
  "py_endswith s p = suffix p s"

text \<open>\<open>s.split(c)\<close> for a one-character separator: never empty.\<close>

fun py_split_char :: "char \<Rightarrow> string \<Rightarrow> string list" where
  "py_split_char c [] = [[]]"
| "py_split_char c (x # xs) =
     (if x = c then [] # py_split_char c xs
      else case py_split_char c xs of [] \<Rightarrow> [[x]] | w # ws \<Rightarrow> (x # w) # ws)"

text \<open>\<open>s.partition(c)\<close> without the middle component: nothing after when \<open>c\<close> is absent.\<close>

definition py_partition :: "char \<Rightarrow> string \<Rightarrow> string \<times> string" where
  "py_partition c s = (takeWhile (\<lambda>x. x \<noteq> c) s, tl (dropWhile (\<lambda>x. x \<noteq> c) s))"

text \<open>\<open>re.split(r"[...]+", s)\<close> for a class of separators: a run of separators splits once,
  and a run at either end leaves an empty string there.\<close>

function re_split_runs :: "(char \<Rightarrow> bool) \<Rightarrow> string \<Rightarrow> string list" where
  "re_split_runs p s =
     (case dropWhile (\<lambda>c. \<not> p c) s of
        [] \<Rightarrow> [s]
      | _ \<Rightarrow> takeWhile (\<lambda>c. \<not> p c) s # re_split_runs p (dropWhile p (dropWhile (\<lambda>c. \<not> p c) s)))"
  by pat_completeness auto
termination
proof (relation "measure (\<lambda>(p, s). length s)")
  fix p :: "char \<Rightarrow> bool" and s x xs
  assume d: "dropWhile (\<lambda>c. \<not> p c) s = x # xs"
  then have "p x" using hd_dropWhile [of "\<lambda>c. \<not> p c" s] by auto
  have "length (dropWhile p (x # xs)) \<le> length xs"
    using \<open>p x\<close> by (simp add: length_dropWhile_le)
  also have "length xs < length s"
    using d length_dropWhile_le [of "\<lambda>c. \<not> p c" s] by simp
  finally show "((p, dropWhile p (dropWhile (\<lambda>c. \<not> p c) s)), (p, s)) \<in> measure (\<lambda>(p, s). length s)"
    using d by simp
qed simp

declare re_split_runs.simps [simp del]

text \<open>\<open>s.split()\<close>: the maximal runs of characters that are not white space.\<close>

definition py_split_ws :: "string \<Rightarrow> string list" where
  "py_split_ws s = filter (\<lambda>w. w \<noteq> []) (re_split_runs is_space s)"

fun py_join :: "string \<Rightarrow> string list \<Rightarrow> string" where
  "py_join sep [] = []"
| "py_join sep [w] = w"
| "py_join sep (w # ws) = w @ sep @ py_join sep ws"

lemma dropWhile_is_space_idem [simp]: "dropWhile is_space (dropWhile is_space s) = dropWhile is_space s"
  by (induction s) auto

lemma py_strip_hd: "py_strip s \<noteq> [] \<Longrightarrow> \<not> is_space (hd (py_strip s))"
proof -
  assume ne: "py_strip s \<noteq> []"
  let ?t = "dropWhile is_space s"
  obtain u where u: "?t = py_strip s @ u"
    unfolding py_strip_def
    by (metis rev_append rev_rev_ident takeWhile_dropWhile_id)
  with ne have "hd (py_strip s) = hd ?t" and "?t \<noteq> []" by auto
  then show ?thesis using hd_dropWhile [of is_space s] by simp
qed

lemma py_strip_last: "py_strip s \<noteq> [] \<Longrightarrow> \<not> is_space (last (py_strip s))"
  unfolding py_strip_def by (metis Nil_is_rev_conv hd_dropWhile last_rev)

lemma py_strip_idem [simp]: "py_strip (py_strip s) = py_strip s"
proof (cases "py_strip s = []")
  case True
  have "py_strip [] = []" by (simp add: py_strip_def)
  with True show ?thesis by simp
next
  case False
  have a: "dropWhile is_space (py_strip s) = py_strip s"
    using py_strip_hd [OF False] False by (cases "py_strip s") auto
  have "dropWhile is_space (rev (py_strip s)) = rev (py_strip s)"
    using py_strip_last [OF False] False
    by (cases "py_strip s" rule: rev_cases) auto
  with a show ?thesis by (simp add: py_strip_def)
qed

lemma set_py_strip: "set (py_strip s) \<subseteq> set s"
  unfolding py_strip_def by (auto dest!: set_dropWhileD)

lemma py_split_char_nonempty [simp]: "py_split_char c s \<noteq> []"
  by (induction s) (auto split: list.splits)

lemma py_split_char_hd: "hd (py_split_char c s) = takeWhile (\<lambda>x. x \<noteq> c) s"
  by (induction s) (auto split: list.splits)

lemma py_split_char_join: "py_join [c] (py_split_char c s) = s"
proof (induction s)
  case (Cons x s)
  then show ?case
    by (cases "py_split_char c s"; cases "tl (py_split_char c s)") auto
qed simp

lemma re_split_runs_no_separator:
  "w \<in> set (re_split_runs p s) \<Longrightarrow> c \<in> set w \<Longrightarrow> \<not> p c"
proof (induction p s rule: re_split_runs.induct)
  case (1 p s)
  show ?case
  proof (cases "dropWhile (\<lambda>c. \<not> p c) s")
    case Nil
    with "1.prems" show ?thesis
      by (auto simp: re_split_runs.simps [of p s] dropWhile_eq_Nil_conv)
  next
    case (Cons x xs)
    with 1 show ?thesis
      by (auto simp: re_split_runs.simps [of p s] dest: set_takeWhileD)
  qed
qed

section \<open>Decimal numerals\<close>

definition digit_char :: "nat \<Rightarrow> char" where
  "digit_char d = char_of (48 + d)"

definition digit_val :: "char \<Rightarrow> nat" where
  "digit_val c = code_point c - 48"

fun show_nat :: "nat \<Rightarrow> string" where
  "show_nat n = (if n < 10 then [digit_char n] else show_nat (n div 10) @ [digit_char (n mod 10)])"

declare show_nat.simps [simp del]

definition show_int :: "int \<Rightarrow> string" where
  "show_int i = (if i < 0 then CHR ''-'' # show_nat (nat (- i)) else show_nat (nat i))"

definition read_digits :: "string \<Rightarrow> nat" where
  "read_digits ds = foldl (\<lambda>n c. 10 * n + digit_val c) 0 ds"

text \<open>A number printed with leading zeros to a width, as the \<open>%04d\<close> of \<open>date.isoformat\<close>.\<close>

fun pad_digits :: "nat \<Rightarrow> nat \<Rightarrow> string" where
  "pad_digits 0 n = []"
| "pad_digits (Suc w) n = pad_digits w (n div 10) @ [digit_char (n mod 10)]"

lemma code_point_digit: "d < 10 \<Longrightarrow> code_point (digit_char d) = 48 + d"
  by (simp add: code_point_def digit_char_def take_bit_eq_mod)

lemma digit_val_char [simp]: "d < 10 \<Longrightarrow> digit_val (digit_char d) = d"
  by (simp add: digit_val_def code_point_digit)

lemma is_digit_char [simp]: "d < 10 \<Longrightarrow> is_digit (digit_char d)"
  by (simp add: is_digit_def code_point_digit)

lemma read_digits_snoc: "read_digits (ds @ [c]) = 10 * read_digits ds + digit_val c"
  by (simp add: read_digits_def)

lemma read_show_nat: "read_digits (show_nat n) = n"
proof (induction n rule: show_nat.induct)
  case (1 n)
  show ?case
  proof (cases "n < 10")
    case True
    then show ?thesis by (simp add: show_nat.simps [of n] read_digits_def)
  next
    case False
    with 1 show ?thesis by (simp add: show_nat.simps [of n] read_digits_snoc)
  qed
qed

lemma pad_digits_length [simp]: "length (pad_digits w n) = w"
  by (induction w arbitrary: n) auto

lemma pad_digits_digits: "list_all is_digit (pad_digits w n)"
  by (induction w arbitrary: n) auto

lemma read_pad_digits: "n < 10 ^ w \<Longrightarrow> read_digits (pad_digits w n) = n"
proof (induction w arbitrary: n)
  case 0
  then show ?case by (simp add: read_digits_def)
next
  case (Suc w)
  then have "n div 10 < 10 ^ w" by (simp add: less_mult_imp_div_less mult.commute)
  with Suc.IH show ?case by (simp add: read_digits_snoc)
qed

lemma show_nat_digits: "list_all is_digit (show_nat n) \<and> show_nat n \<noteq> []"
proof (induction n rule: show_nat.induct)
  case (1 n)
  then show ?case by (cases "n < 10") (simp_all add: show_nat.simps [of n])
qed

section \<open>UTF-8\<close>

definition utf8_char :: "char \<Rightarrow> nat list" where
  "utf8_char c = (let n = code_point c in if n < 128 then [n] else [192 + n div 64, 128 + n mod 64])"

definition py_encode_utf8 :: "string \<Rightarrow> nat list" where
  "py_encode_utf8 s = concat (map utf8_char s)"

lemma utf8_char_bytes: "b \<in> set (utf8_char c) \<Longrightarrow> b < 256"
  using code_point_less [of c] by (auto simp: utf8_char_def Let_def split: if_splits)

lemma py_encode_utf8_bytes: "b \<in> set (py_encode_utf8 s) \<Longrightarrow> b < 256"
  by (auto simp: py_encode_utf8_def intro: utf8_char_bytes)

lemma code_point_inj: "code_point c = code_point d \<Longrightarrow> c = d"
  by (simp add: code_point_def)

lemma py_encode_utf8_Cons: "py_encode_utf8 (c # s) = utf8_char c @ py_encode_utf8 s"
  by (simp add: py_encode_utf8_def)

lemma utf8_char_prefix_free:
  assumes "utf8_char c @ xs = utf8_char d @ ys"
  shows "c = d \<and> xs = ys"
proof -
  let ?n = "code_point c" and ?m = "code_point d"
  have "?n = ?m \<and> xs = ys"
  proof (cases "?n < 128 \<or> ?m < 128")
    case True
    with assms show ?thesis by (auto simp: utf8_char_def Let_def split: if_splits)
  next
    case False
    with assms have "?n div 64 = ?m div 64" "?n mod 64 = ?m mod 64" and xs: "xs = ys"
      by (auto simp: utf8_char_def Let_def)
    then have "?n = ?m" by (metis div_mult_mod_eq)
    with xs show ?thesis by simp
  qed
  then show ?thesis using code_point_inj by auto
qed

lemma py_encode_utf8_inj: "py_encode_utf8 s = py_encode_utf8 t \<Longrightarrow> s = t"
proof (induction s arbitrary: t)
  case Nil
  then show ?case
    by (cases t) (auto simp: py_encode_utf8_def utf8_char_def Let_def split: if_splits)
next
  case (Cons c s)
  obtain d t' where t: "t = d # t'"
    using Cons.prems by (cases t) (auto simp: py_encode_utf8_def utf8_char_def Let_def split: if_splits)
  from Cons.prems have "utf8_char c @ py_encode_utf8 s = utf8_char d @ py_encode_utf8 t'"
    by (simp add: t py_encode_utf8_Cons)
  from utf8_char_prefix_free [OF this] show ?case
    using Cons.IH t by auto
qed

end
