(* ===== verification/PyFloat.thy ===== *)
theory PyFloat
  imports PyText Complex_Main "HOL-Library.Log_Nat" "HOL-Library.Product_Lexorder"
begin

text \<open>
  Python's \<open>float\<close>: IEEE 754 binary64 with round-to-nearest-even, over exact rationals.
  A finite value is the rational it denotes (with the negative zero kept apart); every
  operation computes the exact result and rounds it once with \<open>rnd64\<close>, as the hardware
  does. On top of it: conversion from \<open>int\<close> (which raises \<open>OverflowError\<close>), the
  literal syntax that \<open>float(str)\<close> accepts, \<open>round(x, n)\<close>, the compensated \<open>sum\<close> of
  Python 3.12 (the version the service requires) and the shortest \<open>repr\<close>.
\<close>

section \<open>Values and rounding\<close>

datatype pyfloat = Fin rat | NegZero | PInf | NInf | NaN

fun finite_val :: "pyfloat \<Rightarrow> rat option" where
  "finite_val (Fin x) = Some x"
| "finite_val NegZero = Some 0"
| "finite_val _ = None"

text \<open>\<open>b\<close> to an integer power.\<close>

definition ipow :: "rat \<Rightarrow> int \<Rightarrow> rat" where
  "ipow b e = (if 0 \<le> e then b ^ nat e else 1 / b ^ nat (- e))"

text \<open>The floor of the binary logarithm of a positive rational.\<close>

definition ilog2 :: "rat \<Rightarrow> int" where
  "ilog2 x = (case quotient_of x of (p, q) \<Rightarrow>
     let e = bitlen p - bitlen q in if ipow 2 e \<le> x then e else e - 1)"

definition round_half_even :: "rat \<Rightarrow> int" where
  "round_half_even x =
     (let f = \<lfloor>x\<rfloor>; d = x - of_int f
      in if d < 1 / 2 then f else if 1 / 2 < d then f + 1 else if even f then f else f + 1)"

definition ulp_exp :: "rat \<Rightarrow> int" where
  "ulp_exp x = max (ilog2 \<bar>x\<bar> - 52) (- 1074)"

text \<open>Magnitudes from \<open>2 ^ 1024\<close> up do not fit the format.\<close>

definition float_limit :: rat where
  "float_limit = 2 ^ 1024"

definition rnd64 :: "rat \<Rightarrow> pyfloat" where
  "rnd64 x =
     (if x = 0 then Fin 0
      else let e = ulp_exp x; y = of_int (round_half_even (x / ipow 2 e)) * ipow 2 e
           in if float_limit \<le> y then PInf
              else if y \<le> - float_limit then NInf
              else if y = 0 \<and> x < 0 then NegZero
              else Fin y)"

section \<open>Comparison and arithmetic\<close>

text \<open>
  Python's \<open><\<close> on floats. The ordering key sends both zeros to 0 and places NaN last;
  on values other than NaN the order of the keys is Python's order.
\<close>

definition float_key :: "pyfloat \<Rightarrow> int \<times> rat" where
  "float_key f = (case f of Fin x \<Rightarrow> (0, x) | NegZero \<Rightarrow> (0, 0) | PInf \<Rightarrow> (1, 0)
     | NInf \<Rightarrow> (- 1, 0) | NaN \<Rightarrow> (2, 0))"

definition float_less :: "pyfloat \<Rightarrow> pyfloat \<Rightarrow> bool" where
  "float_less a b = (a \<noteq> NaN \<and> b \<noteq> NaN \<and> float_key a < float_key b)"

definition float_pos :: "pyfloat \<Rightarrow> bool" where
  "float_pos a = float_less (Fin 0) a"

text \<open>\<open>bool(x)\<close>: only the two zeros are false.\<close>

definition float_truthy :: "pyfloat \<Rightarrow> bool" where
  "float_truthy a = (a \<noteq> Fin 0 \<and> a \<noteq> NegZero)"

definition float_zero :: "bool \<Rightarrow> pyfloat" where
  "float_zero neg = (if neg then NegZero else Fin 0)"

fun float_negative :: "pyfloat \<Rightarrow> bool" where
  "float_negative (Fin x) = (x < 0)"
| "float_negative NegZero = True"
| "float_negative NInf = True"
| "float_negative _ = False"

definition float_inf :: "bool \<Rightarrow> pyfloat" where
  "float_inf neg = (if neg then NInf else PInf)"

fun float_neg :: "pyfloat \<Rightarrow> pyfloat" where
  "float_neg (Fin x) = (if x = 0 then NegZero else Fin (- x))"
| "float_neg NegZero = Fin 0"
| "float_neg PInf = NInf"
| "float_neg NInf = PInf"
| "float_neg NaN = NaN"

definition float_abs :: "pyfloat \<Rightarrow> pyfloat" where
  "float_abs a = (if float_negative a then float_neg a else a)"

definition float_add :: "pyfloat \<Rightarrow> pyfloat \<Rightarrow> pyfloat" where
  "float_add a b =
     (case (finite_val a, finite_val b) of
        (Some x, Some y) \<Rightarrow> if a = NegZero \<and> b = NegZero then NegZero else rnd64 (x + y)
      | (Some _, None) \<Rightarrow> b
      | (None, Some _) \<Rightarrow> a
      | (None, None) \<Rightarrow> if a = b then a else NaN)"

definition float_sub :: "pyfloat \<Rightarrow> pyfloat \<Rightarrow> pyfloat" where
  "float_sub a b = float_add a (float_neg b)"

definition float_mul :: "pyfloat \<Rightarrow> pyfloat \<Rightarrow> pyfloat" where
  "float_mul a b =
     (let neg = (float_negative a \<noteq> float_negative b) in
      if a = NaN \<or> b = NaN then NaN
      else case (finite_val a, finite_val b) of
        (Some x, Some y) \<Rightarrow> if x * y = 0 then float_zero neg else rnd64 (x * y)
      | _ \<Rightarrow> if float_truthy a \<and> float_truthy b then float_inf neg else NaN)"

definition float_div :: "pyfloat \<Rightarrow> pyfloat \<Rightarrow> pyfloat res" where
  "float_div a b =
     (let neg = (float_negative a \<noteq> float_negative b) in
      if \<not> float_truthy b then Raise ZeroDivisionError
      else if a = NaN \<or> b = NaN then Ok NaN
      else Ok (case (finite_val a, finite_val b) of
        (Some x, Some y) \<Rightarrow> if x = 0 then float_zero neg else rnd64 (x / y)
      | (Some x, None) \<Rightarrow> float_zero neg
      | (None, Some y) \<Rightarrow> float_inf neg
      | (None, None) \<Rightarrow> NaN))"

text \<open>\<open>round(x, n)\<close>: the decimal with \<open>n\<close> places nearest the exact value, ties to even,
  read back as a float; infinities and NaN are returned as they are.\<close>

definition py_round :: "nat \<Rightarrow> pyfloat \<Rightarrow> pyfloat" where
  "py_round n a =
     (case a of
        Fin x \<Rightarrow> (let m = round_half_even (x * 10 ^ n) in
                  if m = 0 then float_zero (x < 0) else rnd64 (of_int m / 10 ^ n))
      | _ \<Rightarrow> a)"

text \<open>\<open>sum(xs)\<close> of a list of floats, starting at the integer 0: the first addition is
  plain, the others keep a running compensation (Neumaier) that is added at the end.\<close>

fun sum_step :: "pyfloat \<times> pyfloat \<Rightarrow> pyfloat \<Rightarrow> pyfloat \<times> pyfloat" where
  "sum_step (s, c) x =
     (let t = float_add s x
      in (t, float_add c
           (if \<not> float_less (float_abs s) (float_abs x) \<and> s \<noteq> NaN \<and> x \<noteq> NaN
            then float_add (float_sub s t) x else float_add (float_sub x t) s)))"

definition py_sum :: "pyfloat list \<Rightarrow> pyfloat" where
  "py_sum xs =
     (case xs of [] \<Rightarrow> Fin 0
      | x # xs' \<Rightarrow>
          (case foldl sum_step (float_add (Fin 0) x, Fin 0) xs' of (s, c) \<Rightarrow>
             if float_truthy c \<and> finite_val c \<noteq> None then float_add s c else s))"

section \<open>Conversions\<close>

definition float_of_int :: "int \<Rightarrow> pyfloat res" where
  "float_of_int i =
     (case rnd64 (of_int i) of PInf \<Rightarrow> Raise OverflowError | NInf \<Rightarrow> Raise OverflowError | f \<Rightarrow> Ok f)"

subsection \<open>The literals of \<open>float(str)\<close>\<close>

definition c_space :: "char \<Rightarrow> bool" where
  "c_space c = (let n = code_point c in (9 \<le> n \<and> n \<le> 13) \<or> n = 32)"

text \<open>Text that is not ASCII first has its spaces replaced; any other character outside
  ASCII becomes one that no literal contains.\<close>

definition float_ascii :: "string \<Rightarrow> string" where
  "float_ascii s =
     (if list_all (\<lambda>c. code_point c < 128) s then s
      else map (\<lambda>c. if code_point c < 127 then c else if is_space c then CHR '' '' else CHR ''?'') s)"

definition c_strip :: "string \<Rightarrow> string" where
  "c_strip s = rev (dropWhile c_space (rev (dropWhile c_space s)))"

text \<open>An underscore is accepted between two digits only.\<close>

fun underscores_ok :: "bool \<Rightarrow> string \<Rightarrow> bool" where
  "underscores_ok d [] = True"
| "underscores_ok d (c # cs) =
     (if c = CHR ''_'' then d \<and> (case cs of [] \<Rightarrow> False | c' # _ \<Rightarrow> is_digit c') \<and> underscores_ok False cs
      else underscores_ok (is_digit c) cs)"

definition parse_sign :: "string \<Rightarrow> bool \<times> string" where
  "parse_sign s = (case s of c # cs \<Rightarrow>
       if c = CHR ''-'' then (True, cs) else if c = CHR ''+'' then (False, cs) else (False, s)
     | [] \<Rightarrow> (False, []))"

definition parse_exponent :: "string \<Rightarrow> int option" where
  "parse_exponent s = (case s of [] \<Rightarrow> Some 0
     | c # cs \<Rightarrow> if c \<noteq> CHR ''e'' then None
         else (case parse_sign cs of (neg, ds) \<Rightarrow>
           if ds = [] \<or> \<not> list_all is_digit ds then None
           else Some (if neg then - int (read_digits ds) else int (read_digits ds))))"

text \<open>Digits, an optional point with digits, an optional exponent: the exact value.\<close>

definition parse_decimal :: "string \<Rightarrow> rat option" where
  "parse_decimal s =
     (let ip = takeWhile is_digit s; r = dropWhile is_digit s;
          (fp, r') = (case r of c # cs \<Rightarrow>
             if c = CHR ''.'' then (takeWhile is_digit cs, dropWhile is_digit cs) else ([], r)
           | [] \<Rightarrow> ([], []))
      in if ip @ fp = [] then None
         else map_option (\<lambda>e. of_nat (read_digits (ip @ fp)) * ipow 10 (e - int (length fp)))
                (parse_exponent r'))"

definition parse_float :: "string \<Rightarrow> pyfloat option" where
  "parse_float s =
     (let t = c_strip (float_ascii s) in
      if \<not> underscores_ok False t then None
      else case parse_sign (py_lower (filter (\<lambda>c. c \<noteq> CHR ''_'') t)) of (neg, r) \<Rightarrow>
        if r = ''inf'' \<or> r = ''infinity'' then Some (float_inf neg)
        else if r = ''nan'' then Some NaN
        else map_option (\<lambda>x. if x = 0 then float_zero neg else rnd64 (if neg then - x else x))
               (parse_decimal r))"

subsection \<open>The shortest \<open>repr\<close>\<close>

definition decimal_len :: "int \<Rightarrow> int" where
  "decimal_len n = int (length (show_nat (nat n)))"

definition ilog10 :: "rat \<Rightarrow> int" where
  "ilog10 x = (case quotient_of x of (p, q) \<Rightarrow>
     let e = decimal_len p - decimal_len q in if ipow 10 e \<le> x then e else e - 1)"

text \<open>The decimals with \<open>n\<close> digits on either side of \<open>x\<close>, the nearer first; the one that
  reads back as \<open>x\<close>, if any.\<close>

definition repr_digits_at :: "rat \<Rightarrow> nat \<Rightarrow> (int \<times> int) option" where
  "repr_digits_at x n =
     (let e = ilog10 x - int n + 1; y = x / ipow 10 e; lo = \<lfloor>y\<rfloor>; hi = lo + 1;
          near = round_half_even y; far = (if near = lo then hi else lo)
      in map_option (\<lambda>d. (d, e)) (find (\<lambda>d. rnd64 (of_int d * ipow 10 e) = Fin x) [near, far]))"

fun repr_search :: "rat \<Rightarrow> nat list \<Rightarrow> (int \<times> int)" where
  "repr_search x [] = (0, 0)"
| "repr_search x (n # ns) = (case repr_digits_at x n of Some r \<Rightarrow> r | None \<Rightarrow> repr_search x ns)"

definition strip_zeros :: "string \<Rightarrow> string" where
  "strip_zeros ds = rev (dropWhile (\<lambda>c. c = CHR ''0'') (rev ds))"

definition repr_exponent :: "int \<Rightarrow> string" where
  "repr_exponent e =
     (let ds = show_nat (nat \<bar>e\<bar>)
      in (if e < 0 then ''e-'' else ''e+'') @ (if length ds < 2 then CHR ''0'' # ds else ds))"

definition repr_positive :: "rat \<Rightarrow> string" where
  "repr_positive x =
     (case repr_search x [1..<18] of (d, e) \<Rightarrow>
        let ds0 = show_nat (nat d); decpt = int (length ds0) + e; ds = strip_zeros ds0 in
        if decpt \<le> - 4 \<or> 16 < decpt
        then (if length ds = 1 then ds else hd ds # CHR ''.'' # tl ds) @ repr_exponent (decpt - 1)
        else if decpt \<le> 0 then ''0.'' @ replicate (nat (- decpt)) CHR ''0'' @ ds
        else if int (length ds) \<le> decpt
             then ds @ replicate (nat decpt - length ds) CHR ''0'' @ ''.0''
             else take (nat decpt) ds @ ''.'' @ drop (nat decpt) ds)"

fun py_repr_float :: "pyfloat \<Rightarrow> string" where
  "py_repr_float (Fin x) =
     (if x = 0 then ''0.0'' else if x < 0 then CHR ''-'' # repr_positive (- x) else repr_positive x)"
| "py_repr_float NegZero = ''-0.0''"
| "py_repr_float PInf = ''inf''"
| "py_repr_float NInf = ''-inf''"
| "py_repr_float NaN = ''nan''"

section \<open>Facts about rounding\<close>

definition is_double :: "rat \<Rightarrow> bool" where
  "is_double x \<longleftrightarrow> (\<exists>m e. x = of_int m * ipow 2 e \<and> \<bar>m\<bar> < 2 ^ 53 \<and> - 1074 \<le> e \<and> \<bar>x\<bar> < float_limit)"

lemma ipow_power_int: "ipow b e = b powi e"
  by (simp add: ipow_def power_int_def power_inverse divide_inverse)

lemma ipow_pos [simp]: "0 < b \<Longrightarrow> 0 < ipow b e"
  by (simp add: ipow_def)

lemma ipow_add: "b \<noteq> 0 \<Longrightarrow> ipow b (m + n) = ipow b m * ipow b n"
  by (simp add: ipow_power_int power_int_add)

lemma ipow_diff: "b \<noteq> 0 \<Longrightarrow> ipow b (m - n) = ipow b m / ipow b n"
  by (simp add: ipow_power_int power_int_diff)

lemma ipow_mono: "1 \<le> b \<Longrightarrow> m \<le> n \<Longrightarrow> ipow b m \<le> ipow b n"
  by (simp add: ipow_power_int power_int_increasing)

lemma ipow_less_cancel: "1 < b \<Longrightarrow> ipow b m < ipow b n \<longleftrightarrow> m < n"
  by (metis ipow_power_int power_int_strict_increasing linorder_not_less less_le_not_le ipow_mono less_imp_le)

lemma ipow_nonneg_int: "0 \<le> e \<Longrightarrow> ipow 2 e = of_int (2 ^ nat e)"
  by (simp add: ipow_def)

lemma ilog2_bounds:
  assumes "0 < x"
  shows "ipow 2 (ilog2 x) \<le> x" and "x < ipow 2 (ilog2 x + 1)"
proof -
  obtain p q where pq: "quotient_of x = (p, q)" by force
  then have q: "0 < q" and x: "x = of_int p / of_int q"
    using quotient_of_denom_pos quotient_of_div by blast+
  then have p: "0 < p" using assms by (simp add: zero_less_divide_iff)
  have b: "ipow 2 (bitlen n - 1) \<le> of_int n \<and> of_int n < ipow 2 (bitlen n)" if "0 < n" for n
  proof -
    have "1 \<le> bitlen n" using that bitlen_eq_zero_iff [of n] bitlen_nonneg [of n] by linarith
    then show ?thesis using bitlen_bounds [OF that]
      by (auto simp: ipow_nonneg_int simp flip: of_int_power) 
  qed
  let ?e = "bitlen p - bitlen q"
  have "x < ipow 2 (bitlen p) / ipow 2 (bitlen q - 1)"
    unfolding x using b [OF p] b [OF q] q p by (intro frac_less) auto
  also have "\<dots> = ipow 2 (?e + 1)" by (simp flip: ipow_diff add: algebra_simps)
  finally have up: "x < ipow 2 (?e + 1)" .
  have "ipow 2 (?e - 1) = ipow 2 (bitlen p - 1) / ipow 2 (bitlen q)"
    by (simp flip: ipow_diff add: algebra_simps)
  also have "\<dots> < x"
    unfolding x using b [OF p] b [OF q] q p by (intro frac_less2) auto
  finally have lo: "ipow 2 (?e - 1) < x" .
  show "ipow 2 (ilog2 x) \<le> x" "x < ipow 2 (ilog2 x + 1)"
    using up lo by (auto simp: ilog2_def pq Let_def)
qed

lemma round_half_even_of_int [simp]: "round_half_even (of_int n) = n"
  by (simp add: round_half_even_def Let_def)

lemma round_half_even_bounds: "\<lfloor>x\<rfloor> \<le> round_half_even x \<and> round_half_even x \<le> \<lfloor>x\<rfloor> + 1"
  by (auto simp: round_half_even_def Let_def)

lemma round_half_even_mono:
  assumes "x \<le> y" shows "round_half_even x \<le> round_half_even y"
proof (cases "\<lfloor>x\<rfloor> = \<lfloor>y\<rfloor>")
  case True
  then show ?thesis using assms by (auto simp: round_half_even_def Let_def)
next
  case False
  then have "\<lfloor>x\<rfloor> + 1 \<le> \<lfloor>y\<rfloor>" using floor_mono [OF assms] by linarith
  then show ?thesis using round_half_even_bounds [of x] round_half_even_bounds [of y] by linarith
qed

lemma ulp_exp_le:
  assumes "x = of_int m * ipow 2 e" "\<bar>m\<bar> < 2 ^ 53" "- 1074 \<le> e" "x \<noteq> 0"
  shows "ulp_exp x \<le> e"
proof -
  have "\<bar>x\<bar> = of_int \<bar>m\<bar> * ipow 2 e" by (simp add: assms(1) abs_mult less_imp_le)
  also have "\<dots> < of_int (2 ^ 53) * ipow 2 e"
    using assms(2) by (intro mult_strict_right_mono) (simp_all only: of_int_less_iff, simp)
  also have "\<dots> = ipow 2 (53 + e)" by (subst ipow_add) (simp_all add: ipow_def)
  finally have "ipow 2 (ilog2 \<bar>x\<bar>) < ipow 2 (53 + e)"
    using ilog2_bounds(1) [of "\<bar>x\<bar>"] assms(4) by (meson le_less_trans zero_less_abs_iff)
  then have "ilog2 \<bar>x\<bar> < 53 + e" by (simp add: ipow_less_cancel)
  with assms(3) show ?thesis by (simp add: ulp_exp_def)
qed

lemma rnd64_exact: "is_double x \<Longrightarrow> rnd64 x = Fin x"
proof -
  assume "is_double x"
  then obtain m e where x: "x = of_int m * ipow 2 e" "\<bar>m\<bar> < 2 ^ 53" "- 1074 \<le> e" "\<bar>x\<bar> < float_limit"
    by (auto simp: is_double_def)
  show ?thesis
  proof (cases "x = 0")
    case False
    let ?u = "ulp_exp x"
    have "?u \<le> e" using ulp_exp_le x False by blast
    then have i: "ipow 2 (e - ?u) = of_int (2 ^ nat (e - ?u))" by (simp add: ipow_def)
    have "x / ipow 2 ?u = of_int m * ipow 2 (e - ?u)" using x(1) by (simp add: ipow_diff)
    then have "x / ipow 2 ?u = of_int (m * 2 ^ nat (e - ?u))" by (simp add: i)
    then have "of_int (round_half_even (x / ipow 2 ?u)) * ipow 2 ?u = x"
      by (metis round_half_even_of_int nonzero_divide_eq_eq ipow_pos less_numeral_extra(3) zero_less_numeral)
    with False x(4) show ?thesis by (auto simp: rnd64_def Let_def)
  qed (simp add: rnd64_def)
qed
lemma is_double_of_int: "\<bar>n\<bar> < 2 ^ 53 \<Longrightarrow> is_double (of_int n)"
  unfolding is_double_def
proof (intro exI conjI)
  assume n: "\<bar>n\<bar> < 2 ^ 53"
  show "of_int n = of_int n * ipow 2 0" by (simp add: ipow_def)
  have "of_int \<bar>n\<bar> < (of_int (2 ^ 53) :: rat)" using n by (simp only: of_int_less_iff)
  also have "\<dots> \<le> float_limit" by (simp add: float_limit_def)
  finally show "\<bar>of_int n :: rat\<bar> < float_limit" by simp
qed auto


lemma float_limit_pos [simp]: "0 < float_limit"
  by (simp add: float_limit_def)

lemma double_ge_min:
  assumes "is_double x" "0 < x"
  shows "ipow 2 (- 1074) \<le> x"
proof -
  obtain m e where x: "x = of_int m * ipow 2 e" "- 1074 \<le> e"
    using assms(1) by (auto simp: is_double_def)
  have "(0::rat) < of_int m * ipow 2 e" using assms(2) x(1) by simp
  then have "(0::rat) < of_int m" by (rule zero_less_mult_pos2) simp
  then have "1 \<le> m" by simp
  then have "1 * ipow 2 (- 1074) \<le> of_int m * ipow 2 e"
    using x(2) by (intro mult_mono ipow_mono) (auto intro: less_imp_le)
  with x show ?thesis by simp
qed

lemma round_scaled_pos:
  assumes "ipow 2 (- 1074) \<le> x"
  shows "1 \<le> round_half_even (x / ipow 2 (ulp_exp x))"
proof -
  have pos: "0 < x" by (rule less_le_trans [OF ipow_pos assms]) simp
  have "ulp_exp x \<le> ilog2 x \<or> ulp_exp x = - 1074"
    using pos by (auto simp: ulp_exp_def)
  then have "ipow 2 (ulp_exp x) \<le> x"
    using assms ilog2_bounds(1) [OF pos] ipow_mono [of 2 "ulp_exp x" "ilog2 x"] by auto
  then have "of_int 1 \<le> x / ipow 2 (ulp_exp x)" by simp
  then have "round_half_even (of_int 1) \<le> round_half_even (x / ipow 2 (ulp_exp x))"
    by (rule round_half_even_mono)
  then show ?thesis by (simp only: round_half_even_of_int)
qed

lemma rnd64_pos:
  assumes "ipow 2 (- 1074) \<le> x"
  shows "float_pos (rnd64 x)"
proof -
  have "x > 0" by (rule less_le_trans [OF ipow_pos assms]) simp
  moreover have "0 < of_int (round_half_even (x / ipow 2 (ulp_exp x))) * ipow 2 (ulp_exp x)"
    using round_scaled_pos [OF assms] by (intro mult_pos_pos) auto
  moreover have "\<not> y \<le> - float_limit" if "0 < y" for y :: rat
    using that float_limit_pos by linarith
  ultimately show ?thesis
    by (auto simp: rnd64_def Let_def float_pos_def float_less_def float_key_def)
qed

text \<open>Values from the limit up round to infinity, so an integer that large raises.\<close>

lemma rnd64_overflow:
  assumes "float_limit \<le> x"
  shows "rnd64 x = PInf"
proof -
  have x: "0 < x" using assms float_limit_pos by linarith
  let ?u = "ulp_exp x"
  have u: "ipow 2 ?u > 0" by simp
  have "float_limit \<le> of_int (round_half_even (x / ipow 2 ?u)) * ipow 2 ?u"
  proof (cases "?u \<le> 1024")
    case True
    let ?k = "2 ^ nat (1024 - ?u) :: int"
    have "float_limit = ipow 2 (1024 - ?u) * ipow 2 ?u"
      by (simp flip: ipow_add add: float_limit_def) (simp add: ipow_def)
    also have "ipow 2 (1024 - ?u) = of_int ?k" using True by (simp add: ipow_def)
    finally have lim: "float_limit = of_int ?k * ipow 2 ?u" .
    have "of_int ?k \<le> x / ipow 2 ?u" using assms lim u by (simp add: le_divide_eq)
    then have "?k \<le> round_half_even (x / ipow 2 ?u)"
      using round_half_even_mono round_half_even_of_int by metis
    then have k: "of_int ?k \<le> (of_int (round_half_even (x / ipow 2 ?u)) :: rat)"
      by (simp only: of_int_le_iff)
    show ?thesis unfolding lim using k less_imp_le [OF u] by (rule mult_right_mono)
  next
    case False
    have "ipow 2 (- 1074) \<le> float_limit" by (simp add: ipow_def float_limit_def)
    then have "ipow 2 (- 1074) \<le> x" using assms by linarith
    then have "1 \<le> round_half_even (x / ipow 2 ?u)" by (rule round_scaled_pos)
    then have "1 * ipow 2 ?u \<le> of_int (round_half_even (x / ipow 2 ?u)) * ipow 2 ?u"
      by (intro mult_right_mono) (simp_all add: less_imp_le)
    moreover have "float_limit \<le> ipow 2 ?u"
      using ipow_mono [of 2 1024 ?u] False by (simp add: ipow_def [of 2 1024] float_limit_def)
    ultimately show ?thesis by linarith
  qed
  then show ?thesis using x by (simp add: rnd64_def Let_def)
qed

lemma float_of_int_overflow: "2 ^ 1024 \<le> i \<Longrightarrow> float_of_int i = Raise OverflowError"
proof -
  assume "2 ^ 1024 \<le> i"
  then have "(of_int (2 ^ 1024) :: rat) \<le> of_int i" by (simp only: of_int_le_iff)
  then have "float_limit \<le> of_int i" by (simp add: float_limit_def)
  then show ?thesis by (simp add: float_of_int_def rnd64_overflow)
qed

section \<open>Well-formed floats\<close>

fun wf_float :: "pyfloat \<Rightarrow> bool" where
  "wf_float (Fin x) = is_double x"
| "wf_float _ = True"

definition float_nonneg :: "pyfloat \<Rightarrow> bool" where
  "float_nonneg a = (a \<noteq> NaN \<and> \<not> float_less a (Fin 0))"

lemma float_nonneg_cases:
  "float_nonneg a \<longleftrightarrow> (\<exists>x. a = Fin x \<and> 0 \<le> x) \<or> a = NegZero \<or> a = PInf"
  by (cases a) (auto simp: float_nonneg_def float_less_def float_key_def)

lemma float_pos_cases: "float_pos a \<longleftrightarrow> (\<exists>x. a = Fin x \<and> 0 < x) \<or> a = PInf"
  by (cases a) (auto simp: float_pos_def float_less_def float_key_def)

lemma float_add_pos:
  assumes "wf_float a" "float_pos a" "float_nonneg b"
  shows "float_pos (float_add a b)"
proof (cases "a = PInf \<or> b = PInf")
  case True
  with assms show ?thesis
    by (auto simp: float_pos_cases float_nonneg_cases float_add_def)
next
  case False
  then obtain x y where a: "a = Fin x" "0 < x" "is_double x" and b: "finite_val b = Some y" "0 \<le> y"
    using assms by (auto simp: float_pos_cases float_nonneg_cases)
  have "ipow 2 (- 1074) \<le> x + y" using double_ge_min [OF a(3,2)] b(2) by simp
  then show ?thesis using a b by (simp add: float_add_def rnd64_pos)
qed

lemma float_add_zero_left:
  "wf_float a \<Longrightarrow> float_add (Fin 0) a = (if a = NegZero then Fin 0 else a)"
  by (cases a) (auto simp: float_add_def rnd64_exact, simp add: rnd64_def)

text \<open>Integers below \<open>2 ^ 53\<close> are exact, so sums and products of small integers evaluate by rewriting.\<close>

lemma rnd64_of_int: "\<bar>n\<bar> < 2 ^ 53 \<Longrightarrow> rnd64 (of_int n) = Fin (of_int n)"
  by (simp add: rnd64_exact is_double_of_int)

lemma rnd64_small [simp]:
  "rnd64 0 = Fin 0"
  "rnd64 1 = Fin 1"
  "numeral k < (2 ^ 53 :: int) \<Longrightarrow> rnd64 (numeral k) = Fin (numeral k)"
  "numeral k < (2 ^ 53 :: int) \<Longrightarrow> rnd64 (- numeral k) = Fin (- numeral k)"
  using rnd64_of_int [of 0] rnd64_of_int [of 1] rnd64_of_int [of "numeral k"] rnd64_of_int [of "- numeral k"]
  by simp_all

lemma round_half_even_small [simp]:
  "round_half_even 0 = 0" "round_half_even 1 = 1" "round_half_even (numeral k) = numeral k"
  using round_half_even_of_int [of 0] round_half_even_of_int [of 1] round_half_even_of_int [of "numeral k"]
  by simp_all

lemmas float_eval = float_add_def float_sub_def float_mul_def float_div_def float_neg.simps
  float_abs_def float_truthy_def float_less_def float_key_def float_pos_def float_zero_def
  py_round_def py_sum_def

end
