(* ===== verification/PyValue.thy ===== *)
theory PyValue
  imports PyFloat
begin

text \<open>
  The dynamically typed values that reach the service as decoded JSON (token claims, table
  rows, request bodies): their truth value, their \<open>str\<close> and \<open>repr\<close>, and \<open>float(value)\<close>.
  A dictionary is an association list with string keys, in insertion order.
\<close>

datatype pyval =
    VNone
  | VBool bool
  | VInt int
  | VFloat pyfloat
  | VStr string
  | VList "pyval list"
  | VDict "(string \<times> pyval) list"

type_synonym pydict = "(string \<times> pyval) list"

fun truthy :: "pyval \<Rightarrow> bool" where
  "truthy VNone = False"
| "truthy (VBool b) = b"
| "truthy (VInt i) = (i \<noteq> 0)"
| "truthy (VFloat f) = float_truthy f"
| "truthy (VStr s) = (s \<noteq> [])"
| "truthy (VList xs) = (xs \<noteq> [])"
| "truthy (VDict d) = (d \<noteq> [])"

text \<open>\<open>d.get(k)\<close>\<close>

definition py_get :: "pydict \<Rightarrow> string \<Rightarrow> pyval" where
  "py_get d k = (case dict_get d k of None \<Rightarrow> VNone | Some v \<Rightarrow> v)"

text \<open>\<open>v or w\<close>\<close>

definition py_or :: "pyval \<Rightarrow> pyval \<Rightarrow> pyval" where
  "py_or v w = (if truthy v then v else w)"

lemma py_get_simps [dict_simps]:
  "py_get [] k = VNone"
  "py_get ((k', v) # d) k = (if k' = k then v else py_get d k)"
  "py_get (dict_set k' v d) k = (if k = k' then v else py_get d k)"
  by (auto simp: py_get_def dict_simps) (auto simp: dict_get_def)

section \<open>Text of a value\<close>

definition hex_digit :: "nat \<Rightarrow> char" where
  "hex_digit d = (if d < 10 then char_of (48 + d) else char_of (87 + d))"

definition hex_byte :: "nat \<Rightarrow> string" where
  "hex_byte b = [hex_digit (b div 16), hex_digit (b mod 16)]"

definition repr_char :: "char \<Rightarrow> char \<Rightarrow> string" where
  "repr_char q c =
     (let n = code_point c in
      if c = q \<or> n = 92 then [CHR 0x5C, c]
      else if n = 9 then [CHR 0x5C, CHR ''t'']
      else if n = 10 then [CHR 0x5C, CHR ''n'']
      else if n = 13 then [CHR 0x5C, CHR ''r'']
      else if n < 32 \<or> (127 \<le> n \<and> n \<le> 160) \<or> n = 173 then CHR 0x5C # CHR ''x'' # hex_byte n
      else [c])"

definition py_repr_str :: "string \<Rightarrow> string" where
  "py_repr_str s =
     (let q = (if CHR 0x27 \<in> set s \<and> CHR 0x22 \<notin> set s then CHR 0x22 else CHR 0x27)
      in q # concat (map (repr_char q) s) @ [q])"

fun py_repr :: "pyval \<Rightarrow> string" where
  "py_repr VNone = ''None''"
| "py_repr (VBool b) = (if b then ''True'' else ''False'')"
| "py_repr (VInt i) = show_int i"
| "py_repr (VFloat f) = py_repr_float f"
| "py_repr (VStr s) = py_repr_str s"
| "py_repr (VList xs) = ''['' @ py_join '', '' (map py_repr xs) @ '']''"
| "py_repr (VDict d) =
     ''{'' @ py_join '', '' (map (\<lambda>p. py_repr_str (fst p) @ '': '' @ py_repr (snd p)) d) @ ''}''"

fun py_str :: "pyval \<Rightarrow> string" where
  "py_str (VStr s) = s"
| "py_str v = py_repr v"

section \<open>float(value)\<close>

fun py_float :: "pyval \<Rightarrow> pyfloat res" where
  "py_float VNone = Raise TypeError"
| "py_float (VBool b) = Ok (Fin (if b then 1 else 0))"
| "py_float (VInt i) = float_of_int i"
| "py_float (VFloat f) = Ok f"
| "py_float (VStr s) = (case parse_float s of None \<Rightarrow> Raise ValueError | Some f \<Rightarrow> Ok f)"
| "py_float (VList xs) = Raise TypeError"
| "py_float (VDict d) = Raise TypeError"

end
