(* ===== verification/Http.thy ===== *)
theory Http
  imports PyValue
begin

text \<open>
  Requests, failures and responses as the handlers see them. A dependency or handler either
  returns a value, raises an \<open>HTTPException\<close>, is refused by validation, or fails with another
  exception, which the framework answers with a bare 500. Header names are case-insensitive
  and the first header of a name wins, as in Starlette.
\<close>

section \<open>Requests\<close>

record request =
  rq_method :: string
  rq_path :: string
  rq_headers :: "(string \<times> string) list"
  rq_client :: "string option"

definition header_get :: "request \<Rightarrow> string \<Rightarrow> string option" where
  "header_get r name = map_of (map (\<lambda>(k, v). (py_lower k, v)) (rq_headers r)) (py_lower name)"

section \<open>Failures\<close>

datatype failure =
    HttpError nat string
  | Unprocessable
  | Crash py_error

fun failure_status :: "failure \<Rightarrow> nat" where
  "failure_status (HttpError s d) = s"
| "failure_status Unprocessable = 422"
| "failure_status (Crash e) = 500"

definition crash :: "'a res \<Rightarrow> failure + 'a" where
  "crash r = (case r of Inl e \<Rightarrow> Inl (Crash e) | Inr x \<Rightarrow> Inr x)"

lemma crash_simps [simp, res_simps]: "crash (Inl e) = Inl (Crash e)" "crash (Inr x) = Inr x"
  by (simp_all add: crash_def)

lemma crash_Inr_iff: "crash r = Inr x \<longleftrightarrow> r = Inr x"
  by (cases r) auto

lemma crash_Inl_iff: "crash r = Inl f \<longleftrightarrow> (\<exists>e. r = Inl e \<and> f = Crash e)"
  by (cases r) auto

section \<open>Responses\<close>

record response =
  rs_status :: nat
  rs_body :: pyval
  rs_headers :: "(string \<times> string) list"

definition respond :: "nat \<Rightarrow> pyval \<Rightarrow> response" where
  "respond status body = \<lparr>rs_status = status, rs_body = body, rs_headers = []\<rparr>"

fun failure_response :: "failure \<Rightarrow> response" where
  "failure_response (HttpError s d) = respond s (VDict [(''detail'', VStr d)])"
| "failure_response Unprocessable = respond 422 (VDict [(''detail'', VNone)])"
| "failure_response (Crash e) = respond 500 (VStr ''Internal Server Error'')"

lemma failure_response_status [simp]: "rs_status (failure_response f) = failure_status f"
  by (cases f) (simp_all add: respond_def)

end
