(* ===== verification/Policy.thy ===== *)
theory Policy
  imports Http
begin

text \<open>
  \<open>src/policies/grid.rego\<close> and \<open>src/celine/grid/security/policy.py\<close>. The Rego package is
  modelled rule by rule on the input that \<open>policy.py\<close> builds; a complete rule (\<open>reason\<close>) with
  two different values is an evaluation error. The wrapper takes the engine as a parameter:
  absent, raising or deciding. The locale states what the service relies on of an engine, and
  is interpreted on the Rego evaluation.
\<close>

section \<open>Callers\<close>

text \<open>
  The SDK's view of a verified token: an organisation answers for its type and its attributes,
  the token for its claims. \<open>organization_groups(claims, alias)\<close> is a parameter.
\<close>

record organization =
  org_alias :: string
  org_type :: "string option"
  org_has_attribute :: "string \<Rightarrow> string \<Rightarrow> bool"

record jwt_user =
  ju_sub :: string
  ju_email :: "string option"
  ju_name :: "string option"
  ju_preferred_username :: "string option"
  ju_claims :: pydict
  ju_organizations :: "organization list"
  ju_is_service_account :: bool

definition DSO_TYPE :: string where
  "DSO_TYPE = ''dso''"

definition dso_networks :: "jwt_user \<Rightarrow> string list" where
  "dso_networks user = sort (map org_alias
     (filter (\<lambda>org. org_type org = Some DSO_TYPE \<or> org_has_attribute org ''type'' DSO_TYPE)
       (ju_organizations user)))"

definition dso_network :: "jwt_user \<Rightarrow> string option \<Rightarrow> string option" where
  "dso_network user requested =
     (let networks = dso_networks user in
      if requested \<noteq> None \<and> the requested \<in> set networks then requested
      else if length networks = 1 then Some (hd networks)
      else None)"

section \<open>The policy input\<close>

datatype subject_type = User | Service

record policy_input =
  pi_subject_id :: string
  pi_type :: subject_type
  pi_groups :: "string list"
  pi_scopes :: "pyval list"
  pi_network_id :: "string option"
  pi_dso_count :: nat
  pi_attr_network_id :: "string option"
  pi_action :: string

definition token_scopes :: "pydict \<Rightarrow> pyval list res" where
  "token_scopes claims =
     (case py_or (py_get claims ''scope'') (VStr '''') of
        VStr s \<Rightarrow> Ok (map VStr (py_split_ws s))
      | VList xs \<Rightarrow> Ok xs
      | VDict d \<Rightarrow> Ok (map (\<lambda>p. VStr (fst p)) d)
      | _ \<Rightarrow> Raise TypeError)"

definition make_policy_input ::
  "(pydict \<Rightarrow> string \<Rightarrow> string list res) \<Rightarrow> jwt_user \<Rightarrow> string \<Rightarrow> string option \<Rightarrow> policy_input res" where
  "make_policy_input organization_groups user action attr_network_id =
     bindR (token_scopes (ju_claims user)) (\<lambda>scopes.
     let subject_type = (if ju_organizations user \<noteq> [] then User
                         else if ju_is_service_account user then Service else User);
         network_id = (if subject_type = Service then None else dso_network user attr_network_id);
         concerned = (if attr_network_id \<noteq> None \<and> attr_network_id \<noteq> Some [] then attr_network_id else network_id)
     in bindR (if concerned \<noteq> None \<and> concerned \<noteq> Some [] \<and> subject_type \<noteq> Service
               then organization_groups (ju_claims user) (the concerned) else Ok []) (\<lambda>groups.
       Ok \<lparr>pi_subject_id = ju_sub user, pi_type = subject_type, pi_groups = groups, pi_scopes = scopes,
           pi_network_id = network_id, pi_dso_count = length (dso_networks user),
           pi_attr_network_id = attr_network_id, pi_action = action\<rparr>))"

section \<open>grid.rego\<close>

definition is_service :: "policy_input \<Rightarrow> bool" where
  "is_service i = (pi_type i = Service)"

definition has_scope :: "policy_input \<Rightarrow> string \<Rightarrow> bool" where
  "has_scope i s = (VStr s \<in> set (pi_scopes i))"

definition has_any_scope :: "policy_input \<Rightarrow> string list \<Rightarrow> bool" where
  "has_any_scope i scopes = list_ex (has_scope i) scopes"

definition owns_network :: "policy_input \<Rightarrow> bool" where
  "owns_network i = (pi_network_id i \<noteq> None \<and> pi_attr_network_id i = pi_network_id i)"

definition rego_allow :: "policy_input \<Rightarrow> bool" where
  "rego_allow i =
     (\<not> is_service i \<and> pi_action i = ''read'' \<and> owns_network i \<or>
      is_service i \<and> pi_action i = ''read'' \<and> has_any_scope i [''grid.read'', ''grid.admin''] \<or>
      \<not> is_service i \<and> pi_action i = ''alerts.read'' \<or>
      \<not> is_service i \<and> pi_action i = ''alerts.write'' \<and> pi_network_id i \<noteq> None \<or>
      is_service i \<and> has_scope i ''grid.admin'')"

definition rego_reasons :: "policy_input \<Rightarrow> (bool \<times> string) list" where
  "rego_reasons i =
    [(\<not> is_service i \<and> pi_action i = ''read'' \<and> owns_network i, ''user accessing own network data''),
     (\<not> is_service i \<and> pi_action i \<in> {''alerts.read'', ''alerts.write''} \<and> rego_allow i,
        ''user managing own alert rules''),
     (is_service i \<and> rego_allow i, ''service access granted''),
     (\<not> rego_allow i \<and> \<not> is_service i \<and> pi_action i = ''read'' \<and> \<not> owns_network i,
        ''network_id mismatch: user does not belong to the requested DSO''),
     (\<not> rego_allow i \<and> \<not> is_service i \<and> pi_action i = ''alerts.write'' \<and> pi_network_id i = None \<and>
        pi_dso_count i < 2, ''missing DSO organization membership''),
     (\<not> rego_allow i \<and> \<not> is_service i \<and> pi_action i = ''alerts.write'' \<and> pi_network_id i = None \<and>
        2 \<le> pi_dso_count i, ''ambiguous DSO organization membership: name the network''),
     (\<not> rego_allow i \<and> is_service i \<and> pi_action i = ''read'' \<and>
        \<not> has_any_scope i [''grid.read'', ''grid.admin''], ''service missing grid.read scope'')]"

text \<open>\<open>data.celine.grid.access.reason\<close>: the value of the rules that fire, the default when none does.\<close>

definition rego_reason :: "policy_input \<Rightarrow> string res" where
  "rego_reason i =
     (case remdups (map snd (filter fst (rego_reasons i))) of
        [] \<Rightarrow> Ok ''access denied''
      | [r] \<Rightarrow> Ok r
      | _ \<Rightarrow> Raise (OtherError ''eval_conflict_error''))"

definition rego_decision :: "policy_input \<Rightarrow> (bool \<times> string) res" where
  "rego_decision i = bindR (rego_reason i) (\<lambda>r. Ok (rego_allow i, r))"

section \<open>GridAccessPolicy\<close>

record decision =
  d_allowed :: bool
  d_reason :: "string option"

text \<open>
  The bundle directory and the import of the SDK decide whether there is an engine; a bundle
  that does not load raises at import, except that an \<open>ImportError\<close> of \<open>load()\<close> is caught after
  the engine was assigned and leaves it in place.
\<close>

datatype 'a load_outcome = Loaded 'a | LoadImportError 'a | NoDirectory | NoSdk

definition init_engine :: "'a load_outcome \<Rightarrow> 'a option" where
  "init_engine l = (case l of Loaded e \<Rightarrow> Some e | LoadImportError e \<Rightarrow> Some e
     | NoDirectory \<Rightarrow> None | NoSdk \<Rightarrow> None)"

definition policy_loaded :: "'a option \<Rightarrow> bool" where
  "policy_loaded engine = (engine \<noteq> None)"

definition evaluate_policy ::
  "(policy_input \<Rightarrow> (bool \<times> string) res) option \<Rightarrow> bool \<Rightarrow> (pydict \<Rightarrow> string \<Rightarrow> string list res) \<Rightarrow>
   jwt_user \<Rightarrow> string \<Rightarrow> string option \<Rightarrow> decision" where
  "evaluate_policy engine is_dev organization_groups user action attr_network_id =
     (case engine of
        None \<Rightarrow> \<lparr>d_allowed = is_dev, d_reason = Some ''no-policy-engine''\<rparr>
      | Some evaluate_decision \<Rightarrow>
          (case bindR (make_policy_input organization_groups user action attr_network_id) evaluate_decision of
             Inr (allowed, reason) \<Rightarrow>
               \<lparr>d_allowed = allowed, d_reason = (if reason = [] then None else Some reason)\<rparr>
           | Inl e \<Rightarrow>
               if is_dev then \<lparr>d_allowed = True, d_reason = Some ''policy-error-permissive''\<rparr>
               else \<lparr>d_allowed = False, d_reason = Some ''policy-error''\<rparr>))"

definition allow_network_read where
  "allow_network_read engine is_dev organization_groups user network_id =
     evaluate_policy engine is_dev organization_groups user ''read'' (Some network_id)"

definition allow_alerts_read where
  "allow_alerts_read engine is_dev organization_groups user =
     evaluate_policy engine is_dev organization_groups user ''alerts.read'' None"

definition allow_alerts_write where
  "allow_alerts_write engine is_dev organization_groups user =
     evaluate_policy engine is_dev organization_groups user ''alerts.write'' None"

section \<open>Who is judged how\<close>

definition judged_service :: "jwt_user \<Rightarrow> bool" where
  "judged_service user \<longleftrightarrow> ju_organizations user = [] \<and> ju_is_service_account user"

definition carries_scope :: "jwt_user \<Rightarrow> string \<Rightarrow> bool" where
  "carries_scope user s \<longleftrightarrow> (\<exists>scopes. token_scopes (ju_claims user) = Inr scopes \<and> VStr s \<in> set scopes)"

lemma policy_input_fields:
  assumes "make_policy_input og user action attr = Inr i"
  shows "pi_type i = (if judged_service user then Service else User)"
    and "pi_action i = action" "pi_attr_network_id i = attr"
    and "pi_dso_count i = length (dso_networks user)"
    and "pi_network_id i = (if judged_service user then None else dso_network user attr)"
    and "VStr s \<in> set (pi_scopes i) \<longleftrightarrow> carries_scope user s"
  using assms
  by (auto simp: make_policy_input_def judged_service_def carries_scope_def Let_def bindR_Ok_iff split: if_splits)

lemma dso_network_named: "dso_network user (Some n) = Some n \<longleftrightarrow> n \<in> set (dso_networks user)"
  by (cases "dso_networks user") (auto simp: dso_network_def Let_def)

lemma dso_network_None: "dso_network user None \<noteq> None \<longleftrightarrow> length (dso_networks user) = 1"
  by (simp add: dso_network_def Let_def)

section \<open>What the service relies on of an engine\<close>

locale decision_engine =
  fixes evaluate :: "policy_input \<Rightarrow> (bool \<times> string) res"
  assumes answers: "\<exists>allowed reason. evaluate i = Inr (allowed, reason)"
    and user_read: "pi_type i = User \<Longrightarrow> pi_action i = ''read'' \<Longrightarrow> evaluate i = Inr (allowed, reason) \<Longrightarrow>
      allowed \<longleftrightarrow> pi_network_id i \<noteq> None \<and> pi_attr_network_id i = pi_network_id i"
    and user_alerts: "pi_type i = User \<Longrightarrow> evaluate i = Inr (allowed, reason) \<Longrightarrow>
      (pi_action i = ''alerts.read'' \<longrightarrow> allowed) \<and>
      (pi_action i = ''alerts.write'' \<longrightarrow> allowed = (pi_network_id i \<noteq> None))"
    and service: "pi_type i = Service \<Longrightarrow> evaluate i = Inr (allowed, reason) \<Longrightarrow>
      allowed \<longleftrightarrow> VStr ''grid.admin'' \<in> set (pi_scopes i) \<or>
        pi_action i = ''read'' \<and> VStr ''grid.read'' \<in> set (pi_scopes i)"
    and unknown_action: "pi_type i = User \<Longrightarrow> pi_action i \<notin> {''read'', ''alerts.read'', ''alerts.write''} \<Longrightarrow>
      evaluate i = Inr (allowed, reason) \<Longrightarrow> \<not> allowed"
    and reason_given: "evaluate i = Inr (allowed, reason) \<Longrightarrow> reason \<noteq> []"
begin

lemma decided:
  assumes "make_policy_input og user action attr = Inr i"
  obtains allowed reason where "evaluate i = Inr (allowed, reason)" "reason \<noteq> []"
    "evaluate_policy (Some evaluate) dev og user action attr = \<lparr>d_allowed = allowed, d_reason = Some reason\<rparr>"
proof -
  obtain a r where e: "evaluate i = Inr (a, r)" using answers by blast
  with reason_given have "r \<noteq> []" by blast
  with e assms show thesis by (intro that) (simp_all add: evaluate_policy_def)
qed

lemma network_read_iff:
  assumes "make_policy_input og user ''read'' (Some n) = Inr i"
  shows "d_allowed (allow_network_read (Some evaluate) dev og user n) \<longleftrightarrow>
    (if judged_service user then carries_scope user ''grid.read'' \<or> carries_scope user ''grid.admin''
     else n \<in> set (dso_networks user))"
proof -
  note f = policy_input_fields [OF assms]
  obtain a r where e: "evaluate i = Inr (a, r)"
    and d: "evaluate_policy (Some evaluate) dev og user ''read'' (Some n) = \<lparr>d_allowed = a, d_reason = Some r\<rparr>"
    by (rule decided [OF assms])
  show ?thesis
  proof (cases "judged_service user")
    case True
    then show ?thesis using service [OF _ e] f d by (auto simp: allow_network_read_def)
  next
    case False
    then have "a \<longleftrightarrow> dso_network user (Some n) = Some n"
      using user_read [OF _ _ e] f by auto
    with False d show ?thesis by (simp add: allow_network_read_def dso_network_named)
  qed
qed

lemma alerts_read_iff:
  assumes "make_policy_input og user ''alerts.read'' None = Inr i"
  shows "d_allowed (allow_alerts_read (Some evaluate) dev og user) \<longleftrightarrow>
    \<not> judged_service user \<or> carries_scope user ''grid.admin''"
proof -
  note f = policy_input_fields [OF assms]
  obtain a r where e: "evaluate i = Inr (a, r)"
    and d: "evaluate_policy (Some evaluate) dev og user ''alerts.read'' None = \<lparr>d_allowed = a, d_reason = Some r\<rparr>"
    by (rule decided [OF assms])
  then show ?thesis using service [OF _ e] user_alerts [OF _ e] f
    by (cases "judged_service user") (auto simp: allow_alerts_read_def)
qed

lemma alerts_write_iff:
  assumes "make_policy_input og user ''alerts.write'' None = Inr i"
  shows "d_allowed (allow_alerts_write (Some evaluate) dev og user) \<longleftrightarrow>
    (if judged_service user then carries_scope user ''grid.admin'' else length (dso_networks user) = 1)"
proof -
  note f = policy_input_fields [OF assms]
  obtain a r where e: "evaluate i = Inr (a, r)"
    and d: "evaluate_policy (Some evaluate) dev og user ''alerts.write'' None = \<lparr>d_allowed = a, d_reason = Some r\<rparr>"
    by (rule decided [OF assms])
  then show ?thesis using service [OF _ e] user_alerts [OF _ e] f dso_network_None [of user]
    by (cases "judged_service user") (auto simp: allow_alerts_write_def)
qed

end

section \<open>The Rego package is such an engine\<close>

lemmas rego_defs = rego_allow_def is_service_def has_scope_def has_any_scope_def owns_network_def

text \<open>The reason rules that fire agree, so the complete rule never conflicts.\<close>

lemma rego_reason_Ok: "\<exists>r. rego_reason i = Inr r \<and> r \<noteq> [] \<and>
    (r \<in> {''user accessing own network data'', ''user managing own alert rules'', ''service access granted''} \<longleftrightarrow>
       rego_allow i)"
proof (cases "is_service i")
  case True
  then show ?thesis
    by (cases "rego_allow i"; cases "pi_action i = ''read''"; cases "has_any_scope i [''grid.read'', ''grid.admin'']")
      (auto simp: rego_reason_def rego_reasons_def)
next
  case False
  then show ?thesis
    by (cases "pi_action i = ''read''"; cases "pi_action i = ''alerts.write''"; cases "pi_action i = ''alerts.read''";
        cases "owns_network i"; cases "pi_network_id i"; cases "pi_dso_count i < 2")
      (auto simp: rego_reason_def rego_reasons_def rego_allow_def not_less)
qed

interpretation rego: decision_engine rego_decision
proof (standard, goal_cases)
  case (1 i)
  then show ?case using rego_reason_Ok [of i] by (auto simp: rego_decision_def)
next
  case (6 i allowed reason)
  then show ?case using rego_reason_Ok [of i] by (auto simp: rego_decision_def bindR_Ok_iff)
qed (auto simp: rego_decision_def bindR_Ok_iff rego_defs)

section \<open>Properties\<close>

definition sample_org :: "string \<Rightarrow> organization" where
  "sample_org a = \<lparr>org_alias = a, org_type = Some ''dso'', org_has_attribute = (\<lambda>_ _. False)\<rparr>"

definition sample_user :: "string list \<Rightarrow> pydict \<Rightarrow> bool \<Rightarrow> jwt_user" where
  "sample_user orgs claims service = \<lparr>ju_sub = ''op'', ju_email = None, ju_name = None,
     ju_preferred_username = None, ju_claims = claims, ju_organizations = map sample_org orgs,
     ju_is_service_account = service\<rparr>"

definition no_groups :: "pydict \<Rightarrow> string \<Rightarrow> string list res" where
  "no_groups claims a = Ok []"

lemma sample_networks: "dso_networks (sample_user orgs claims service) = sort orgs"
  by (simp add: dso_networks_def sample_user_def sample_org_def DSO_TYPE_def comp_def)

lemma sample_input:
  "\<exists>i. make_policy_input no_groups (sample_user orgs [] service) action attr = Inr i"
  by (simp add: make_policy_input_def sample_user_def no_groups_def token_scopes_def dict_simps py_or_def Let_def)

text \<open>
  With the Rego package as engine, reading a network is granted to a caller judged a user
  exactly when the network is one of their DSO organisations, and to a service account
  exactly when it carries \<open>grid.read\<close> or \<open>grid.admin\<close>; a caller with any organisation is
  never judged a service, and no scope widens what a user may read.
\<close>

theorem network_read_decision:
  assumes "make_policy_input og user ''read'' (Some n) = Inr i"
  shows "d_allowed (allow_network_read (Some rego_decision) dev og user n) \<longleftrightarrow>
    (if ju_organizations user = [] \<and> ju_is_service_account user
     then carries_scope user ''grid.read'' \<or> carries_scope user ''grid.admin''
     else n \<in> set (dso_networks user))"
  using rego.network_read_iff [OF assms] by (simp add: judged_service_def)

theorem network_read_decision_witness:
  "d_allowed (allow_network_read (Some rego_decision) False no_groups (sample_user [''net'', ''other''] [] True) ''net'') \<and>
   \<not> d_allowed (allow_network_read (Some rego_decision) False no_groups (sample_user [''net''] [] True) ''other'')"
proof -
  obtain i j where "make_policy_input no_groups (sample_user [''net'', ''other''] [] True) ''read'' (Some ''net'') = Inr i"
    and "make_policy_input no_groups (sample_user [''net''] [] True) ''read'' (Some ''other'') = Inr j"
    using sample_input by blast
  from network_read_decision [OF this(1)] network_read_decision [OF this(2)] show ?thesis
    by (simp add: sample_networks) (simp add: sample_user_def)
qed

text \<open>
  Alert rules may be read by every caller who is not a service account, with no scope and
  no organisation; they may be written by a caller with exactly one DSO organisation, never
  by one with several; a service account needs \<open>grid.admin\<close> for either.
\<close>

theorem alerts_decisions:
  assumes "make_policy_input og user ''alerts.read'' None = Inr i"
    and "make_policy_input og user ''alerts.write'' None = Inr j"
  shows "(d_allowed (allow_alerts_read (Some rego_decision) dev og user) \<longleftrightarrow>
      \<not> judged_service user \<or> carries_scope user ''grid.admin'') \<and>
    (d_allowed (allow_alerts_write (Some rego_decision) dev og user) \<longleftrightarrow>
      (if judged_service user then carries_scope user ''grid.admin'' else length (dso_networks user) = 1))"
  using rego.alerts_read_iff [OF assms(1)] rego.alerts_write_iff [OF assms(2)] by simp

theorem alerts_decisions_witness:
  "d_allowed (allow_alerts_read (Some rego_decision) False no_groups (sample_user [] [] False)) \<and>
   \<not> d_allowed (allow_alerts_write (Some rego_decision) False no_groups (sample_user [] [] False))"
proof -
  obtain i j where "make_policy_input no_groups (sample_user [] [] False) ''alerts.read'' None = Inr i"
    and "make_policy_input no_groups (sample_user [] [] False) ''alerts.write'' None = Inr j"
    using sample_input by blast
  from alerts_decisions [OF this] show ?thesis
    by (simp add: sample_networks judged_service_def) (simp add: sample_user_def)
qed

text \<open>
  The \<open>reason\<close> rules of the package never conflict: every input gets one decision with one
  reason, and the reason is one of the three grants exactly when the decision allows.
\<close>

theorem rego_never_conflicts:
  "\<exists>reason. rego_decision i = Inr (rego_allow i, reason) \<and> reason \<noteq> [] \<and>
     (reason \<in> {''user accessing own network data'', ''user managing own alert rules'', ''service access granted''} \<longleftrightarrow>
        rego_allow i)"
  using rego_reason_Ok [of i] by (auto simp: rego_decision_def)

text \<open>
  C19: the wrapper fails closed: outside development it allows exactly what an engine that is
  loaded allows for the caller's own input, whatever the engine; an absent engine, an engine
  that raises and a token whose input cannot be built all give a denial with a reason, and an
  allow in development only.
\<close>

theorem policy_fails_closed:
  "(d_allowed (evaluate_policy engine False og user action attr) \<longleftrightarrow>
     (\<exists>evaluate i reason. engine = Some evaluate \<and> make_policy_input og user action attr = Inr i \<and>
        evaluate i = Inr (True, reason))) \<and>
   (engine = None \<or> (\<exists>evaluate e. engine = Some evaluate \<and>
        bindR (make_policy_input og user action attr) evaluate = Inl e) \<longrightarrow>
     d_allowed (evaluate_policy engine dev og user action attr) = dev \<and>
     d_reason (evaluate_policy engine dev og user action attr) \<noteq> None)"
proof
  show "d_allowed (evaluate_policy engine False og user action attr) \<longleftrightarrow>
     (\<exists>evaluate i reason. engine = Some evaluate \<and> make_policy_input og user action attr = Inr i \<and>
        evaluate i = Inr (True, reason))"
    by (auto simp: evaluate_policy_def bindR_Ok_iff split: option.splits sum.splits prod.splits)
qed (auto simp: evaluate_policy_def)

theorem policy_fails_closed_witness:
  "\<not> d_allowed (evaluate_policy (Some rego_decision) False no_groups
      (sample_user [''net''] [(''scope'', VInt 7)] False) ''read'' (Some ''net''))"
proof -
  have "bindR (make_policy_input no_groups (sample_user [''net''] [(''scope'', VInt 7)] False) ''read'' (Some ''net''))
      rego_decision = Inl TypeError"
    by (simp add: make_policy_input_def sample_user_def token_scopes_def dict_simps py_or_def)
  then show ?thesis
    using policy_fails_closed [of "Some rego_decision" no_groups
        "sample_user [''net''] [(''scope'', VInt 7)] False" "''read''" "Some ''net''" False] by blast
qed

text \<open>
  The groups in the policy input are those of one organisation only, the network the
  request names or else the caller's one DSO organisation, and a service account has none.
\<close>

theorem groups_of_one_organisation:
  assumes "make_policy_input og user action attr = Inr i" "pi_groups i \<noteq> []"
  shows "\<not> judged_service user \<and> (\<exists>c. og (ju_claims user) c = Inr (pi_groups i) \<and>
    (attr = Some c \<or> (attr = None \<or> attr = Some []) \<and> dso_networks user = [c]))"
proof -
  have one: "dso_network user r = Some c \<Longrightarrow> r = Some c \<or> dso_networks user = [c]" for r c
    by (cases "dso_networks user") (auto simp: dso_network_def Let_def split: if_splits)
  show ?thesis
    using assms one
    by (fastforce simp: make_policy_input_def judged_service_def Let_def bindR_Ok_iff split: if_splits)
qed

theorem groups_of_one_organisation_witness:
  "\<exists>i. make_policy_input (\<lambda>_ c. Ok [c @ ''/admins'']) (sample_user [''net''] [] False) ''read'' (Some ''other'') = Inr i \<and>
     pi_groups i = [''other/admins''] \<and> \<not> judged_service (sample_user [''net''] [] False)"
proof -
  obtain i where i: "make_policy_input (\<lambda>_ c. Ok [c @ ''/admins'']) (sample_user [''net''] [] False) ''read'' (Some ''other'') = Inr i"
    and g: "pi_groups i = [''other/admins'']"
    by (simp add: make_policy_input_def sample_user_def token_scopes_def dict_simps py_or_def Let_def)
  with groups_of_one_organisation [OF i] show ?thesis by simp
qed

end
