(* ===== verification/Identity.thy ===== *)
theory Identity
  imports Policy Settings
begin

text \<open>
  \<open>src/celine/grid/api/deps.py\<close> and \<open>src/celine/grid/security/middleware.py\<close>: the token gate in
  front of every route, the token reader behind it, the verified caller, and the policy-checked
  dependencies of the routes. Verifying a token (\<open>JwtUser.from_token\<close>) is a parameter; the
  name of the proxy header is a setting.
\<close>

section \<open>The token\<close>

definition bearer_auth :: "request \<Rightarrow> string" where
  "bearer_auth r = (case header_get r ''authorization'' of None \<Rightarrow> [] | Some a \<Rightarrow> a)"

definition has_token :: "string \<Rightarrow> request \<Rightarrow> bool" where
  "has_token jwt_header_name r =
     ((case header_get r jwt_header_name of None \<Rightarrow> False | Some t \<Rightarrow> t \<noteq> []) \<or>
      py_startswith (py_lower (bearer_auth r)) ''bearer '')"

definition extract_token :: "string \<Rightarrow> request \<Rightarrow> string option" where
  "extract_token jwt_header_name r =
     (let token = header_get r jwt_header_name in
      if token \<noteq> None \<and> token \<noteq> Some [] then token
      else if py_startswith (py_lower (bearer_auth r)) ''bearer ''
           then Some (py_strip (drop 7 (bearer_auth r)))
           else None)"

section \<open>The middleware\<close>

definition public_paths :: "string set" where
  "public_paths = {''/health'', ''/api/docs'', ''/api/redoc'', ''/api/openapi.json''}"

text \<open>An application answers a request and changes the world; a middleware wraps one.\<close>

type_synonym 'w asgi = "request \<Rightarrow> 'w \<Rightarrow> response \<times> 'w"

definition missing_token :: response where
  "missing_token = respond 401 (VDict [(''detail'', VStr ''Missing authentication token'')])"

definition policy_middleware :: "string \<Rightarrow> 'w asgi \<Rightarrow> 'w asgi" where
  "policy_middleware jwt_header_name call_next r w =
     (if rq_path r \<in> public_paths then call_next r w
      else if \<not> has_token jwt_header_name r then (missing_token, w)
           else call_next r w)"

section \<open>The caller\<close>

datatype token_error = ExpiredSignature | InvalidToken string | OtherTokenError string

fun token_error_detail :: "token_error \<Rightarrow> string" where
  "token_error_detail ExpiredSignature = ''Token has expired''"
| "token_error_detail (InvalidToken m) = ''Invalid token: '' @ m"
| "token_error_detail (OtherTokenError m) = ''Authentication failed: '' @ m"

definition get_user_from_request ::
  "string \<Rightarrow> (string \<Rightarrow> token_error + jwt_user) \<Rightarrow> request \<Rightarrow> failure + jwt_user" where
  "get_user_from_request jwt_header_name from_token r =
     (let token = extract_token jwt_header_name r in
      if token = None \<or> token = Some [] then Inl (HttpError 401 ''Missing authentication token'')
      else case from_token (the token) of
        Inr user \<Rightarrow> Inr user
      | Inl e \<Rightarrow> Inl (HttpError 401 (token_error_detail e)))"

text \<open>\<open>_make_oidc_provider\<close>; the listener has a copy of its own.\<close>

definition deps_oidc_provider :: "settings \<Rightarrow> string option \<Rightarrow> oidc_provider" where
  "deps_oidc_provider cfg scope =
     \<lparr>op_base_url = oi_base_url (st_oidc cfg), op_client_id = or_empty (oi_client_id (st_oidc cfg)),
      op_client_secret = or_empty (oi_client_secret (st_oidc cfg)), op_scope = scope\<rparr>"

text \<open>The Digital Twin client, of its base URL and its token provider, exists when the URL is set.\<close>

type_synonym dt_handle = "string \<times> oidc_provider"

definition get_dt_client :: "settings \<Rightarrow> failure + dt_handle" where
  "get_dt_client st =
     (case st_digital_twin_api_url st of
        None \<Rightarrow> Inl (HttpError 503 ''Digital Twin API not configured'')
      | Some url \<Rightarrow>
          if url = [] then Inl (HttpError 503 ''Digital Twin API not configured'')
          else Inr (url, deps_oidc_provider st (st_dt_client_scope st)))"

definition get_client_ip :: "request \<Rightarrow> string" where
  "get_client_ip r =
     (let forwarded = header_get r ''X-Forwarded-For''; real_ip = header_get r ''X-Real-IP'' in
      if forwarded \<noteq> None \<and> forwarded \<noteq> Some [] then py_strip (hd (py_split_char CHR '','' (the forwarded)))
      else if real_ip \<noteq> None \<and> real_ip \<noteq> Some [] then the real_ip
      else case rq_client r of Some host \<Rightarrow> host | None \<Rightarrow> ''unknown'')"

definition resolve_dso_network :: "jwt_user \<Rightarrow> failure + string" where
  "resolve_dso_network user =
     (let networks = dso_networks user in
      if 1 < length networks
      then Inl (HttpError 403 ''Member of several DSO organisations: the request must name the network'')
      else if networks = [] then Inl (HttpError 403 ''DSO organisation membership required'')
      else Inr (hd networks))"

section \<open>Policy-enforced dependencies\<close>

text \<open>The process-wide configuration that the dependencies read.\<close>

record auth_env =
  a_header :: string
  a_from_token :: "string \<Rightarrow> token_error + jwt_user"
  a_engine :: "(policy_input \<Rightarrow> (bool \<times> string) res) option"
  a_is_dev :: bool
  a_groups :: "pydict \<Rightarrow> string \<Rightarrow> string list res"

definition enforce :: "decision \<Rightarrow> jwt_user \<Rightarrow> failure + jwt_user" where
  "enforce d user =
     (if d_allowed d then Inr user
      else Inl (HttpError 403 (case d_reason d of Some r \<Rightarrow> if r \<noteq> [] then r else ''access denied''
                                | None \<Rightarrow> ''access denied'')))"

definition require_user :: "auth_env \<Rightarrow> request \<Rightarrow> failure + jwt_user" where
  "require_user a r = get_user_from_request (a_header a) (a_from_token a) r"

definition require_network_read :: "auth_env \<Rightarrow> request \<Rightarrow> string \<Rightarrow> failure + jwt_user" where
  "require_network_read a r network_id =
     bindR (require_user a r) (\<lambda>user.
       enforce (allow_network_read (a_engine a) (a_is_dev a) (a_groups a) user network_id) user)"

definition require_alerts_read :: "auth_env \<Rightarrow> request \<Rightarrow> failure + jwt_user" where
  "require_alerts_read a r =
     bindR (require_user a r) (\<lambda>user.
       enforce (allow_alerts_read (a_engine a) (a_is_dev a) (a_groups a) user) user)"

definition require_alerts_write :: "auth_env \<Rightarrow> request \<Rightarrow> failure + jwt_user" where
  "require_alerts_write a r =
     bindR (require_user a r) (\<lambda>user.
       enforce (allow_alerts_write (a_engine a) (a_is_dev a) (a_groups a) user) user)"

section \<open>Lemmas\<close>

lemma get_user_Inr:
  "get_user_from_request h ft r = Inr u \<longleftrightarrow>
     (\<exists>t. extract_token h r = Some t \<and> t \<noteq> [] \<and> ft t = Inr u)"
  by (auto simp: get_user_from_request_def Let_def split: sum.splits)

lemma get_user_Inl:
  "get_user_from_request h ft r = Inl f \<Longrightarrow> \<exists>d. f = HttpError 401 d"
  by (auto simp: get_user_from_request_def Let_def split: if_splits sum.splits)

lemma enforce_Inr: "enforce d user = Inr u \<longleftrightarrow> d_allowed d \<and> u = user"
  by (auto simp: enforce_def)

lemma enforce_Inl: "enforce d user = Inl f \<Longrightarrow> \<not> d_allowed d \<and> (\<exists>t. f = HttpError 403 t)"
  by (auto simp: enforce_def split: if_splits)

lemma has_token_iff: "has_token h r \<longleftrightarrow> extract_token h r \<noteq> None"
  by (auto simp: has_token_def extract_token_def Let_def split: option.splits)

text \<open>A dependency that passes has verified a token; one that fails answers 401 or 403.\<close>

lemma require_Inl:
  "require_network_read a r n = Inl f \<Longrightarrow> failure_status f \<in> {401, 403}"
  "require_alerts_read a r = Inl f \<Longrightarrow> failure_status f \<in> {401, 403}"
  "require_alerts_write a r = Inl f \<Longrightarrow> failure_status f \<in> {401, 403}"
  by (auto simp: require_network_read_def require_alerts_read_def require_alerts_write_def require_user_def
      bindR_Raise_iff dest!: get_user_Inl enforce_Inl)


section \<open>The gate and the reader\<close>

text \<open>
  A gate in front of a reader of credentials: the gate admits exactly the requests from which
  the reader takes something, so a client of the reader is not disturbed by it.
\<close>

locale credential_gate =
  fixes admits :: "'r \<Rightarrow> bool"
    and reads :: "'r \<Rightarrow> 'c option"
  assumes mirror: "admits r \<longleftrightarrow> reads r \<noteq> None"
begin

lemma refused_unread: "\<not> admits r \<Longrightarrow> reads r = None"
  by (simp add: mirror)

lemma transparent:
  assumes "\<And>r. reads r = None \<Longrightarrow> client r = refusal"
  shows "(if admits r then client r else refusal) = client r"
  using assms [of r] by (simp add: mirror)

end

interpretation token: credential_gate "has_token h" "extract_token h" for h
  by unfold_locales (rule has_token_iff)

text \<open>A route: its failure or its response, as the framework sends it.\<close>

fun answer :: "failure + response \<Rightarrow> response" where
  "answer (Inl f) = failure_response f"
| "answer (Inr x) = x"

lemma require_user_no_token:
  "extract_token (a_header a) r = None \<Longrightarrow> require_user a r = Inl (HttpError 401 ''Missing authentication token'')"
  by (simp add: require_user_def get_user_from_request_def)

lemma require_user_Inr:
  "require_user a r = Inr u \<longleftrightarrow> (\<exists>t. extract_token (a_header a) r = Some t \<and> t \<noteq> [] \<and> a_from_token a t = Inr u)"
  by (simp add: require_user_def get_user_Inr)

text \<open>Outside development an allowed decision is the engine's own.\<close>

lemma allowed_input:
  assumes "d_allowed (evaluate_policy (Some evaluate) False og user action attr)"
  obtains i where "make_policy_input og user action attr = Inr i"
  using assms by (cases "make_policy_input og user action attr") (auto simp: evaluate_policy_def)

text \<open>Whom the guards let pass outside development, with the Rego package as engine.\<close>

lemma network_read_cases:
  assumes "require_network_read a r n = Inr user" "a_engine a = Some rego_decision" "\<not> a_is_dev a"
  shows "(\<exists>t. extract_token (a_header a) r = Some t \<and> t \<noteq> [] \<and> a_from_token a t = Inr user) \<and>
    (if judged_service user then carries_scope user ''grid.read'' \<or> carries_scope user ''grid.admin''
     else n \<in> set (dso_networks user))"
proof -
  from assms(1) have u: "require_user a r = Inr user"
    and d: "d_allowed (allow_network_read (Some rego_decision) False (a_groups a) user n)"
    using assms(2,3) by (auto simp: require_network_read_def bindR_Ok_iff enforce_Inr)
  from d obtain i where "make_policy_input (a_groups a) user ''read'' (Some n) = Inr i"
    unfolding allow_network_read_def by (rule allowed_input)
  with rego.network_read_iff [OF this] d u show ?thesis by (simp add: require_user_Inr)
qed

lemma write_guard_cases:
  assumes "require_alerts_write a r = Inr user" "a_engine a = Some rego_decision" "\<not> a_is_dev a"
  shows "(\<exists>n. dso_networks user = [n] \<and> resolve_dso_network user = Inr n) \<or>
    judged_service user \<and> carries_scope user ''grid.admin'' \<and>
      resolve_dso_network user = Inl (HttpError 403 ''DSO organisation membership required'')"
proof -
  from assms have d: "d_allowed (allow_alerts_write (Some rego_decision) False (a_groups a) user)"
    by (auto simp: require_alerts_write_def bindR_Ok_iff enforce_Inr)
  from d obtain i where "make_policy_input (a_groups a) user ''alerts.write'' None = Inr i"
    unfolding allow_alerts_write_def by (rule allowed_input)
  from rego.alerts_write_iff [OF this] d
  have w: "if judged_service user then carries_scope user ''grid.admin'' else length (dso_networks user) = 1" by simp
  show ?thesis
  proof (cases "judged_service user")
    case True
    then have "dso_networks user = []" by (simp add: judged_service_def dso_networks_def)
    with True w show ?thesis by (simp add: resolve_dso_network_def)
  next
    case False
    with w obtain n where "dso_networks user = [n]" by (auto simp: length_Suc_conv)
    then show ?thesis by (simp add: resolve_dso_network_def)
  qed
qed

section \<open>Properties\<close>

definition sample_auth :: "auth_env" where
  "sample_auth = \<lparr>a_header = ''x-auth-request-access-token'',
     a_from_token = (\<lambda>t. if t = ''tok'' then Inr (sample_user [''net''] [] False) else Inl ExpiredSignature),
     a_engine = Some rego_decision, a_is_dev = False, a_groups = no_groups\<rparr>"

definition sample_request :: request where
  "sample_request = \<lparr>rq_method = ''POST'', rq_path = ''/api/alert-rules'',
     rq_headers = [(''X-Auth-Request-Access-Token'', ''tok'')], rq_client = None\<rparr>"

lemma sample_token: "extract_token ''x-auth-request-access-token'' sample_request = Some ''tok''"
proof -
  have "py_lower ''X-Auth-Request-Access-Token'' = ''x-auth-request-access-token''"
    "py_lower ''x-auth-request-access-token'' = ''x-auth-request-access-token''" by code_simp+
  then show ?thesis by (simp add: extract_token_def sample_request_def header_get_def)
qed

lemma sample_caller: "require_user sample_auth sample_request = Inr (sample_user [''net''] [] False)"
  by (simp add: require_user_Inr sample_auth_def sample_token)

text \<open>A route that starts by reading its caller, with whatever effects it has.\<close>

definition with_caller :: "auth_env \<Rightarrow> (jwt_user \<Rightarrow> 'w asgi) \<Rightarrow> 'w asgi" where
  "with_caller a route r w =
     (case require_user a r of Inl f \<Rightarrow> (failure_response f, w) | Inr user \<Rightarrow> route user r w)"

lemma with_caller_no_token:
  "extract_token (a_header a) r = None \<Longrightarrow> with_caller a route r w = (missing_token, w)"
  by (simp add: with_caller_def require_user_no_token missing_token_def)

text \<open>
  C20: the gate before the routes and the token reader behind it agree on every request: a
  route that starts by reading the caller answers the same, body included, and has the same
  effects, with the gate in front of it and without.
\<close>

theorem gate_is_transparent:
  "policy_middleware (a_header a) (with_caller a route) rq w = with_caller a route rq w"
proof -
  have "(if has_token (a_header a) rq then with_caller a route rq w else (missing_token, w)) =
      with_caller a route rq w"
    by (rule token.transparent) (rule with_caller_no_token)
  then show ?thesis by (auto simp: policy_middleware_def)
qed

lemma gate_refuses:
  "rq_path r \<notin> public_paths \<Longrightarrow> extract_token h r = None \<Longrightarrow> policy_middleware h routes r w = (missing_token, w)"
  by (simp add: policy_middleware_def has_token_iff)

lemma gate_passes:
  "rq_path r \<in> public_paths \<or> extract_token h r \<noteq> None \<Longrightarrow> policy_middleware h routes r w = routes r w"
  by (auto simp: policy_middleware_def has_token_iff)

text \<open>
  Outside development, with the Rego package loaded, a request that passes the guard of
  the data routes carries a token that was verified, and its caller is either an operator
  of that very network or a service account with \<open>grid.read\<close> or \<open>grid.admin\<close>.
\<close>

theorem network_read_guard:
  assumes "require_network_read a r n = Inr user" "a_engine a = Some rego_decision" "\<not> a_is_dev a"
  shows "(\<exists>t. extract_token (a_header a) r = Some t \<and> t \<noteq> [] \<and> a_from_token a t = Inr user) \<and>
    (if judged_service user then carries_scope user ''grid.read'' \<or> carries_scope user ''grid.admin''
     else n \<in> set (dso_networks user))"
  by (rule network_read_cases [OF assms])

lemma sample_read: "require_network_read sample_auth sample_request ''net'' = Inr (sample_user [''net''] [] False)"
proof -
  obtain i where "make_policy_input no_groups (sample_user [''net''] [] False) ''read'' (Some ''net'') = Inr i"
    using sample_input by blast
  from rego.network_read_iff [OF this, of False]
  have "d_allowed (allow_network_read (Some rego_decision) False no_groups (sample_user [''net''] [] False) ''net'')"
    by (simp add: sample_networks judged_service_def) (simp add: sample_user_def)
  then show ?thesis
    by (simp add: require_network_read_def sample_caller enforce_Inr) (simp add: sample_auth_def)
qed

theorem network_read_guard_witness:
  "require_network_read sample_auth sample_request ''net'' = Inr (sample_user [''net''] [] False) \<and>
   ''net'' \<in> set (dso_networks (sample_user [''net''] [] False))"
proof -
  have "\<not> judged_service (sample_user [''net''] [] False)" by (simp add: judged_service_def sample_user_def)
  then show ?thesis using network_read_guard [OF sample_read] sample_read by (simp add: sample_auth_def)
qed

text \<open>
  The write guard and the network resolver agree: outside development a caller the guard
  lets pass either has exactly one DSO network, which the resolver returns, or is a service
  account with \<open>grid.admin\<close>, whom the resolver refuses with a 403; a caller of several networks
  is never given the first one.
\<close>

theorem write_guard_resolves:
  assumes "require_alerts_write a r = Inr user" "a_engine a = Some rego_decision" "\<not> a_is_dev a"
  shows "(\<exists>n. dso_networks user = [n] \<and> resolve_dso_network user = Inr n) \<or>
    judged_service user \<and> carries_scope user ''grid.admin'' \<and>
      resolve_dso_network user = Inl (HttpError 403 ''DSO organisation membership required'')"
  by (rule write_guard_cases [OF assms])

lemma sample_write: "require_alerts_write sample_auth sample_request = Inr (sample_user [''net''] [] False)"
proof -
  obtain i where "make_policy_input no_groups (sample_user [''net''] [] False) ''alerts.write'' None = Inr i"
    using sample_input by blast
  from rego.alerts_write_iff [OF this, of False]
  have "d_allowed (allow_alerts_write (Some rego_decision) False no_groups (sample_user [''net''] [] False))"
    by (simp add: sample_networks judged_service_def) (simp add: sample_user_def)
  then show ?thesis
    by (simp add: require_alerts_write_def sample_caller enforce_Inr) (simp add: sample_auth_def)
qed

theorem write_guard_resolves_witness:
  "resolve_dso_network (sample_user [''net''] [] False) = Inr ''net''"
proof -
  have "dso_networks (sample_user [''net''] [] False) = [''net'']"
    "\<not> judged_service (sample_user [''net''] [] False)"
    by (simp_all add: sample_networks) (simp add: judged_service_def sample_user_def)
  then show ?thesis using write_guard_resolves [OF sample_write] by (simp add: sample_auth_def)
qed

end
