(* ===== verification/Tables.thy ===== *)
theory Tables
  imports Prelude
begin

text \<open>
  Keyed tables. A table is the list of its rows in insertion order; a commit inserts,
  replaces or deletes one row and enforces the declared constraints: a check per row (NOT
  NULL, lengths) and one unique key. The locale states what the service relies on: a keyed
  look-up, what each operation does to it, and the table invariant. Its lemmas about
  sequences of edits are proved once; the model's two tables are instances of the generic
  operations below, which interpret the locale.
\<close>

section \<open>Operations\<close>

definition lookup_row :: "('r \<Rightarrow> 'k) \<Rightarrow> 'r list \<Rightarrow> 'k \<Rightarrow> 'r option" where
  "lookup_row key rows k = find (\<lambda>r. key r = k) rows"

definition insert_row ::
  "('r \<Rightarrow> 'k) \<Rightarrow> ('r \<Rightarrow> py_error option) \<Rightarrow> 'r \<Rightarrow> 'r list \<Rightarrow> 'r list res" where
  "insert_row key check r rows =
     (case check r of
        Some e \<Rightarrow> Raise e
      | None \<Rightarrow> if key r \<in> key ` set rows then Raise IntegrityError else Ok (rows @ [r]))"

definition replace_row ::
  "('r \<Rightarrow> 'k) \<Rightarrow> ('r \<Rightarrow> py_error option) \<Rightarrow> 'r \<Rightarrow> 'r list \<Rightarrow> 'r list res" where
  "replace_row key check r rows =
     (case check r of
        Some e \<Rightarrow> Raise e
      | None \<Rightarrow> Ok (map (\<lambda>x. if key x = key r then r else x) rows))"

definition delete_row :: "('r \<Rightarrow> 'k) \<Rightarrow> 'k \<Rightarrow> 'r list \<Rightarrow> 'r list" where
  "delete_row key k rows = filter (\<lambda>r. key r \<noteq> k) rows"

definition table_ok :: "('r \<Rightarrow> 'k) \<Rightarrow> ('r \<Rightarrow> py_error option) \<Rightarrow> 'r list \<Rightarrow> bool" where
  "table_ok key check rows \<longleftrightarrow> distinct (map key rows) \<and> (\<forall>r \<in> set rows. check r = None)"

section \<open>The interface\<close>

datatype ('r, 'k) edit = Insert 'r | Replace 'r | Delete 'k

locale keyed_table =
  fixes key :: "'r \<Rightarrow> 'k"
    and lookup :: "'t \<Rightarrow> 'k \<Rightarrow> 'r option"
    and insert :: "'r \<Rightarrow> 't \<Rightarrow> 't res"
    and replace :: "'r \<Rightarrow> 't \<Rightarrow> 't res"
    and delete :: "'k \<Rightarrow> 't \<Rightarrow> 't"
    and ok :: "'t \<Rightarrow> bool"
  assumes lookup_key: "lookup t k = Some r \<Longrightarrow> key r = k"
    and insert_fresh: "insert r t = Inr t' \<Longrightarrow> lookup t (key r) = None"
    and insert_lookup: "insert r t = Inr t' \<Longrightarrow> lookup t' k = (if k = key r then Some r else lookup t k)"
    and insert_ok: "ok t \<Longrightarrow> insert r t = Inr t' \<Longrightarrow> ok t'"
    and replace_lookup: "replace r t = Inr t' \<Longrightarrow>
      lookup t' k = (if k = key r \<and> lookup t k \<noteq> None then Some r else lookup t k)"
    and replace_ok: "ok t \<Longrightarrow> replace r t = Inr t' \<Longrightarrow> ok t'"
    and delete_lookup: "lookup (delete k t) k' = (if k' = k then None else lookup t k')"
    and delete_ok: "ok t \<Longrightarrow> ok (delete k t)"
begin

fun run_edit :: "('r, 'k) edit \<Rightarrow> 't \<Rightarrow> 't res" where
  "run_edit (Insert r) t = insert r t"
| "run_edit (Replace r) t = replace r t"
| "run_edit (Delete k) t = Inr (delete k t)"

fun edit_key :: "('r, 'k) edit \<Rightarrow> 'k" where
  "edit_key (Insert r) = key r"
| "edit_key (Replace r) = key r"
| "edit_key (Delete k) = k"

fun run_edits :: "('r, 'k) edit list \<Rightarrow> 't \<Rightarrow> 't res" where
  "run_edits [] t = Inr t"
| "run_edits (e # es) t = bindR (run_edit e t) (run_edits es)"

lemma edit_frame: "run_edit e t = Inr t' \<Longrightarrow> k \<noteq> edit_key e \<Longrightarrow> lookup t' k = lookup t k"
  by (cases e) (auto simp: insert_lookup replace_lookup delete_lookup)

lemma edit_ok: "ok t \<Longrightarrow> run_edit e t = Inr t' \<Longrightarrow> ok t'"
  by (cases e) (auto intro: insert_ok replace_ok delete_ok)

lemma edits_frame: "run_edits es t = Inr t' \<Longrightarrow> k \<notin> edit_key ` set es \<Longrightarrow> lookup t' k = lookup t k"
  by (induction es arbitrary: t) (auto simp: bindR_Ok_iff dest: edit_frame)

lemma edits_ok: "ok t \<Longrightarrow> run_edits es t = Inr t' \<Longrightarrow> ok t'"
  by (induction es arbitrary: t) (auto simp: bindR_Ok_iff dest: edit_ok)

text \<open>Inserting a row, changing it and deleting it leaves every look-up as it was.\<close>

lemma insert_delete_lookup: "insert r t = Inr t' \<Longrightarrow> lookup (delete (key r) t') k = lookup t k"
  by (auto simp: delete_lookup insert_lookup dest: insert_fresh)

end

section \<open>Lists of rows implement it\<close>

lemma lookup_row_Some: "lookup_row key rows k = Some r \<Longrightarrow> r \<in> set rows \<and> key r = k"
  by (auto simp: lookup_row_def find_Some_iff)

lemma lookup_row_None: "lookup_row key rows k = None \<longleftrightarrow> k \<notin> key ` set rows"
  by (auto simp: lookup_row_def find_None_iff)

lemma lookup_row_snoc:
  "lookup_row key (rows @ [r]) k =
     (case lookup_row key rows k of Some x \<Rightarrow> Some x | None \<Rightarrow> if key r = k then Some r else None)"
  by (induction rows) (auto simp: lookup_row_def)

lemma lookup_row_map:
  "lookup_row key (map (\<lambda>x. if key x = key r then r else x) rows) k =
     (if k = key r \<and> lookup_row key rows k \<noteq> None then Some r else lookup_row key rows k)"
  by (induction rows) (auto simp: lookup_row_def)

lemma lookup_row_delete:
  "lookup_row key (delete_row key k rows) k' = (if k' = k then None else lookup_row key rows k')"
  by (induction rows) (auto simp: lookup_row_def delete_row_def)

lemma lookup_row_distinct: "distinct (map key rows) \<Longrightarrow> r \<in> set rows \<Longrightarrow> lookup_row key rows (key r) = Some r"
  by (induction rows) (auto simp: lookup_row_def)

lemma map_key_replace: "map key (map (\<lambda>x. if key x = key r then r else x) rows) = map key rows"
  by (induction rows) auto

lemma insert_row_Ok:
  "insert_row key check r rows = Inr rows' \<longleftrightarrow>
     check r = None \<and> key r \<notin> key ` set rows \<and> rows' = rows @ [r]"
  by (auto simp: insert_row_def split: option.splits)

lemma replace_row_Ok:
  "replace_row key check r rows = Inr rows' \<longleftrightarrow>
     check r = None \<and> rows' = map (\<lambda>x. if key x = key r then r else x) rows"
  by (auto simp: replace_row_def split: option.splits)

text \<open>Every key function and row check make the list operations a keyed table.\<close>

lemma keyed_table_rows:
  "keyed_table key (lookup_row key) (insert_row key check) (replace_row key check) (delete_row key)
     (table_ok key check)"
proof (standard, goal_cases)
  case (1 t k r)
  then show ?case by (auto dest: lookup_row_Some)
next
  case (2 r t t')
  then show ?case by (simp add: insert_row_Ok lookup_row_None)
next
  case (3 r t t' k)
  then have t': "t' = t @ [r]" and "lookup_row key t (key r) = None"
    by (simp_all add: insert_row_Ok lookup_row_None)
  then show ?case by (cases "lookup_row key t k") (auto simp: lookup_row_snoc)
next
  case (4 t r t')
  then show ?case by (auto simp: insert_row_Ok table_ok_def)
next
  case (5 r t t' k)
  then show ?case by (auto simp: replace_row_Ok lookup_row_map)
next
  case (6 t r t')
  then show ?case by (auto simp: replace_row_Ok table_ok_def map_key_replace simp del: map_map)
next
  case (7 k t k')
  then show ?case by (simp add: lookup_row_delete)
next
  case (8 t k)
  then show ?case by (auto simp: table_ok_def delete_row_def distinct_map_filter)
qed

end
