(* ===== verification/Models.thy ===== *)
theory Models
  imports Tables PyText
begin

text \<open>
  \<open>src/celine/grid/db/models.py\<close>: the two tables and the constraints their columns declare.
  A column that the code may set to \<open>None\<close> before a commit is an option, and the commit
  refuses the row (NOT NULL). \<open>risk_types\<close> is a JSON column: there \<open>None\<close> is the JSON null,
  which the column accepts. An id (UUID) is a number; time stamps are numbers.
\<close>

section \<open>Rows\<close>

record alert_rule =
  ar_id :: nat
  ar_user_id :: string
  ar_network_id :: string
  ar_risk_types :: "string list option"
  ar_threshold :: "string option"
  ar_network_id_unset :: bool
  ar_recipients :: "string option"
  ar_active :: "bool option"
  ar_created_at :: nat
  ar_updated_at :: nat

record notification_settings =
  ns_id :: nat
  ns_user_id :: string
  ns_email_recipients :: "string option"
  ns_webhook_url :: "string option"
  ns_created_at :: nat
  ns_updated_at :: nat

record db =
  db_rules :: "alert_rule list"
  db_settings :: "notification_settings list"
  db_next_settings_id :: nat

section \<open>Constraints\<close>

definition check_rule :: "alert_rule \<Rightarrow> py_error option" where
  "check_rule r =
     (if ar_threshold r = None \<or> ar_active r = None then Some IntegrityError
      else if 255 < length (ar_user_id r) \<or> 255 < length (ar_network_id r) \<or>
              20 < length (the (ar_threshold r)) then Some DataError
      else None)"

definition check_settings :: "notification_settings \<Rightarrow> py_error option" where
  "check_settings s = (if 255 < length (ns_user_id s) then Some DataError else None)"

text \<open>\<open>alert_rules\<close> has its primary key; \<open>notification_settings\<close> is unique in \<open>user_id\<close>
  and draws its primary key from a sequence.\<close>

abbreviation rules_ok :: "alert_rule list \<Rightarrow> bool" where
  "rules_ok \<equiv> table_ok ar_id check_rule"

abbreviation settings_ok :: "notification_settings list \<Rightarrow> bool" where
  "settings_ok \<equiv> table_ok ns_user_id check_settings"

definition db_ok :: "db \<Rightarrow> bool" where
  "db_ok d \<longleftrightarrow> rules_ok (db_rules d) \<and> settings_ok (db_settings d) \<and>
     (\<forall>s \<in> set (db_settings d). ns_id s < db_next_settings_id d) \<and> distinct (map ns_id (db_settings d))"

definition empty_db :: db where
  "empty_db = \<lparr>db_rules = [], db_settings = [], db_next_settings_id = 1\<rparr>"

lemma empty_db_ok: "db_ok empty_db"
  by (simp add: db_ok_def empty_db_def table_ok_def)

text \<open>Both tables are keyed tables.\<close>

interpretation rules: keyed_table ar_id "lookup_row ar_id" "insert_row ar_id check_rule"
  "replace_row ar_id check_rule" "delete_row ar_id" rules_ok
  by (rule keyed_table_rows)

interpretation settings: keyed_table ns_user_id "lookup_row ns_user_id" "insert_row ns_user_id check_settings"
  "replace_row ns_user_id check_settings" "delete_row ns_user_id" settings_ok
  by (rule keyed_table_rows)

section \<open>Statements\<close>

text \<open>\<open>result.scalar_one_or_none()\<close>\<close>

definition scalar_one_or_none :: "'a list \<Rightarrow> 'a option res" where
  "scalar_one_or_none xs = (case xs of [] \<Rightarrow> Ok None | [x] \<Rightarrow> Ok (Some x) | _ \<Rightarrow> Raise MultipleResultsFound)"

text \<open>At most one row has a given value in a unique column.\<close>

lemma filter_unique:
  assumes "distinct (map key rows)"
  shows "filter (\<lambda>r. key r = k) rows = (case lookup_row key rows k of None \<Rightarrow> [] | Some r \<Rightarrow> [r])"
  using assms
proof (induction rows)
  case (Cons r rows)
  have l: "lookup_row key (r # rows) k = (if key r = k then Some r else lookup_row key rows k)"
    by (simp add: lookup_row_def)
  show ?case
  proof (cases "key r = k")
    case True
    with Cons.prems have "k \<notin> key ` set rows" by simp
    then have "filter (\<lambda>r. key r = k) rows = []" unfolding filter_empty_conv by blast
    with True l show ?thesis by simp
  next
    case False
    with Cons l show ?thesis by simp
  qed
qed (simp add: lookup_row_def)

lemma scalar_unique:
  assumes "distinct (map key rows)"
  shows "scalar_one_or_none (filter (\<lambda>r. key r = k) rows) = Inr (lookup_row key rows k)"
  by (simp add: filter_unique [OF assms] scalar_one_or_none_def split: option.splits)

lemma scalar_map: "scalar_one_or_none (map f xs) =
    (case scalar_one_or_none xs of Inl e \<Rightarrow> Inl e | Inr x \<Rightarrow> Inr (map_option f x))"
  by (cases xs; cases "tl xs") (auto simp: scalar_one_or_none_def)

end
