(* ===== verification/AlertsApi.thy ===== *)
theory AlertsApi
  imports Identity Models
begin

text \<open>
  \<open>src/celine/grid/api/schemas.py\<close> and \<open>src/celine/grid/api/alerts.py\<close>: the validated bodies,
  the serialised rows and the six handlers over the two tables. A handler runs its
  dependencies first (401, 403), then the request is validated (422), then the body of the
  handler runs (404, 500, success); a body that is no JSON at all is refused before the
  dependencies. Validation of a boolean and of a UUID are parameters, as is the id that
  \<open>uuid4\<close> draws.
\<close>

section \<open>Bodies\<close>

datatype body = NoBody | BadJson | JsonBody pyval

record rule_create =
  rc_risk_types :: "string list"
  rc_threshold :: string
  rc_recipients :: "string option"
  rc_active :: bool

text \<open>A field of an update is unset, null or a value.\<close>

datatype 'a field_update = Unset | Null | Value 'a

record rule_update =
  ru_risk_types :: "string list field_update"
  ru_threshold :: "string field_update"
  ru_recipients :: "string field_update"
  ru_active :: "bool field_update"

record settings_update =
  su_email_recipients :: "string field_update"
  su_webhook_url :: "string field_update"

text \<open>The validators of the field types.\<close>

fun v_str :: "pyval \<Rightarrow> string option" where
  "v_str (VStr s) = Some s"
| "v_str _ = None"

definition v_literal :: "string list \<Rightarrow> pyval \<Rightarrow> string option" where
  "v_literal allowed v = (case v of VStr s \<Rightarrow> if s \<in> set allowed then Some s else None | _ \<Rightarrow> None)"

fun v_all :: "(pyval \<Rightarrow> 'a option) \<Rightarrow> pyval list \<Rightarrow> 'a list option" where
  "v_all f [] = Some []"
| "v_all f (v # vs) = Option.bind (f v) (\<lambda>x. map_option (\<lambda>xs. x # xs) (v_all f vs))"

text \<open>\<open>list[Literal["wind", "heat"]]\<close> with the \<open>non_empty\<close> validator.\<close>

definition v_risk_types :: "pyval \<Rightarrow> string list option" where
  "v_risk_types v =
     (case v of
        VList vs \<Rightarrow> Option.bind (v_all (v_literal [''wind'', ''heat'']) vs) (\<lambda>ts. if ts = [] then None else Some ts)
      | _ \<Rightarrow> None)"

definition v_threshold :: "pyval \<Rightarrow> string option" where
  "v_threshold = v_literal [''ALERT'', ''WARNING'']"

text \<open>An optional field: absent, null, or validated.\<close>

definition v_field :: "(pyval \<Rightarrow> 'a option) \<Rightarrow> pydict \<Rightarrow> string \<Rightarrow> 'a field_update option" where
  "v_field f d k =
     (case dict_get d k of
        None \<Rightarrow> Some Unset
      | Some v \<Rightarrow> if v = VNone then Some Null else map_option Value (f v))"

definition validate_rule_create :: "(pyval \<Rightarrow> bool option) \<Rightarrow> pyval \<Rightarrow> rule_create option" where
  "validate_rule_create v_bool v =
     (case v of
        VDict d \<Rightarrow>
          Option.bind (Option.bind (dict_get d ''risk_types'') v_risk_types) (\<lambda>ts.
          Option.bind (Option.bind (dict_get d ''threshold'') v_threshold) (\<lambda>t.
          Option.bind (v_field v_str d ''recipients'') (\<lambda>r.
          Option.bind (case dict_get d ''active'' of None \<Rightarrow> Some True | Some a \<Rightarrow> v_bool a) (\<lambda>a.
            Some \<lparr>rc_risk_types = ts, rc_threshold = t,
                  rc_recipients = (case r of Value s \<Rightarrow> Some s | _ \<Rightarrow> None), rc_active = a\<rparr>))))
      | _ \<Rightarrow> None)"

definition validate_rule_update :: "(pyval \<Rightarrow> bool option) \<Rightarrow> pyval \<Rightarrow> rule_update option" where
  "validate_rule_update v_bool v =
     (case v of
        VDict d \<Rightarrow>
          Option.bind (v_field v_risk_types d ''risk_types'') (\<lambda>ts.
          Option.bind (v_field v_threshold d ''threshold'') (\<lambda>t.
          Option.bind (v_field v_str d ''recipients'') (\<lambda>r.
          Option.bind (v_field v_bool d ''active'') (\<lambda>a.
            Some \<lparr>ru_risk_types = ts, ru_threshold = t, ru_recipients = r, ru_active = a\<rparr>))))
      | _ \<Rightarrow> None)"

definition validate_settings_update :: "pyval \<Rightarrow> settings_update option" where
  "validate_settings_update v =
     (case v of
        VDict d \<Rightarrow>
          Option.bind (v_field v_str d ''email_recipients'') (\<lambda>e.
          Option.bind (v_field v_str d ''webhook_url'') (\<lambda>w.
            Some \<lparr>su_email_recipients = e, su_webhook_url = w\<rparr>))
      | _ \<Rightarrow> None)"

definition validated :: "(pyval \<Rightarrow> 'a option) \<Rightarrow> body \<Rightarrow> failure + 'a" where
  "validated f b = (case b of JsonBody v \<Rightarrow> (case f v of None \<Rightarrow> Inl Unprocessable | Some x \<Rightarrow> Inr x)
     | _ \<Rightarrow> Inl Unprocessable)"

section \<open>Serialised rows\<close>

record rule_response =
  rr_id :: nat
  rr_user_id :: string
  rr_network_id :: string
  rr_risk_types :: "string list"
  rr_threshold :: string
  rr_recipients :: "string option"
  rr_active :: bool
  rr_created_at :: nat
  rr_updated_at :: nat

record settings_response =
  sr_user_id :: string
  sr_email_recipients :: "string option"
  sr_webhook_url :: "string option"
  sr_updated_at :: nat

definition ResponseValidationError :: py_error where
  "ResponseValidationError = OtherError ''ResponseValidationError''"

definition rule_response_of :: "alert_rule \<Rightarrow> rule_response res" where
  "rule_response_of r =
     (case (ar_risk_types r, ar_threshold r, ar_active r) of
        (Some ts, Some t, Some a) \<Rightarrow>
          Ok \<lparr>rr_id = ar_id r, rr_user_id = ar_user_id r, rr_network_id = ar_network_id r,
              rr_risk_types = ts, rr_threshold = t, rr_recipients = ar_recipients r, rr_active = a,
              rr_created_at = ar_created_at r, rr_updated_at = ar_updated_at r\<rparr>
      | _ \<Rightarrow> Raise ResponseValidationError)"

definition settings_response_of :: "notification_settings \<Rightarrow> settings_response" where
  "settings_response_of s =
     \<lparr>sr_user_id = ns_user_id s, sr_email_recipients = ns_email_recipients s,
      sr_webhook_url = ns_webhook_url s, sr_updated_at = ns_updated_at s\<rparr>"

section \<open>Handlers: alert rules\<close>

type_synonym 'a outcome = "(failure + 'a) \<times> db"

text \<open>The rest of the handler runs on the caller that the dependency returned.\<close>

definition with_user :: "(failure + jwt_user) \<Rightarrow> db \<Rightarrow> (jwt_user \<Rightarrow> 'a outcome) \<Rightarrow> 'a outcome" where
  "with_user dep d f = (case dep of Inl e \<Rightarrow> (Inl e, d) | Inr user \<Rightarrow> f user)"

definition list_alert_rules :: "jwt_user \<Rightarrow> db \<Rightarrow> rule_response list outcome" where
  "list_alert_rules user d =
     (crash (mapR rule_response_of
        (sort_key ar_created_at (filter (\<lambda>r. ar_user_id r = ju_sub user) (db_rules d)))), d)"

definition new_rule :: "nat \<Rightarrow> nat \<Rightarrow> string \<Rightarrow> string \<Rightarrow> rule_create \<Rightarrow> alert_rule" where
  "new_rule fresh now sub network_id b =
     \<lparr>ar_id = fresh, ar_user_id = sub, ar_network_id = network_id, ar_risk_types = Some (rc_risk_types b),
      ar_threshold = Some (rc_threshold b), ar_network_id_unset = False, ar_recipients = rc_recipients b,
      ar_active = Some (rc_active b), ar_created_at = now, ar_updated_at = now\<rparr>"

definition create_alert_rule :: "nat \<Rightarrow> nat \<Rightarrow> rule_create \<Rightarrow> jwt_user \<Rightarrow> db \<Rightarrow> rule_response outcome" where
  "create_alert_rule fresh now b user d =
     (case resolve_dso_network user of
        Inl f \<Rightarrow> (Inl f, d)
      | Inr network_id \<Rightarrow>
          let rule = new_rule fresh now (ju_sub user) network_id b in
          case insert_row ar_id check_rule rule (db_rules d) of
            Inl e \<Rightarrow> (Inl (Crash e), d)
          | Inr rows \<Rightarrow> (crash (rule_response_of rule), d\<lparr>db_rules := rows\<rparr>))"

definition upd :: "'a field_update \<Rightarrow> 'a option \<Rightarrow> 'a option" where
  "upd f old = (case f of Unset \<Rightarrow> old | Null \<Rightarrow> None | Value v \<Rightarrow> Some v)"

definition update_rule :: "rule_update \<Rightarrow> alert_rule \<Rightarrow> alert_rule" where
  "update_rule b r =
     r\<lparr>ar_risk_types := upd (ru_risk_types b) (ar_risk_types r),
       ar_threshold := upd (ru_threshold b) (ar_threshold r),
       ar_recipients := upd (ru_recipients b) (ar_recipients r),
       ar_active := upd (ru_active b) (ar_active r)\<rparr>"

text \<open>The UPDATE statement, and with it \<open>onupdate\<close>, is emitted for a row that changed.\<close>

definition touch_rule :: "nat \<Rightarrow> alert_rule \<Rightarrow> alert_rule \<Rightarrow> alert_rule" where
  "touch_rule now old new = (if new = old then old else new\<lparr>ar_updated_at := now\<rparr>)"

definition own_rule :: "nat \<Rightarrow> jwt_user \<Rightarrow> db \<Rightarrow> alert_rule option res" where
  "own_rule rule_id user d =
     scalar_one_or_none (filter (\<lambda>r. ar_id r = rule_id \<and> ar_user_id r = ju_sub user) (db_rules d))"

definition update_alert_rule :: "nat \<Rightarrow> nat \<Rightarrow> rule_update \<Rightarrow> jwt_user \<Rightarrow> db \<Rightarrow> rule_response outcome" where
  "update_alert_rule now rule_id b user d =
     (case own_rule rule_id user d of
        Inl e \<Rightarrow> (Inl (Crash e), d)
      | Inr None \<Rightarrow> (Inl (HttpError 404 ''Alert rule not found''), d)
      | Inr (Some rule) \<Rightarrow>
          let rule' = touch_rule now rule (update_rule b rule) in
          case replace_row ar_id check_rule rule' (db_rules d) of
            Inl e \<Rightarrow> (Inl (Crash e), d)
          | Inr rows \<Rightarrow> (crash (rule_response_of rule'), d\<lparr>db_rules := rows\<rparr>))"

definition delete_alert_rule :: "nat \<Rightarrow> jwt_user \<Rightarrow> db \<Rightarrow> unit outcome" where
  "delete_alert_rule rule_id user d =
     (case own_rule rule_id user d of
        Inl e \<Rightarrow> (Inl (Crash e), d)
      | Inr None \<Rightarrow> (Inl (HttpError 404 ''Alert rule not found''), d)
      | Inr (Some rule) \<Rightarrow> (Inr (), d\<lparr>db_rules := delete_row ar_id (ar_id rule) (db_rules d)\<rparr>))"

section \<open>Handlers: notification settings\<close>

definition new_settings :: "nat \<Rightarrow> string \<Rightarrow> db \<Rightarrow> notification_settings" where
  "new_settings now sub d =
     \<lparr>ns_id = db_next_settings_id d, ns_user_id = sub, ns_email_recipients = None, ns_webhook_url = None,
      ns_created_at = now, ns_updated_at = now\<rparr>"

definition own_settings :: "jwt_user \<Rightarrow> db \<Rightarrow> notification_settings option res" where
  "own_settings user d = scalar_one_or_none (filter (\<lambda>s. ns_user_id s = ju_sub user) (db_settings d))"

definition insert_settings :: "notification_settings \<Rightarrow> db \<Rightarrow> db res" where
  "insert_settings s d =
     bindR (insert_row ns_user_id check_settings s (db_settings d)) (\<lambda>rows.
       Ok (d\<lparr>db_settings := rows, db_next_settings_id := db_next_settings_id d + 1\<rparr>))"

definition get_notification_settings :: "nat \<Rightarrow> jwt_user \<Rightarrow> db \<Rightarrow> settings_response outcome" where
  "get_notification_settings now user d =
     (case own_settings user d of
        Inl e \<Rightarrow> (Inl (Crash e), d)
      | Inr (Some s) \<Rightarrow> (Inr (settings_response_of s), d)
      | Inr None \<Rightarrow>
          let s = new_settings now (ju_sub user) d in
          case insert_settings s d of
            Inl e \<Rightarrow> (Inl (Crash e), d)
          | Inr d' \<Rightarrow> (Inr (settings_response_of s), d'))"

definition update_settings :: "settings_update \<Rightarrow> notification_settings \<Rightarrow> notification_settings" where
  "update_settings b s =
     s\<lparr>ns_email_recipients := upd (su_email_recipients b) (ns_email_recipients s),
       ns_webhook_url := upd (su_webhook_url b) (ns_webhook_url s)\<rparr>"

definition touch_settings :: "nat \<Rightarrow> notification_settings \<Rightarrow> notification_settings \<Rightarrow> notification_settings" where
  "touch_settings now old new = (if new = old then old else new\<lparr>ns_updated_at := now\<rparr>)"

definition update_notification_settings ::
  "nat \<Rightarrow> settings_update \<Rightarrow> jwt_user \<Rightarrow> db \<Rightarrow> settings_response outcome" where
  "update_notification_settings now b user d =
     (case own_settings user d of
        Inl e \<Rightarrow> (Inl (Crash e), d)
      | Inr (Some s) \<Rightarrow>
          let s' = touch_settings now s (update_settings b s) in
          (case replace_row ns_user_id check_settings s' (db_settings d) of
             Inl e \<Rightarrow> (Inl (Crash e), d)
           | Inr rows \<Rightarrow> (Inr (settings_response_of s'), d\<lparr>db_settings := rows\<rparr>))
      | Inr None \<Rightarrow>
          let s = update_settings b (new_settings now (ju_sub user) d) in
          (case insert_settings s d of
             Inl e \<Rightarrow> (Inl (Crash e), d)
           | Inr d' \<Rightarrow> (Inr (settings_response_of s), d')))"

section \<open>Routes\<close>

text \<open>What a request asks for; the rule id is the text of the path segment.\<close>

datatype alerts_call =
    ListRules
  | CreateRule body
  | UpdateRule string body
  | DeleteRule string
  | GetSettings
  | PutSettings body

datatype alerts_answer =
    Rules "rule_response list"
  | OneRule rule_response
  | Deleted
  | Settings settings_response

record alerts_env =
  ae_auth :: auth_env
  ae_bool :: "pyval \<Rightarrow> bool option"
  ae_uuid :: "string \<Rightarrow> nat option"

definition mapO :: "('a \<Rightarrow> 'b) \<Rightarrow> 'a outcome \<Rightarrow> 'b outcome" where
  "mapO f o' = (case o' of (Inl e, d) \<Rightarrow> (Inl e, d) | (Inr x, d) \<Rightarrow> (Inr (f x), d))"

definition checked :: "(failure + 'a) \<Rightarrow> db \<Rightarrow> ('a \<Rightarrow> 'b outcome) \<Rightarrow> 'b outcome" where
  "checked v d f = (case v of Inl e \<Rightarrow> (Inl e, d) | Inr x \<Rightarrow> f x)"

definition path_id :: "alerts_env \<Rightarrow> string \<Rightarrow> failure + nat" where
  "path_id env s = (case ae_uuid env s of None \<Rightarrow> Inl Unprocessable | Some i \<Rightarrow> Inr i)"

fun call_body :: "alerts_call \<Rightarrow> body" where
  "call_body (CreateRule b) = b"
| "call_body (UpdateRule i b) = b"
| "call_body (PutSettings b) = b"
| "call_body _ = NoBody"

definition alerts_handler ::
  "alerts_env \<Rightarrow> nat \<Rightarrow> nat \<Rightarrow> request \<Rightarrow> alerts_call \<Rightarrow> db \<Rightarrow> alerts_answer outcome" where
  "alerts_handler env fresh now rq call d =
     (case call of
        ListRules \<Rightarrow> with_user (require_alerts_read (ae_auth env) rq) d (\<lambda>user. mapO Rules (list_alert_rules user d))
      | CreateRule b \<Rightarrow> with_user (require_alerts_write (ae_auth env) rq) d (\<lambda>user.
          checked (validated (validate_rule_create (ae_bool env)) b) d (\<lambda>x.
            mapO OneRule (create_alert_rule fresh now x user d)))
      | UpdateRule i b \<Rightarrow> with_user (require_alerts_write (ae_auth env) rq) d (\<lambda>user.
          checked (path_id env i) d (\<lambda>rule_id.
          checked (validated (validate_rule_update (ae_bool env)) b) d (\<lambda>x.
            mapO OneRule (update_alert_rule now rule_id x user d))))
      | DeleteRule i \<Rightarrow> with_user (require_alerts_write (ae_auth env) rq) d (\<lambda>user.
          checked (path_id env i) d (\<lambda>rule_id. mapO (\<lambda>_. Deleted) (delete_alert_rule rule_id user d)))
      | GetSettings \<Rightarrow> with_user (require_alerts_read (ae_auth env) rq) d (\<lambda>user.
          mapO Settings (get_notification_settings now user d))
      | PutSettings b \<Rightarrow> with_user (require_alerts_write (ae_auth env) rq) d (\<lambda>user.
          checked (validated validate_settings_update b) d (\<lambda>x.
            mapO Settings (update_notification_settings now x user d))))"

definition alerts_api ::
  "alerts_env \<Rightarrow> nat \<Rightarrow> nat \<Rightarrow> request \<Rightarrow> alerts_call \<Rightarrow> db \<Rightarrow> alerts_answer outcome" where
  "alerts_api env fresh now rq call d =
     (if call_body call = BadJson then (Inl Unprocessable, d) else alerts_handler env fresh now rq call d)"

end
