(* ===== verification/AlertsSpec.thy ===== *)
theory AlertsSpec
  imports AlertsApi
begin

text \<open>
  What \<open>src/celine/grid/api/alerts.py\<close> promises: each operator works on a private collection of
  rules and one settings record, which no other operator sees or changes. The abstract
  specification says so on the view of one user; the handlers refine it on every well-formed
  database. The states that requests can reach are an inductive relation, with the table
  constraints and the typing of the rows as invariants.
\<close>

section \<open>Requests as operations\<close>

text \<open>A request is a caller, found by the guard of its route, and a validated operation.\<close>

datatype alerts_op =
    OpList
  | OpCreate rule_create
  | OpUpdate nat rule_update
  | OpDelete nat
  | OpGet
  | OpPut settings_update

fun call_guard :: "alerts_env \<Rightarrow> request \<Rightarrow> alerts_call \<Rightarrow> failure + jwt_user" where
  "call_guard env rq ListRules = require_alerts_read (ae_auth env) rq"
| "call_guard env rq GetSettings = require_alerts_read (ae_auth env) rq"
| "call_guard env rq _ = require_alerts_write (ae_auth env) rq"

fun parse_call :: "alerts_env \<Rightarrow> alerts_call \<Rightarrow> failure + alerts_op" where
  "parse_call env ListRules = Inr OpList"
| "parse_call env (CreateRule b) = bindR (validated (validate_rule_create (ae_bool env)) b) (\<lambda>x. Inr (OpCreate x))"
| "parse_call env (UpdateRule i b) = bindR (path_id env i) (\<lambda>k.
     bindR (validated (validate_rule_update (ae_bool env)) b) (\<lambda>x. Inr (OpUpdate k x)))"
| "parse_call env (DeleteRule i) = bindR (path_id env i) (\<lambda>k. Inr (OpDelete k))"
| "parse_call env GetSettings = Inr OpGet"
| "parse_call env (PutSettings b) = bindR (validated validate_settings_update b) (\<lambda>x. Inr (OpPut x))"

fun run_op :: "nat \<Rightarrow> nat \<Rightarrow> jwt_user \<Rightarrow> alerts_op \<Rightarrow> db \<Rightarrow> alerts_answer outcome" where
  "run_op fresh now user OpList d = mapO Rules (list_alert_rules user d)"
| "run_op fresh now user (OpCreate x) d = mapO OneRule (create_alert_rule fresh now x user d)"
| "run_op fresh now user (OpUpdate k x) d = mapO OneRule (update_alert_rule now k x user d)"
| "run_op fresh now user (OpDelete k) d = mapO (\<lambda>_. Deleted) (delete_alert_rule k user d)"
| "run_op fresh now user OpGet d = mapO Settings (get_notification_settings now user d)"
| "run_op fresh now user (OpPut x) d = mapO Settings (update_notification_settings now x user d)"

lemma alerts_handler_run:
  "alerts_handler env fresh now rq call d =
     (case bindR (call_guard env rq call) (\<lambda>user. bindR (parse_call env call) (\<lambda>op. Inr (user, op))) of
        Inl f \<Rightarrow> (Inl f, d)
      | Inr (user, op) \<Rightarrow> run_op fresh now user op d)"
  by (cases call) (auto simp: alerts_handler_def with_user_def checked_def bindR_split split: sum.splits)

text \<open>A refused request changes nothing; the others run one operation for their caller.\<close>

lemma alerts_api_cases:
  assumes "alerts_api env fresh now rq call d = (r, d')"
  obtains (refused) f where "r = Inl f" "d' = d" "failure_status f \<in> {401, 403, 422}"
    | (run) user op where "call_guard env rq call = Inr user" "parse_call env call = Inr op"
        "run_op fresh now user op d = (r, d')"
proof -
  have guard: "failure_status f \<in> {401, 403, 422}" if "call_guard env rq call = Inl f" for f
    using that by (cases call) (fastforce dest: require_Inl)+
  have parse: "failure_status f \<in> {401, 403, 422}" if "parse_call env call = Inl f" for f
    using that by (cases call) (auto simp: validated_def path_id_def bindR_Raise_iff split: body.splits option.splits)
  show thesis
  proof (cases "call_body call = BadJson")
    case True
    with assms refused show thesis by (auto simp: alerts_api_def)
  next
    case False
    with assms have a: "alerts_handler env fresh now rq call d = (r, d')" by (simp add: alerts_api_def)
    show thesis
    proof (cases "call_guard env rq call")
      case (Inl f)
      with a refused guard show thesis by (auto simp: alerts_handler_run)
    next
      case user: (Inr user)
      show thesis
      proof (cases "parse_call env call")
        case (Inl f)
        with a user refused parse show thesis by (auto simp: alerts_handler_run)
      next
        case (Inr op)
        with a user run show thesis by (auto simp: alerts_handler_run)
      qed
    qed
  qed
qed

section \<open>The specification\<close>

text \<open>What one operator owns: the rules in the order of the table, and the settings as shown.\<close>

record user_view =
  uv_rules :: "alert_rule list"
  uv_settings :: "settings_response option"

definition view_of :: "db \<Rightarrow> string \<Rightarrow> user_view" where
  "view_of d u =
     \<lparr>uv_rules = filter (\<lambda>r. ar_user_id r = u) (db_rules d),
      uv_settings = map_option settings_response_of (lookup_row ns_user_id (db_settings d) u)\<rparr>"

definition spec_settings :: "nat \<Rightarrow> string \<Rightarrow> settings_update \<Rightarrow> settings_response option \<Rightarrow> settings_response" where
  "spec_settings now u b s =
     (let old = (case s of Some s \<Rightarrow> s | None \<Rightarrow>
             \<lparr>sr_user_id = u, sr_email_recipients = None, sr_webhook_url = None, sr_updated_at = now\<rparr>);
          new = old\<lparr>sr_email_recipients := upd (su_email_recipients b) (sr_email_recipients old),
                    sr_webhook_url := upd (su_webhook_url b) (sr_webhook_url old)\<rparr>
      in if new = old then old else new\<lparr>sr_updated_at := now\<rparr>)"

definition no_update :: settings_update where
  "no_update = \<lparr>su_email_recipients = Unset, su_webhook_url = Unset\<rparr>"

definition spec_put ::
  "nat \<Rightarrow> string \<Rightarrow> settings_update \<Rightarrow> user_view \<Rightarrow> (failure + alerts_answer) \<times> user_view" where
  "spec_put now u b v =
     (if 255 < length u then (Inl (Crash DataError), v)
      else let s = spec_settings now u b (uv_settings v) in (Inr (Settings s), v\<lparr>uv_settings := Some s\<rparr>))"

fun spec_op ::
  "nat \<Rightarrow> nat \<Rightarrow> string \<Rightarrow> failure + string \<Rightarrow> alerts_op \<Rightarrow> user_view \<Rightarrow> (failure + alerts_answer) \<times> user_view" where
  "spec_op fresh now u network OpList v =
     (crash (bindR (mapR rule_response_of (sort_key ar_created_at (uv_rules v))) (\<lambda>rs. Ok (Rules rs))), v)"
| "spec_op fresh now u network (OpCreate b) v =
     (case network of
        Inl f \<Rightarrow> (Inl f, v)
      | Inr n \<Rightarrow> let rule = new_rule fresh now u n b in
          case check_rule rule of
            Some e \<Rightarrow> (Inl (Crash e), v)
          | None \<Rightarrow> (crash (bindR (rule_response_of rule) (\<lambda>x. Ok (OneRule x))), v\<lparr>uv_rules := uv_rules v @ [rule]\<rparr>))"
| "spec_op fresh now u network (OpUpdate k b) v =
     (case find (\<lambda>r. ar_id r = k) (uv_rules v) of
        None \<Rightarrow> (Inl (HttpError 404 ''Alert rule not found''), v)
      | Some rule \<Rightarrow> let rule' = touch_rule now rule (update_rule b rule) in
          case check_rule rule' of
            Some e \<Rightarrow> (Inl (Crash e), v)
          | None \<Rightarrow> (crash (bindR (rule_response_of rule') (\<lambda>x. Ok (OneRule x))),
                     v\<lparr>uv_rules := map (\<lambda>r. if ar_id r = k then rule' else r) (uv_rules v)\<rparr>))"
| "spec_op fresh now u network (OpDelete k) v =
     (if k \<in> ar_id ` set (uv_rules v)
      then (Inr Deleted, v\<lparr>uv_rules := filter (\<lambda>r. ar_id r \<noteq> k) (uv_rules v)\<rparr>)
      else (Inl (HttpError 404 ''Alert rule not found''), v))"
| "spec_op fresh now u network OpGet v =
     (case uv_settings v of Some s \<Rightarrow> (Inr (Settings s), v) | None \<Rightarrow> spec_put now u no_update v)"
| "spec_op fresh now u network (OpPut b) v = spec_put now u b v"


section \<open>Refinement: lemmas\<close>

lemma find_filter_unique:
  assumes "distinct (map key rows)"
  shows "scalar_one_or_none (filter (\<lambda>r. key r = k \<and> P r) rows) = Inr (find (\<lambda>r. key r = k) (filter P rows))"
proof -
  have "filter (\<lambda>r. key r = k \<and> P r) rows = filter (\<lambda>r. key r = k) (filter P rows)"
    by (simp add: conj_commute)
  moreover have "distinct (map key (filter P rows))" using assms by (rule distinct_map_filter)
  ultimately show ?thesis by (simp only: scalar_unique lookup_row_def)
qed

lemma filter_replace:
  assumes "\<And>x. x \<in> set rows \<Longrightarrow> key x = key r \<Longrightarrow> own x = own r"
  shows "filter (\<lambda>x. own x = u) (map (\<lambda>x. if key x = key r then r else x) rows) =
    (if own r = u then map (\<lambda>x. if key x = key r then r else x) (filter (\<lambda>x. own x = u) rows)
     else filter (\<lambda>x. own x = u) rows)"
  using assms by (induction rows) auto

lemma db_ok_distinct:
  assumes "db_ok d"
  shows "distinct (map ar_id (db_rules d))" "distinct (map ns_user_id (db_settings d))"
  using assms by (simp_all add: db_ok_def table_ok_def)

lemma same_id_same_row:
  "db_ok d \<Longrightarrow> x \<in> set (db_rules d) \<Longrightarrow> y \<in> set (db_rules d) \<Longrightarrow> ar_id x = ar_id y \<Longrightarrow> x = y"
  by (auto dest!: db_ok_distinct(1) simp: distinct_map inj_on_def)

lemma own_rule_view:
  "db_ok d \<Longrightarrow> own_rule k user d = Inr (find (\<lambda>r. ar_id r = k) (uv_rules (view_of d (ju_sub user))))"
  by (simp add: own_rule_def view_of_def find_filter_unique db_ok_distinct)

lemma own_rule_Some:
  assumes "db_ok d" "own_rule k user d = Inr (Some rule)"
  shows "rule \<in> set (db_rules d) \<and> ar_id rule = k \<and> ar_user_id rule = ju_sub user"
  using assms by (auto simp: own_rule_view view_of_def find_Some_iff dest: nth_mem)

lemma own_settings_view:
  "db_ok d \<Longrightarrow> own_settings user d = Inr (lookup_row ns_user_id (db_settings d) (ju_sub user))"
  by (simp add: own_settings_def scalar_unique db_ok_distinct)

lemma update_rule_key [simp]:
  "ar_id (touch_rule now r (update_rule b r)) = ar_id r"
  "ar_user_id (touch_rule now r (update_rule b r)) = ar_user_id r"
  "ar_network_id (touch_rule now r (update_rule b r)) = ar_network_id r"
  "ar_created_at (touch_rule now r (update_rule b r)) = ar_created_at r"
  "ar_network_id_unset (touch_rule now r (update_rule b r)) = ar_network_id_unset r"
  by (simp_all add: touch_rule_def update_rule_def)

lemma update_settings_key [simp]:
  "ns_user_id (touch_settings now s (update_settings b s)) = ns_user_id s"
  "ns_id (touch_settings now s (update_settings b s)) = ns_id s"
  by (simp_all add: touch_settings_def update_settings_def)

text \<open>The views after each kind of write.\<close>

lemma view_insert_rule:
  "view_of (d\<lparr>db_rules := db_rules d @ [rule]\<rparr>) u =
     (if ar_user_id rule = u then (view_of d u)\<lparr>uv_rules := uv_rules (view_of d u) @ [rule]\<rparr> else view_of d u)"
  by (simp add: view_of_def)

lemma view_replace_rule:
  assumes "db_ok d" "rule \<in> set (db_rules d)" "ar_id rule' = ar_id rule" "ar_user_id rule' = ar_user_id rule"
  shows "view_of (d\<lparr>db_rules := map (\<lambda>x. if ar_id x = ar_id rule' then rule' else x) (db_rules d)\<rparr>) u =
    (if ar_user_id rule' = u
     then (view_of d u)\<lparr>uv_rules := map (\<lambda>x. if ar_id x = ar_id rule' then rule' else x) (uv_rules (view_of d u))\<rparr>
     else view_of d u)"
proof -
  have own: "ar_user_id x = ar_user_id rule'" if "x \<in> set (db_rules d)" "ar_id x = ar_id rule'" for x
    using same_id_same_row [OF assms(1) that(1) assms(2)] that(2) assms(3,4) by simp
  have "filter (\<lambda>x. ar_user_id x = u) (map (\<lambda>x. if ar_id x = ar_id rule' then rule' else x) (db_rules d)) =
      (if ar_user_id rule' = u
       then map (\<lambda>x. if ar_id x = ar_id rule' then rule' else x) (filter (\<lambda>x. ar_user_id x = u) (db_rules d))
       else filter (\<lambda>x. ar_user_id x = u) (db_rules d))"
    by (rule filter_replace) (rule own)
  then show ?thesis by (simp add: view_of_def)
qed

lemma view_delete_rule:
  assumes "db_ok d" "rule \<in> set (db_rules d)"
  shows "view_of (d\<lparr>db_rules := delete_row ar_id (ar_id rule) (db_rules d)\<rparr>) u =
    (if ar_user_id rule = u
     then (view_of d u)\<lparr>uv_rules := filter (\<lambda>x. ar_id x \<noteq> ar_id rule) (uv_rules (view_of d u))\<rparr>
     else view_of d u)"
proof -
  have "filter (\<lambda>x. ar_user_id x = u) (delete_row ar_id (ar_id rule) (db_rules d)) =
      filter (\<lambda>x. ar_id x \<noteq> ar_id rule) (filter (\<lambda>x. ar_user_id x = u) (db_rules d))"
    by (simp add: delete_row_def conj_commute)
  moreover have "filter (\<lambda>x. ar_id x \<noteq> ar_id rule) (filter (\<lambda>x. ar_user_id x = u) (db_rules d)) =
      filter (\<lambda>x. ar_user_id x = u) (db_rules d)" if "ar_user_id rule \<noteq> u"
    by (rule filter_True) (use same_id_same_row [OF assms(1) _ assms(2)] that in auto)
  ultimately show ?thesis by (auto simp: view_of_def)
qed


lemma lookup_settings_insert:
  assumes "lookup_row ns_user_id ss (ns_user_id s) = None"
  shows "lookup_row ns_user_id (ss @ [s]) u = (if u = ns_user_id s then Some s else lookup_row ns_user_id ss u)"
  using assms by (cases "lookup_row ns_user_id ss u") (auto simp: lookup_row_snoc)

lemma view_insert_settings:
  assumes "lookup_row ns_user_id (db_settings d) (ns_user_id s) = None"
  shows "view_of (d\<lparr>db_settings := db_settings d @ [s], db_next_settings_id := n\<rparr>) u =
    (if ns_user_id s = u then (view_of d u)\<lparr>uv_settings := Some (settings_response_of s)\<rparr> else view_of d u)"
  by (simp add: view_of_def lookup_settings_insert [OF assms])

lemma view_replace_settings:
  assumes "lookup_row ns_user_id (db_settings d) (ns_user_id s) \<noteq> None"
  shows "view_of (d\<lparr>db_settings := map (\<lambda>x. if ns_user_id x = ns_user_id s then s else x) (db_settings d)\<rparr>) u =
    (if ns_user_id s = u then (view_of d u)\<lparr>uv_settings := Some (settings_response_of s)\<rparr> else view_of d u)"
  using assms by (auto simp: view_of_def lookup_row_map)

text \<open>The database after each kind of write.\<close>

lemma db_ok_rules: "db_ok d \<Longrightarrow> rules_ok rs \<Longrightarrow> db_ok (d\<lparr>db_rules := rs\<rparr>)"
  by (simp add: db_ok_def)

lemma db_ok_parts: "db_ok d \<Longrightarrow> rules_ok (db_rules d)" "db_ok d \<Longrightarrow> settings_ok (db_settings d)"
  by (simp_all add: db_ok_def)

lemma insert_settings_Inr:
  "insert_settings s d = Inr d' \<longleftrightarrow> check_settings s = None \<and>
     lookup_row ns_user_id (db_settings d) (ns_user_id s) = None \<and>
     d' = d\<lparr>db_settings := db_settings d @ [s], db_next_settings_id := db_next_settings_id d + 1\<rparr>"
  by (auto simp: insert_settings_def bindR_Ok_iff insert_row_Ok lookup_row_None)

lemma insert_settings_Inl:
  "insert_settings s d = Inl e \<longleftrightarrow> insert_row ns_user_id check_settings s (db_settings d) = Inl e"
  by (auto simp: insert_settings_def bindR_Raise_iff)

lemma db_ok_insert_settings:
  assumes "db_ok d" "insert_settings s d = Inr d'" "ns_id s = db_next_settings_id d"
  shows "db_ok d'"
proof -
  from assms(2) have c: "check_settings s = None"
    and n: "lookup_row ns_user_id (db_settings d) (ns_user_id s) = None"
    and d': "d' = d\<lparr>db_settings := db_settings d @ [s], db_next_settings_id := db_next_settings_id d + 1\<rparr>"
    by (simp_all add: insert_settings_Inr)
  have "ns_id s \<notin> ns_id ` set (db_settings d)" using assms(1,3) by (auto simp: db_ok_def)
  with assms(1,3) c n show ?thesis
    by (auto simp: d' db_ok_def table_ok_def lookup_row_None)
qed

lemma db_ok_replace_settings:
  assumes "db_ok d" "replace_row ns_user_id check_settings s (db_settings d) = Inr rows"
    and "lookup_row ns_user_id (db_settings d) (ns_user_id s) = Some old" "ns_id s = ns_id old"
  shows "db_ok (d\<lparr>db_settings := rows\<rparr>)"
proof -
  have ok: "settings_ok rows"
    using settings.replace_ok [OF db_ok_parts(2) [OF assms(1)] assms(2)] .
  have rows: "rows = map (\<lambda>x. if ns_user_id x = ns_user_id s then s else x) (db_settings d)"
    using assms(2) by (simp add: replace_row_Ok)
  note old = lookup_row_Some [OF assms(3)]
  have id: "ns_id (if ns_user_id x = ns_user_id s then s else x) = ns_id x" if "x \<in> set (db_settings d)" for x
    using lookup_row_distinct [OF db_ok_distinct(2) [OF assms(1)] that] assms(3,4) by auto
  then have ids: "map ns_id rows = map ns_id (db_settings d)" by (simp add: rows)
  have "ns_id s < db_next_settings_id d" if "s \<in> set rows" for s
  proof -
    have "ns_id s \<in> ns_id ` set (db_settings d)" using that arg_cong [OF ids, of set] by auto
    with assms(1) show ?thesis by (auto simp: db_ok_def)
  qed
  with assms(1) ok ids show ?thesis by (simp add: db_ok_def)
qed

section \<open>Refinement of each operation\<close>

text \<open>An operation of \<open>user\<close> with result \<open>r\<close> does on the user's view what the specification
  says, leaves every other view alone and keeps the tables well formed.\<close>

definition refines ::
  "nat \<Rightarrow> nat \<Rightarrow> jwt_user \<Rightarrow> alerts_op \<Rightarrow> db \<Rightarrow> (failure + alerts_answer) \<Rightarrow> db \<Rightarrow> bool" where
  "refines fresh now user op d r d' \<longleftrightarrow>
     spec_op fresh now (ju_sub user) (resolve_dso_network user) op (view_of d (ju_sub user)) =
       (r, view_of d' (ju_sub user)) \<and>
     (\<forall>u. u \<noteq> ju_sub user \<longrightarrow> view_of d' u = view_of d u) \<and> db_ok d'"

lemma refinesI:
  assumes "spec_op fresh now (ju_sub user) (resolve_dso_network user) op (view_of d (ju_sub user)) =
      (r, view_of d' (ju_sub user))"
    and "\<And>u. u \<noteq> ju_sub user \<Longrightarrow> view_of d' u = view_of d u" "db_ok d'"
  shows "refines fresh now user op d r d'"
  using assms by (simp add: refines_def)

lemma crash_bindR: "crash (bindR r (\<lambda>x. Ok (g x))) = (case crash r of Inl e \<Rightarrow> Inl e | Inr x \<Rightarrow> Inr (g x))"
  by (cases r) auto

lemma mapO_pair: "mapO f (r, d) = ((case r of Inl e \<Rightarrow> Inl e | Inr x \<Rightarrow> Inr (f x)), d)"
  by (cases r) (auto simp: mapO_def)

lemma refines_list:
  assumes "db_ok d" "run_op fresh now user OpList d = (r, d')"
  shows "refines fresh now user OpList d r d'"
  using assms by (intro refinesI) (auto simp: list_alert_rules_def mapO_pair crash_bindR view_of_def)

lemma refines_create:
  assumes "db_ok d" "fresh \<notin> ar_id ` set (db_rules d)" "run_op fresh now user (OpCreate b) d = (r, d')"
  shows "refines fresh now user (OpCreate b) d r d'"
proof (cases "resolve_dso_network user")
  case (Inl f)
  with assms show ?thesis by (intro refinesI) (auto simp: create_alert_rule_def mapO_pair)
next
  case (Inr n)
  let ?rule = "new_rule fresh now (ju_sub user) n b"
  have key: "ar_id ?rule = fresh" "ar_user_id ?rule = ju_sub user" by (simp_all add: new_rule_def)
  show ?thesis
  proof (cases "check_rule ?rule")
    case (Some e)
    with assms Inr show ?thesis
      by (intro refinesI) (auto simp: create_alert_rule_def mapO_pair insert_row_def)
  next
    case None
    have ins: "insert_row ar_id check_rule ?rule (db_rules d) = Inr (db_rules d @ [?rule])"
      using None assms(2) key by (simp add: insert_row_Ok)
    have out: "d' = d\<lparr>db_rules := db_rules d @ [?rule]\<rparr>"
      "r = crash (bindR (rule_response_of ?rule) (\<lambda>x. Ok (OneRule x)))"
      using assms(3) Inr ins by (simp_all add: create_alert_rule_def Let_def mapO_pair crash_bindR)
    have "db_ok d'"
      unfolding out by (rule db_ok_rules [OF assms(1) rules.insert_ok [OF db_ok_parts(1) [OF assms(1)] ins]])
    with Inr None key show ?thesis
      by (intro refinesI) (auto simp: out view_insert_rule Let_def)
  qed
qed

lemma refines_update:
  assumes "db_ok d" "run_op fresh now user (OpUpdate k b) d = (r, d')"
  shows "refines fresh now user (OpUpdate k b) d r d'"
proof (cases "find (\<lambda>r. ar_id r = k) (uv_rules (view_of d (ju_sub user)))")
  case None
  with assms show ?thesis
    by (intro refinesI) (auto simp: update_alert_rule_def mapO_pair own_rule_view)
next
  case (Some rule)
  let ?rule = "touch_rule now rule (update_rule b rule)"
  have own: "own_rule k user d = Inr (Some rule)" using Some assms(1) by (simp add: own_rule_view)
  note mem = own_rule_Some [OF assms(1) own]
  show ?thesis
  proof (cases "check_rule ?rule")
    case (Some e)
    with assms own \<open>find _ _ = Some rule\<close> show ?thesis
      by (intro refinesI) (auto simp: update_alert_rule_def mapO_pair replace_row_def)
  next
    case None
    let ?rows = "map (\<lambda>x. if ar_id x = ar_id ?rule then ?rule else x) (db_rules d)"
    have rep: "replace_row ar_id check_rule ?rule (db_rules d) = Inr ?rows" using None by (simp add: replace_row_Ok)
    have out: "d' = d\<lparr>db_rules := ?rows\<rparr>" "r = crash (bindR (rule_response_of ?rule) (\<lambda>x. Ok (OneRule x)))"
      using assms(2) own rep by (simp_all add: update_alert_rule_def Let_def mapO_pair crash_bindR)
    have "db_ok d'"
      unfolding out by (rule db_ok_rules [OF assms(1) rules.replace_ok [OF db_ok_parts(1) [OF assms(1)] rep]])
    with None Some mem view_replace_rule [OF assms(1), of rule ?rule] show ?thesis
      by (intro refinesI) (auto simp: out Let_def)
  qed
qed


lemma find_id_member: "find (\<lambda>r. ar_id r = k) rows \<noteq> None \<longleftrightarrow> k \<in> ar_id ` set rows"
  by (auto simp: find_None_iff)

lemma refines_delete:
  assumes "db_ok d" "run_op fresh now user (OpDelete k) d = (r, d')"
  shows "refines fresh now user (OpDelete k) d r d'"
proof (cases "find (\<lambda>r. ar_id r = k) (uv_rules (view_of d (ju_sub user)))")
  case None
  with find_id_member [of k "uv_rules (view_of d (ju_sub user))"] assms show ?thesis
    by (intro refinesI) (auto simp: delete_alert_rule_def mapO_pair own_rule_view)
next
  case (Some rule)
  have own: "own_rule k user d = Inr (Some rule)" using Some assms(1) by (simp add: own_rule_view)
  note mem = own_rule_Some [OF assms(1) own]
  have k: "k \<in> ar_id ` set (uv_rules (view_of d (ju_sub user)))"
    using find_id_member [of k "uv_rules (view_of d (ju_sub user))"] Some by simp
  have out: "d' = d\<lparr>db_rules := delete_row ar_id (ar_id rule) (db_rules d)\<rparr>" "r = Inr Deleted"
    using assms(2) own by (simp_all add: delete_alert_rule_def mapO_pair)
  have "db_ok d'"
    unfolding out by (rule db_ok_rules [OF assms(1) rules.delete_ok [OF db_ok_parts(1) [OF assms(1)]]])
  with k mem view_delete_rule [OF assms(1), of rule] show ?thesis
    by (intro refinesI) (auto simp: out)
qed

text \<open>Both settings routes write at most one row, the caller's own.\<close>

lemma settings_update_response:
  "settings_response_of (touch_settings now s (update_settings b s)) =
     spec_settings now (ns_user_id s) b (Some (settings_response_of s))"
  by (cases s) (simp add: touch_settings_def update_settings_def settings_response_of_def spec_settings_def Let_def)

lemma settings_new_response:
  "settings_response_of (update_settings b (new_settings now u d)) = spec_settings now u b None"
  by (simp add: update_settings_def new_settings_def settings_response_of_def spec_settings_def Let_def)

lemma new_settings_key [simp]:
  "ns_user_id (update_settings b (new_settings now u d)) = u"
  "ns_id (update_settings b (new_settings now u d)) = db_next_settings_id d"
  by (simp_all add: update_settings_def new_settings_def)

lemma update_settings_none: "update_settings no_update s = s"
  by (simp add: update_settings_def no_update_def upd_def)

lemma settings_inserted:
  assumes "db_ok d" "lookup_row ns_user_id (db_settings d) (ju_sub user) = None"
    and "s = update_settings b (new_settings now (ju_sub user) d)"
  shows "(255 < length (ju_sub user) \<and> insert_settings s d = Inl DataError) \<or>
    (length (ju_sub user) \<le> 255 \<and> (\<exists>d'. insert_settings s d = Inr d' \<and> db_ok d' \<and>
       (\<forall>u. view_of d' u = (if ju_sub user = u
          then (view_of d u)\<lparr>uv_settings := Some (spec_settings now (ju_sub user) b None)\<rparr> else view_of d u))))"
proof (cases "255 < length (ju_sub user)")
  case True
  then show ?thesis by (simp add: assms(3) insert_settings_Inl insert_row_def check_settings_def)
next
  case False
  let ?d = "d\<lparr>db_settings := db_settings d @ [s], db_next_settings_id := db_next_settings_id d + 1\<rparr>"
  have "insert_settings s d = Inr ?d"
    using False assms(2) by (simp add: assms(3) insert_settings_Inr check_settings_def)
  moreover from db_ok_insert_settings [OF assms(1) this] have "db_ok ?d" by (simp add: assms(3))
  moreover have "view_of ?d u = (if ju_sub user = u
      then (view_of d u)\<lparr>uv_settings := Some (spec_settings now (ju_sub user) b None)\<rparr> else view_of d u)" for u
    using assms(2) by (subst view_insert_settings) (simp_all add: assms(3) settings_new_response)
  ultimately show ?thesis using False by auto
qed

lemma own_settings_short:
  assumes "db_ok d" "lookup_row ns_user_id (db_settings d) u = Some s"
  shows "length u \<le> 255 \<and> ns_user_id s = u"
proof -
  from lookup_row_Some [OF assms(2)] have "s \<in> set (db_settings d)" "ns_user_id s = u" by auto
  with assms(1) show ?thesis by (auto simp: db_ok_def table_ok_def check_settings_def split: if_splits)
qed

lemma refines_put:
  assumes "db_ok d" "run_op fresh now user (OpPut b) d = (r, d')"
  shows "refines fresh now user (OpPut b) d r d'"
proof (cases "lookup_row ns_user_id (db_settings d) (ju_sub user)")
  case None
  let ?s = "update_settings b (new_settings now (ju_sub user) d)"
  have "uv_settings (view_of d (ju_sub user)) = None" using None by (simp add: view_of_def)
  with settings_inserted [OF assms(1) None refl, of b now] assms None show ?thesis
    by (intro refinesI) (auto simp: update_notification_settings_def own_settings_view mapO_pair Let_def
        spec_put_def settings_new_response)
next
  case (Some s)
  let ?s = "touch_settings now s (update_settings b s)"
  let ?rows = "map (\<lambda>x. if ns_user_id x = ns_user_id ?s then ?s else x) (db_settings d)"
  note short = own_settings_short [OF assms(1) Some]
  have rep: "replace_row ns_user_id check_settings ?s (db_settings d) = Inr ?rows"
    using short by (simp add: replace_row_Ok check_settings_def)
  have out: "d' = d\<lparr>db_settings := ?rows\<rparr>" "r = Inr (Settings (settings_response_of ?s))"
    using assms Some rep by (simp_all add: update_notification_settings_def own_settings_view mapO_pair Let_def)
  have look: "lookup_row ns_user_id (db_settings d) (ns_user_id ?s) = Some s" using Some short by simp
  have "db_ok d'" unfolding out by (rule db_ok_replace_settings [OF assms(1) rep look]) simp
  moreover have "uv_settings (view_of d (ju_sub user)) = Some (settings_response_of s)"
    using Some by (simp add: view_of_def)
  moreover have "view_of d' u = (if ns_user_id ?s = u
      then (view_of d u)\<lparr>uv_settings := Some (settings_response_of ?s)\<rparr> else view_of d u)" for u
    unfolding out by (rule view_replace_settings) (simp add: look [simplified])
  ultimately show ?thesis using short
    by (intro refinesI) (auto simp: out(2) spec_put_def settings_update_response Let_def)
qed

lemma refines_get:
  assumes "db_ok d" "run_op fresh now user OpGet d = (r, d')"
  shows "refines fresh now user OpGet d r d'"
proof (cases "lookup_row ns_user_id (db_settings d) (ju_sub user)")
  case None
  have "uv_settings (view_of d (ju_sub user)) = None" using None by (simp add: view_of_def)
  with settings_inserted [OF assms(1) None, of "new_settings now (ju_sub user) d" no_update now] assms None
    settings_new_response [of no_update now "ju_sub user" d]
  show ?thesis
    by (intro refinesI) (auto simp: get_notification_settings_def own_settings_view mapO_pair Let_def
        spec_put_def update_settings_none)
next
  case (Some s)
  with assms show ?thesis
    by (intro refinesI) (auto simp: get_notification_settings_def own_settings_view mapO_pair view_of_def)
qed

lemma op_refines:
  assumes "db_ok d" "fresh \<notin> ar_id ` set (db_rules d)" "run_op fresh now user op d = (r, d')"
  shows "refines fresh now user op d r d'"
  using assms
  by (cases op) (auto intro: refines_list refines_create refines_update refines_delete refines_get refines_put
      simp del: run_op.simps)


section \<open>Reachable databases\<close>

text \<open>
  The databases that requests can reach from the empty one, whoever sends them, in any order
  (each request is answered before the next begins). The id of a new rule is drawn freely; a
  draw that is taken is refused by the primary key.
\<close>

inductive reachable :: "alerts_env \<Rightarrow> db \<Rightarrow> bool" for env where
  empty: "reachable env empty_db"
| request: "reachable env d \<Longrightarrow> alerts_api env fresh now rq call d = (r, d') \<Longrightarrow> reachable env d'"

text \<open>The rows the routes write are typed by the schemas.\<close>

definition known_hazards :: "string list \<Rightarrow> bool" where
  "known_hazards ts \<longleftrightarrow> ts \<noteq> [] \<and> set ts \<subseteq> {''wind'', ''heat''}"

definition known_threshold :: "string \<Rightarrow> bool" where
  "known_threshold t \<longleftrightarrow> t = ''ALERT'' \<or> t = ''WARNING''"

definition rule_typed :: "alert_rule \<Rightarrow> bool" where
  "rule_typed r \<longleftrightarrow>
     pred_option known_hazards (ar_risk_types r) \<and>
     (\<exists>t. ar_threshold r = Some t \<and> known_threshold t) \<and> ar_active r \<noteq> None \<and> \<not> ar_network_id_unset r"

lemma rule_typed_hazards: "rule_typed r \<Longrightarrow> \<forall>ts. ar_risk_types r = Some ts \<longrightarrow> known_hazards ts"
  by (auto simp: rule_typed_def)

lemma v_all_members: "v_all f vs = Some xs \<Longrightarrow> x \<in> set xs \<Longrightarrow> \<exists>v \<in> set vs. f v = Some x"
  by (induction vs arbitrary: xs) (auto simp: bind_eq_Some_conv)

lemma v_literal_Some: "v_literal allowed v = Some s \<Longrightarrow> s \<in> set allowed"
  by (auto simp: v_literal_def split: pyval.splits if_splits)

lemma v_risk_types_Some:
  assumes "v_risk_types v = Some ts"
  shows "known_hazards ts"
proof -
  from assms obtain vs where "v_all (v_literal [''wind'', ''heat'']) vs = Some ts" and ne: "ts \<noteq> []"
    by (auto simp: v_risk_types_def bind_eq_Some_conv split: pyval.splits if_splits)
  then have "t \<in> set [''wind'', ''heat'']" if "t \<in> set ts" for t
    using v_all_members [OF _ that] v_literal_Some by blast
  with ne show ?thesis unfolding known_hazards_def by (metis list.set(1) list.simps(15) subsetI)
qed

lemma v_threshold_Some: "v_threshold v = Some t \<Longrightarrow> known_threshold t"
  by (auto simp: v_threshold_def known_threshold_def dest: v_literal_Some)

lemma v_field_Value: "v_field f d k = Some (Value x) \<Longrightarrow> \<exists>v. f v = Some x"
  by (auto simp: v_field_def split: option.splits if_splits)

definition create_typed :: "rule_create \<Rightarrow> bool" where
  "create_typed b \<longleftrightarrow> known_hazards (rc_risk_types b) \<and> known_threshold (rc_threshold b)"

definition update_typed :: "rule_update \<Rightarrow> bool" where
  "update_typed b \<longleftrightarrow> (\<forall>ts. ru_risk_types b = Value ts \<longrightarrow> known_hazards ts) \<and>
     (\<forall>t. ru_threshold b = Value t \<longrightarrow> known_threshold t)"

lemma validate_create_typed: "validate_rule_create vb v = Some b \<Longrightarrow> create_typed b"
  by (auto simp: validate_rule_create_def create_typed_def bind_eq_Some_conv
      dest: v_risk_types_Some v_threshold_Some split: pyval.splits)

lemma validate_update_typed: "validate_rule_update vb v = Some b \<Longrightarrow> update_typed b"
  by (auto simp: validate_rule_update_def update_typed_def bind_eq_Some_conv
      dest: v_risk_types_Some v_threshold_Some dest!: v_field_Value split: pyval.splits)

lemma validated_Inr: "validated f b = Inr x \<longleftrightarrow> (\<exists>v. b = JsonBody v \<and> f v = Some x)"
  by (auto simp: validated_def split: body.splits option.splits)

lemma parse_call_typed:
  assumes "parse_call env call = Inr op"
  shows "(\<forall>b. op = OpCreate b \<longrightarrow> create_typed b) \<and> (\<forall>k b. op = OpUpdate k b \<longrightarrow> update_typed b)"
  using assms by (cases call) (auto simp: bindR_Ok_iff validated_Inr intro: validate_create_typed validate_update_typed)

lemma new_rule_typed: "create_typed b \<Longrightarrow> rule_typed (new_rule fresh now u n b)"
  by (simp add: create_typed_def rule_typed_def new_rule_def)

text \<open>What a PATCH leaves in the fields it may name.\<close>

lemma patched_fields:
  "ar_risk_types (touch_rule now r (update_rule b r)) = upd (ru_risk_types b) (ar_risk_types r)"
  "ar_threshold (touch_rule now r (update_rule b r)) = upd (ru_threshold b) (ar_threshold r)"
  "ar_recipients (touch_rule now r (update_rule b r)) = upd (ru_recipients b) (ar_recipients r)"
  "ar_active (touch_rule now r (update_rule b r)) = upd (ru_active b) (ar_active r)"
  by (cases r; simp add: touch_rule_def update_rule_def)+

lemma check_rule_None:
  "check_rule r = None \<Longrightarrow> ar_threshold r \<noteq> None \<and> ar_active r \<noteq> None"
  by (auto simp: check_rule_def split: if_splits)

lemma update_rule_typed:
  assumes "rule_typed r" "update_typed b" "check_rule (touch_rule now r (update_rule b r)) = None"
  shows "rule_typed (touch_rule now r (update_rule b r))"
proof -
  have "pred_option known_hazards (upd (ru_risk_types b) (ar_risk_types r))"
    using assms(1,2) by (auto simp: rule_typed_def update_typed_def upd_def split: field_update.splits)
  moreover have "\<exists>t. upd (ru_threshold b) (ar_threshold r) = Some t \<and> known_threshold t"
    using assms check_rule_None [OF assms(3)]
    by (auto simp: rule_typed_def update_typed_def patched_fields upd_def split: field_update.splits)
  ultimately show ?thesis using assms(1) check_rule_None [OF assms(3)]
    by (simp add: rule_typed_def patched_fields)
qed

section \<open>Which rules an operation leaves\<close>

text \<open>The only rules an operation can add to the table.\<close>

lemma run_op_rules:
  assumes "run_op fresh now user op d = (r, d')" "x \<in> set (db_rules d')" "x \<notin> set (db_rules d)"
  shows "(\<exists>b n. op = OpCreate b \<and> resolve_dso_network user = Inr n \<and> x = new_rule fresh now (ju_sub user) n b \<and>
      check_rule x = None) \<or>
    (\<exists>k b rule. op = OpUpdate k b \<and> own_rule k user d = Inr (Some rule) \<and>
      x = touch_rule now rule (update_rule b rule) \<and> check_rule x = None)"
  using assms
proof (cases op)
  case (OpCreate b)
  with assms show ?thesis
    by (auto simp: create_alert_rule_def mapO_pair Let_def insert_row_Ok split: sum.splits)
next
  case (OpUpdate k b)
  with assms show ?thesis
    by (auto simp: update_alert_rule_def mapO_pair Let_def replace_row_Ok split: sum.splits option.splits if_splits)
qed (auto simp: list_alert_rules_def delete_alert_rule_def get_notification_settings_def
    update_notification_settings_def mapO_pair Let_def insert_settings_Inr replace_row_Ok delete_row_def
    split: sum.splits option.splits)


section \<open>Invariants\<close>

lemma run_op_ok:
  assumes "db_ok d" "run_op fresh now user op d = (r, d')"
  shows "db_ok d'"
proof (cases "fresh \<in> ar_id ` set (db_rules d) \<and> (\<exists>b. op = OpCreate b)")
  case True
  with assms show ?thesis
    by (auto simp: create_alert_rule_def mapO_pair Let_def insert_row_Ok new_rule_def split: sum.splits)
next
  case False
  show ?thesis
  proof (cases "\<exists>b. op = OpCreate b")
    case True
    with False op_refines [OF assms(1) _ assms(2)] show ?thesis by (simp add: refines_def)
  next
    case no_create: False
    obtain other where other: "other \<notin> ar_id ` set (db_rules d)"
      using ex_new_if_finite [of "ar_id ` set (db_rules d)"] by auto
    have "run_op other now user op d = (r, d')" using assms(2) no_create by (cases op) auto
    with op_refines [OF assms(1) other this] show ?thesis by (simp add: refines_def)
  qed
qed

lemma run_op_typed:
  assumes "db_ok d" "\<forall>x \<in> set (db_rules d). rule_typed x" "parse_call env call = Inr op"
    and "run_op fresh now user op d = (r, d')" "x \<in> set (db_rules d')"
  shows "rule_typed x"
proof (cases "x \<in> set (db_rules d)")
  case False
  note typed = parse_call_typed [OF assms(3)]
  from run_op_rules [OF assms(4,5) False] show ?thesis
  proof (elim disjE exE conjE)
    fix b n assume "op = OpCreate b" "x = new_rule fresh now (ju_sub user) n b"
    then show ?thesis using typed new_rule_typed by blast
  next
    fix k b rule
    assume op: "op = OpUpdate k b" and own: "own_rule k user d = Inr (Some rule)"
      and x: "x = touch_rule now rule (update_rule b rule)" and c: "check_rule x = None"
    have "rule_typed rule" using own_rule_Some [OF assms(1) own] assms(2) by blast
    then show ?thesis using update_rule_typed typed op c unfolding x by blast
  qed
qed (use assms(2) in blast)

lemma reachable_invariant:
  assumes "reachable env d"
  shows "db_ok d \<and> (\<forall>x \<in> set (db_rules d). rule_typed x)"
  using assms
proof (induction rule: reachable.induct)
  case empty
  then show ?case by (simp add: empty_db_ok) (simp add: empty_db_def)
next
  case (request d fresh now rq call r d')
  from request.hyps(2) show ?case
  proof (cases rule: alerts_api_cases)
    case (run user op)
    with request.IH show ?thesis using run_op_ok run_op_typed by blast
  qed (use request.IH in auto)
qed

section \<open>Failures\<close>

lemma run_op_Inl:
  assumes "db_ok d" "run_op fresh now user op d = (Inl f, d')"
  shows "d' = d \<or> (\<exists>k b rule. op = OpUpdate k b \<and> f = Crash ResponseValidationError \<and>
    own_rule k user d = Inr (Some rule) \<and> rule_response_of (touch_rule now rule (update_rule b rule)) = Inl ResponseValidationError)"
  using assms(2)
proof (cases op)
  case (OpCreate b)
  have "rule_response_of (new_rule fresh now u n b) \<noteq> Inl e" for u n e
    by (simp add: rule_response_of_def new_rule_def)
  with OpCreate assms(2) show ?thesis
    by (auto simp: create_alert_rule_def mapO_pair Let_def crash_Inl_iff split: sum.splits)
next
  case (OpUpdate k b)
  have e: "e = ResponseValidationError" if "rule_response_of x = Inl e" for x e
    using that by (auto simp: rule_response_of_def split: option.splits)
  from OpUpdate assms(2) e show ?thesis
    by (fastforce simp: update_alert_rule_def mapO_pair Let_def crash_Inl_iff split: sum.splits option.splits)
qed (auto simp: list_alert_rules_def delete_alert_rule_def get_notification_settings_def
    update_notification_settings_def mapO_pair Let_def split: sum.splits option.splits)


section \<open>Samples\<close>

definition sample_alerts_env :: alerts_env where
  "sample_alerts_env = \<lparr>ae_auth = sample_auth,
     ae_bool = (\<lambda>v. case v of VBool b \<Rightarrow> Some b | _ \<Rightarrow> None),
     ae_uuid = (\<lambda>s. if s = ''r7'' then Some 7 else None)\<rparr>"

definition sample_call :: alerts_call where
  "sample_call = CreateRule (JsonBody (VDict [(''risk_types'', VList [VStr ''wind'']), (''threshold'', VStr ''ALERT'')]))"

definition sample_create :: rule_create where
  "sample_create = \<lparr>rc_risk_types = [''wind''], rc_threshold = ''ALERT'', rc_recipients = None, rc_active = True\<rparr>"

definition sample_created :: alert_rule where
  "sample_created = new_rule 7 5 ''op'' ''net'' sample_create"

definition null_hazards :: rule_update where
  "null_hazards = \<lparr>ru_risk_types = Null, ru_threshold = Unset, ru_recipients = Unset, ru_active = Unset\<rparr>"

lemma sample_parse: "parse_call sample_alerts_env sample_call = Inr (OpCreate sample_create)"
  by (simp add: sample_call_def sample_create_def validated_def validate_rule_create_def dict_get_def
      v_risk_types_def v_literal_def v_threshold_def v_field_def)

lemma sample_fields [simp]:
  "ju_sub (sample_user orgs claims b) = ''op''" "ar_id sample_created = 7" "ar_user_id sample_created = ''op''"
  by (simp_all add: sample_user_def sample_created_def new_rule_def)

lemma sample_created_ok: "check_rule sample_created = None" "\<exists>x. rule_response_of sample_created = Inr x"
  by (simp_all add: sample_created_def new_rule_def sample_create_def check_rule_def rule_response_of_def)

lemma sample_guard: "call_guard sample_alerts_env sample_request sample_call = Inr (sample_user [''net''] [] False)"
  using sample_write by (simp add: sample_call_def sample_alerts_env_def)

lemma sample_api_at:
  "\<exists>x. rule_response_of (new_rule 7 now ''op'' ''net'' sample_create) = Inr x \<and>
     alerts_api sample_alerts_env 7 now sample_request sample_call empty_db =
       (Inr (OneRule x), empty_db\<lparr>db_rules := [new_rule 7 now ''op'' ''net'' sample_create]\<rparr>)"
proof -
  let ?rule = "new_rule 7 now ''op'' ''net'' sample_create"
  have n: "resolve_dso_network (sample_user [''net''] [] False) = Inr ''net''"
    by (simp add: resolve_dso_network_def sample_networks)
  have c: "check_rule ?rule = None" by (simp add: new_rule_def sample_create_def check_rule_def)
  obtain x where x: "rule_response_of ?rule = Inr x"
    by (simp add: new_rule_def sample_create_def rule_response_of_def)
  with c have "create_alert_rule 7 now sample_create (sample_user [''net''] [] False) empty_db =
      (Inr x, empty_db\<lparr>db_rules := [?rule]\<rparr>)"
    by (simp add: create_alert_rule_def n Let_def insert_row_def empty_db_def)
  moreover have "call_body sample_call \<noteq> BadJson" by (simp add: sample_call_def)
  ultimately show ?thesis
    using x by (simp add: alerts_api_def alerts_handler_run sample_guard sample_parse mapO_pair)
qed

lemma sample_api:
  "\<exists>x. alerts_api sample_alerts_env 7 5 sample_request sample_call empty_db =
     (Inr (OneRule x), empty_db\<lparr>db_rules := [sample_created]\<rparr>)"
  using sample_api_at [of 5] by (auto simp: sample_created_def)

lemma create_stores:
  assumes "alerts_api env fresh now rq (CreateRule b) d = (Inr a, d')"
  obtains user n x y where "require_alerts_write (ae_auth env) rq = Inr user" "resolve_dso_network user = Inr n"
    "create_typed x" "d' = d\<lparr>db_rules := db_rules d @ [new_rule fresh now (ju_sub user) n x]\<rparr>"
    "a = OneRule y" "rule_response_of (new_rule fresh now (ju_sub user) n x) = Inr y"
  using assms
proof (cases rule: alerts_api_cases)
  case (run user op)
  from run(2) obtain x where op: "op = OpCreate x" by (auto simp: bindR_Ok_iff)
  have typed: "create_typed x" using parse_call_typed [OF run(2)] op by blast
  from run(1) have w: "require_alerts_write (ae_auth env) rq = Inr user" by simp
  from run(3) op obtain n y where "resolve_dso_network user = Inr n" "a = OneRule y"
    "rule_response_of (new_rule fresh now (ju_sub user) n x) = Inr y"
    "d' = d\<lparr>db_rules := db_rules d @ [new_rule fresh now (ju_sub user) n x]\<rparr>"
    by (auto simp: create_alert_rule_def mapO_pair Let_def insert_row_Ok crash_Inr_iff split: sum.splits)
  with that w typed show thesis by blast
qed simp

section \<open>Properties\<close>

text \<open>
  C2: the six routes refine the specification of a private collection per operator: on a
  well-formed database a request is refused without effect, or it is one validated
  operation of one caller, answered from and applied to that caller's view exactly as
  specified, with every other operator's view untouched.
\<close>

theorem handlers_refine:
  assumes "db_ok d" "fresh \<notin> ar_id ` set (db_rules d)" "alerts_api env fresh now rq call d = (r, d')"
  shows "(\<exists>f. r = Inl f \<and> failure_status f \<in> {401, 403, 422} \<and> d' = d) \<or>
    (\<exists>user op. call_guard env rq call = Inr user \<and> parse_call env call = Inr op \<and>
       spec_op fresh now (ju_sub user) (resolve_dso_network user) op (view_of d (ju_sub user)) =
         (r, view_of d' (ju_sub user)) \<and>
       (\<forall>u. u \<noteq> ju_sub user \<longrightarrow> view_of d' u = view_of d u))"
  using assms(3)
proof (cases rule: alerts_api_cases)
  case (run user op)
  with op_refines [OF assms(1,2) run(3)] show ?thesis unfolding refines_def by blast
qed blast

theorem handlers_refine_witness:
  "view_of (snd (alerts_api sample_alerts_env 7 5 sample_request sample_call empty_db)) ''other'' =
     view_of empty_db ''other''"
proof -
  obtain x where x: "alerts_api sample_alerts_env 7 5 sample_request sample_call empty_db =
      (Inr (OneRule x), empty_db\<lparr>db_rules := [sample_created]\<rparr>)" using sample_api by blast
  have "7 \<notin> ar_id ` set (db_rules empty_db)" by (simp add: empty_db_def)
  from handlers_refine [OF empty_db_ok this x] show ?thesis
    unfolding x sample_guard by (elim disjE exE conjE) auto
qed

text \<open>
  Whatever requests arrive, in whatever order and from whomever, both tables stay well
  formed (unique keys, no missing column, lengths in bounds) and every rule is typed: its
  hazards are a non-empty choice of wind and heat, or the JSON null, and its threshold is
  ALERT or WARNING.
\<close>

theorem reachable_well_formed:
  assumes "reachable env d"
  shows "db_ok d \<and> (\<forall>x \<in> set (db_rules d).
    (\<forall>ts. ar_risk_types x = Some ts \<longrightarrow> ts \<noteq> [] \<and> set ts \<subseteq> {''wind'', ''heat''}) \<and>
    ar_threshold x \<in> {Some ''ALERT'', Some ''WARNING''} \<and> ar_active x \<noteq> None \<and> \<not> ar_network_id_unset x)"
proof (intro conjI ballI)
  note inv = reachable_invariant [OF assms]
  then show "db_ok d" by blast
  fix x assume "x \<in> set (db_rules d)"
  with inv have x: "rule_typed x" by blast
  show "\<forall>ts. ar_risk_types x = Some ts \<longrightarrow> ts \<noteq> [] \<and> set ts \<subseteq> {''wind'', ''heat''}"
    using rule_typed_hazards [OF x] by (simp only: known_hazards_def simp_thms)
  show "ar_threshold x \<in> {Some ''ALERT'', Some ''WARNING''}" "ar_active x \<noteq> None" "\<not> ar_network_id_unset x"
    using x by (auto simp: rule_typed_def known_threshold_def)
qed

lemma sample_reachable: "reachable sample_alerts_env (empty_db\<lparr>db_rules := [sample_created]\<rparr>)"
  using sample_api reachable.request [OF reachable.empty] by blast

theorem reachable_well_formed_witness:
  "db_ok (empty_db\<lparr>db_rules := [sample_created]\<rparr>) \<and> ar_threshold sample_created \<in> {Some ''ALERT'', Some ''WARNING''}"
  using reachable_well_formed [OF sample_reachable] by simp

text \<open>
  C16: a POST that succeeds stores exactly one new row, owned by the verified caller and for
  that caller's one DSO network; nothing in the body can choose owner or network.
\<close>

theorem created_rule_is_owned:
  assumes "alerts_api env fresh now rq (CreateRule b) d = (Inr a, d')"
    and "a_engine (ae_auth env) = Some rego_decision" "\<not> a_is_dev (ae_auth env)"
  shows "\<exists>t user n rule. extract_token (a_header (ae_auth env)) rq = Some t \<and>
    a_from_token (ae_auth env) t = Inr user \<and> dso_networks user = [n] \<and>
    db_rules d' = db_rules d @ [rule] \<and> db_settings d' = db_settings d \<and>
    ar_user_id rule = ju_sub user \<and> ar_network_id rule = n \<and> rule_typed rule"
proof -
  obtain user n x where w: "require_alerts_write (ae_auth env) rq = Inr user" and n: "resolve_dso_network user = Inr n"
    and typed: "create_typed x" and d': "d' = d\<lparr>db_rules := db_rules d @ [new_rule fresh now (ju_sub user) n x]\<rparr>"
    by (rule create_stores [OF assms(1)])
  from w obtain t where t: "extract_token (a_header (ae_auth env)) rq = Some t" "a_from_token (ae_auth env) t = Inr user"
    by (auto simp: require_alerts_write_def bindR_Ok_iff enforce_Inr require_user_Inr)
  let ?rule = "new_rule fresh now (ju_sub user) n x"
  from write_guard_cases [OF w assms(2,3)] n have own: "dso_networks user = [n]" by auto
  have "db_rules d' = db_rules d @ [?rule]" "db_settings d' = db_settings d" "ar_user_id ?rule = ju_sub user"
    "ar_network_id ?rule = n" by (simp_all add: d' new_rule_def)
  with t own new_rule_typed [OF typed, of fresh now "ju_sub user" n] show ?thesis by blast
qed

theorem created_rule_is_owned_witness:
  "\<exists>d' rule. snd (alerts_api sample_alerts_env 7 5 sample_request sample_call empty_db) = d' \<and>
     db_rules d' = [rule] \<and> rule_typed rule"
proof -
  obtain x where x: "alerts_api sample_alerts_env 7 5 sample_request sample_call empty_db =
      (Inr (OneRule x), empty_db\<lparr>db_rules := [sample_created]\<rparr>)" using sample_api by blast
  have "a_engine (ae_auth sample_alerts_env) = Some rego_decision" "\<not> a_is_dev (ae_auth sample_alerts_env)"
    by (simp_all add: sample_alerts_env_def sample_auth_def)
  from created_rule_is_owned [OF x [unfolded sample_call_def] this] show ?thesis
    using x by (auto simp: sample_call_def empty_db_def)
qed


text \<open>
  C17: a PATCH that succeeds changes the fields it names, and only those, of the caller's own
  rule: id, owner, network and creation time stay, as do every other row and the settings;
  its answer is the row it stored. A rule of someone else is as good as absent.
\<close>

theorem patch_frame:
  assumes "db_ok d" "update_alert_rule now k b user d = (Inr x, d')"
  shows "\<exists>old new. lookup_row ar_id (db_rules d) k = Some old \<and> lookup_row ar_id (db_rules d') k = Some new \<and>
    ar_user_id old = ju_sub user \<and> rule_response_of new = Inr x \<and>
    (ar_id new, ar_user_id new, ar_network_id new, ar_created_at new) =
      (ar_id old, ar_user_id old, ar_network_id old, ar_created_at old) \<and>
    ar_risk_types new = upd (ru_risk_types b) (ar_risk_types old) \<and>
    ar_threshold new = upd (ru_threshold b) (ar_threshold old) \<and>
    ar_recipients new = upd (ru_recipients b) (ar_recipients old) \<and>
    ar_active new = upd (ru_active b) (ar_active old) \<and>
    (\<forall>k'. k' \<noteq> k \<longrightarrow> lookup_row ar_id (db_rules d') k' = lookup_row ar_id (db_rules d) k') \<and>
    db_settings d' = db_settings d"
proof -
  obtain rule where own: "own_rule k user d = Inr (Some rule)"
    using assms by (auto simp: update_alert_rule_def own_rule_view split: option.splits)
  let ?new = "touch_rule now rule (update_rule b rule)"
  from own assms(2) obtain rows where rep: "replace_row ar_id check_rule ?new (db_rules d) = Inr rows"
    and d': "d' = d\<lparr>db_rules := rows\<rparr>" and x: "rule_response_of ?new = Inr x"
    by (auto simp: update_alert_rule_def Let_def crash_Inr_iff split: sum.splits)
  note mem = own_rule_Some [OF assms(1) own]
  have old: "lookup_row ar_id (db_rules d) k = Some rule"
    using lookup_row_distinct [OF db_ok_distinct(1) [OF assms(1)]] mem by blast
  have new: "lookup_row ar_id rows k = Some ?new"
    using rules.replace_lookup [OF rep, of k] old mem by simp
  have others: "lookup_row ar_id rows k' = lookup_row ar_id (db_rules d) k'" if "k' \<noteq> k" for k'
    using rules.replace_lookup [OF rep, of k'] mem that by simp
  show ?thesis using old new others mem x by (simp add: d' patched_fields)
qed

theorem patch_frame_witness:
  "\<exists>x d'. update_alert_rule 9 7 (null_hazards\<lparr>ru_risk_types := Value [''heat'']\<rparr>) (sample_user [''net''] [] False)
      (empty_db\<lparr>db_rules := [sample_created]\<rparr>) = (Inr x, d') \<and>
     (\<exists>new. lookup_row ar_id (db_rules d') 7 = Some new \<and> ar_risk_types new = Some [''heat''] \<and>
        ar_threshold new = Some ''ALERT'')"
proof -
  let ?b = "null_hazards\<lparr>ru_risk_types := Value [''heat'']\<rparr>" and ?u = "sample_user [''net''] [] False"
  let ?d = "empty_db\<lparr>db_rules := [sample_created]\<rparr>"
  have ok: "db_ok ?d" using reachable_invariant [OF sample_reachable] by blast
  have own: "own_rule 7 ?u ?d = Inr (Some sample_created)" by (simp add: own_rule_def scalar_one_or_none_def)
  have "check_rule (touch_rule 9 sample_created (update_rule ?b sample_created)) = None"
    "\<exists>x. rule_response_of (touch_rule 9 sample_created (update_rule ?b sample_created)) = Inr x"
    by (simp_all add: check_rule_def rule_response_of_def patched_fields upd_def null_hazards_def)
      (auto simp: sample_created_def new_rule_def sample_create_def intro: exI [of _ True])
  then obtain x d' where u: "update_alert_rule 9 7 ?b ?u ?d = (Inr x, d')"
    using own by (auto simp: update_alert_rule_def Let_def replace_row_def)
  from patch_frame [OF ok u] obtain old new where
    "lookup_row ar_id (db_rules ?d) 7 = Some old" "lookup_row ar_id (db_rules d') 7 = Some new"
    "ar_risk_types new = upd (ru_risk_types ?b) (ar_risk_types old)" "ar_threshold new = upd (ru_threshold ?b) (ar_threshold old)"
    by blast
  with u show ?thesis
    by (auto simp: lookup_row_def upd_def null_hazards_def) (simp add: sample_created_def new_rule_def sample_create_def)
qed

text \<open>
  The one failure that is stored: the hazards of the caller's own rule \<open>k\<close> become null, the
  other fields are those of the body, and no other row is touched.
\<close>

lemma stored_failure:
  assumes "db_ok d" "own_rule k user d = Inr (Some rule)"
    and "update_alert_rule now k b user d = (Inl f, d')" "d' \<noteq> d"
  shows "upd (ru_risk_types b) (ar_risk_types rule) = None \<and> f = Crash ResponseValidationError \<and>
    d' = d\<lparr>db_rules := map (\<lambda>r. if ar_id r = k
      then (update_rule b rule)\<lparr>ar_updated_at := now\<rparr> else r) (db_rules d)\<rparr>"
proof -
  let ?new = "touch_rule now rule (update_rule b rule)"
  note mem = own_rule_Some [OF assms(1,2)]
  from assms(2-4) have ok: "check_rule ?new = None" and bad: "\<exists>e. rule_response_of ?new = Inl e"
    and f: "f = Crash ResponseValidationError"
    and d': "d' = d\<lparr>db_rules := map (\<lambda>r. if ar_id r = k then ?new else r) (db_rules d)\<rparr>"
    using mem by (auto simp: update_alert_rule_def Let_def replace_row_def crash_Inl_iff rule_response_of_def
        split: option.splits)
  have none: "ar_risk_types ?new = None"
    using bad check_rule_None [OF ok] by (cases "ar_risk_types ?new") (auto simp: rule_response_of_def)
  have "?new \<noteq> rule"
  proof
    assume same: "?new = rule"
    have "r = rule" if "r \<in> set (db_rules d)" "ar_id r = k" for r
      using that mem db_ok_distinct(1) [OF assms(1)] by (metis eq_key_imp_eq_value inj_on_contraD distinct_map)
    then have "map (\<lambda>r. if ar_id r = k then ?new else r) (db_rules d) = db_rules d"
      unfolding same by (intro map_idI) auto
    with d' assms(4) show False by simp
  qed
  then have "?new = (update_rule b rule)\<lparr>ar_updated_at := now\<rparr>" by (auto simp: touch_rule_def)
  with f d' none show ?thesis by (simp add: update_rule_def)
qed

text \<open>
  C18: a request that is not answered with success leaves the database as it was, with one
  exception: a valid PATCH of the rule \<open>k\<close> its path names, a rule of the caller's own, that
  leaves the hazards of that rule null. It is answered with a 500, and what it stores is that
  rule with null hazards, the other fields as the body says and the time of the update, every
  other row of both tables being kept.
\<close>

theorem failures_change_nothing:
  assumes "reachable env d" "alerts_api env fresh now rq call d = (Inl f, d')"
  shows "d' = d \<or>
    (\<exists>i v user b k rule. call = UpdateRule i (JsonBody v) \<and> ae_uuid env i = Some k \<and>
       validate_rule_update (ae_bool env) v = Some b \<and> call_guard env rq call = Inr user \<and>
       f = Crash ResponseValidationError \<and> failure_status f = 500 \<and>
       lookup_row ar_id (db_rules d) k = Some rule \<and> ar_user_id rule = ju_sub user \<and>
       upd (ru_risk_types b) (ar_risk_types rule) = None \<and>
       d' = d\<lparr>db_rules := map (\<lambda>r. if ar_id r = k
         then rule\<lparr>ar_risk_types := None, ar_threshold := upd (ru_threshold b) (ar_threshold rule),
           ar_recipients := upd (ru_recipients b) (ar_recipients rule),
           ar_active := upd (ru_active b) (ar_active rule), ar_updated_at := now\<rparr>
         else r) (db_rules d)\<rparr>)"
  using assms(2)
proof (cases rule: alerts_api_cases)
  case (run user op)
  note inv = conjunct1 [OF reachable_invariant [OF assms(1)]]
  show ?thesis
  proof (cases "d' = d")
    case False
    with run_op_Inl [OF inv run(3)] obtain k b rule where op: "op = OpUpdate k b"
      and own: "own_rule k user d = Inr (Some rule)" by blast
    from run(3) have "update_alert_rule now k b user d = (Inl f, d')"
      by (cases "update_alert_rule now k b user d") (auto simp: op mapO_def split: sum.splits)
    note st = stored_failure [OF inv own this False]
    from run(2) op obtain i v where call: "call = UpdateRule i (JsonBody v)" "ae_uuid env i = Some k"
      and v: "validate_rule_update (ae_bool env) v = Some b"
      by (cases call) (auto simp: bindR_Ok_iff validated_Inr path_id_def split: option.splits)
    have "lookup_row ar_id (db_rules d) k = Some rule" "ar_user_id rule = ju_sub user"
      using lookup_row_distinct [OF db_ok_distinct(1) [OF inv]] own_rule_Some [OF inv own] by auto
    with call v st run(1) show ?thesis by (auto simp: update_rule_def)
  qed blast
qed blast

text \<open>The exception happens: the hazards of a stored rule are set to null.\<close>

definition null_patch :: alerts_call where
  "null_patch = UpdateRule ''r7'' (JsonBody (VDict [(''risk_types'', VNone)]))"

lemma null_patch_stored:
  "alerts_api sample_alerts_env 8 9 sample_request null_patch (empty_db\<lparr>db_rules := [sample_created]\<rparr>) =
     (Inl (Crash ResponseValidationError),
      empty_db\<lparr>db_rules := [sample_created\<lparr>ar_risk_types := None, ar_updated_at := 9\<rparr>]\<rparr>)"
proof -
  let ?d = "empty_db\<lparr>db_rules := [sample_created]\<rparr>" and ?u = "sample_user [''net''] [] False"
  have g: "call_guard sample_alerts_env sample_request null_patch = Inr ?u"
    using sample_write by (simp add: sample_alerts_env_def null_patch_def)
  have p: "parse_call sample_alerts_env null_patch = Inr (OpUpdate 7 null_hazards)"
    by (simp add: sample_alerts_env_def null_patch_def path_id_def validated_def validate_rule_update_def
        v_field_def dict_get_def null_hazards_def)
  have own: "own_rule 7 ?u ?d = Inr (Some sample_created)" by (simp add: own_rule_def scalar_one_or_none_def)
  have new: "touch_rule 9 sample_created (update_rule null_hazards sample_created) =
      sample_created\<lparr>ar_risk_types := None, ar_updated_at := 9\<rparr>"
    by (simp add: touch_rule_def update_rule_def null_hazards_def upd_def sample_created_def new_rule_def)
  have check: "check_rule (sample_created\<lparr>ar_risk_types := None, ar_updated_at := 9\<rparr>) = check_rule sample_created"
    by (simp add: check_rule_def)
  have "update_alert_rule 9 7 null_hazards ?u ?d = (Inl (Crash ResponseValidationError),
      ?d\<lparr>db_rules := [sample_created\<lparr>ar_risk_types := None, ar_updated_at := 9\<rparr>]\<rparr>)"
    using sample_created_ok(1) check [symmetric]
    by (simp add: update_alert_rule_def own new replace_row_def rule_response_of_def crash_def)
  then show ?thesis
    by (simp add: alerts_api_def alerts_handler_run g p mapO_pair del: parse_call.simps call_guard.simps)
      (simp add: null_patch_def)
qed

lemma changed_time: "r\<lparr>ar_risk_types := t, ar_updated_at := n\<rparr> = r' \<Longrightarrow> ar_updated_at r' = n"
  by auto

theorem failures_change_nothing_witness:
  "\<exists>f d' k rule. alerts_api sample_alerts_env 8 9 sample_request null_patch (empty_db\<lparr>db_rules := [sample_created]\<rparr>) = (Inl f, d') \<and>
     d' \<noteq> empty_db\<lparr>db_rules := [sample_created]\<rparr> \<and> failure_status f = 500 \<and> ae_uuid sample_alerts_env ''r7'' = Some k \<and>
     lookup_row ar_id [sample_created] k = Some rule \<and> map ar_risk_types (db_rules d') = [None]"
proof -
  let ?d = "empty_db\<lparr>db_rules := [sample_created]\<rparr>"
    and ?d' = "empty_db\<lparr>db_rules := [sample_created\<lparr>ar_risk_types := None, ar_updated_at := 9\<rparr>]\<rparr>"
  have "ar_updated_at sample_created = 5" by (simp add: sample_created_def new_rule_def)
  then have "sample_created\<lparr>ar_risk_types := None, ar_updated_at := 9\<rparr> \<noteq> sample_created"
    using changed_time [where r = sample_created and n = 9 and r' = sample_created] by auto
  then have "?d' \<noteq> ?d" by (simp add: empty_db_def)
  with failures_change_nothing [OF sample_reachable null_patch_stored] obtain k rule where
    "ae_uuid sample_alerts_env ''r7'' = Some k" "lookup_row ar_id (db_rules ?d) k = Some rule"
    by (simp only: simp_thms null_patch_def alerts_call.inject) blast
  with \<open>?d' \<noteq> ?d\<close> null_patch_stored show ?thesis by simp
qed

text \<open>
  Setting the hazards of a rule to null is accepted by validation and by the JSON column:
  the PATCH is answered 500 but stored, and from then on listing the caller's rules is a 500
  as well.
\<close>

theorem null_hazards_break_list:
  assumes "db_ok d" "own_rule k user d = Inr (Some rule)" "check_rule rule = None"
  shows "\<exists>d'. update_alert_rule now k null_hazards user d = (Inl (Crash ResponseValidationError), d') \<and>
    failure_status (Crash ResponseValidationError) = 500 \<and>
    (\<exists>e. fst (list_alert_rules user d') = Inl (Crash e))"
proof -
  let ?new = "touch_rule now rule (update_rule null_hazards rule)"
  let ?rows = "map (\<lambda>x. if ar_id x = ar_id ?new then ?new else x) (db_rules d)"
  note mem = own_rule_Some [OF assms(1,2)]
  have fields: "ar_risk_types ?new = None" "ar_threshold ?new = ar_threshold rule" "ar_active ?new = ar_active rule"
    by (simp_all add: patched_fields null_hazards_def upd_def)
  have "check_rule ?new = check_rule rule" by (simp add: check_rule_def fields)
  then have "check_rule ?new = None" using assms(3) by simp
  then have rep: "replace_row ar_id check_rule ?new (db_rules d) = Inr ?rows" by (simp add: replace_row_Ok)
  have bad: "rule_response_of ?new = Inl ResponseValidationError" using fields by (simp add: rule_response_of_def)
  let ?d = "d\<lparr>db_rules := ?rows\<rparr>"
  have up: "update_alert_rule now k null_hazards user d = (Inl (Crash ResponseValidationError), ?d)"
    using assms(2) rep bad by (simp add: update_alert_rule_def Let_def)
  have new: "?new \<in> set ?rows" using mem by force
  have "\<exists>e. fst (list_alert_rules user ?d) = Inl (Crash e)"
  proof (cases "fst (list_alert_rules user ?d)")
    case (Inl f)
    then show ?thesis by (auto simp: list_alert_rules_def crash_Inl_iff)
  next
    case (Inr rs)
    then have m: "mapR rule_response_of (sort_key ar_created_at (filter (\<lambda>r. ar_user_id r = ju_sub user) ?rows)) = Inr rs"
      by (simp add: list_alert_rules_def crash_Inr_iff)
    have "?new \<in> set (sort_key ar_created_at (filter (\<lambda>r. ar_user_id r = ju_sub user) ?rows))"
      using new mem by simp
    from mapR_set' [OF m this] bad show ?thesis by auto
  qed
  with up show ?thesis by simp
qed

theorem null_hazards_break_list_witness:
  "\<exists>d' e. update_alert_rule 9 7 null_hazards (sample_user [''net''] [] False)
      (empty_db\<lparr>db_rules := [sample_created]\<rparr>) = (Inl (Crash ResponseValidationError), d') \<and>
     fst (list_alert_rules (sample_user [''net''] [] False) d') = Inl (Crash e)"
proof -
  have ok: "db_ok (empty_db\<lparr>db_rules := [sample_created]\<rparr>)" using reachable_invariant [OF sample_reachable] by blast
  have own: "own_rule 7 (sample_user [''net''] [] False) (empty_db\<lparr>db_rules := [sample_created]\<rparr>) =
      Inr (Some sample_created)" by (simp add: own_rule_def scalar_one_or_none_def)
  from null_hazards_break_list [OF ok own sample_created_ok(1)] show ?thesis by blast
qed

end
