(* ===== verification/GridProxy.thy ===== *)
theory GridProxy
  imports Identity
begin

text \<open>
  \<open>src/celine/grid/api/grid.py\<close>: the eleven read-only routes over one network, proxied to the
  Digital Twin. The Digital Twin client is a parameter that answers a call with a dictionary
  or an exception; every handler returns its result together with the calls it made. Query
  parameters are the decoded pairs of the query string; conversion of a text to an integer
  and \<open>json.loads\<close> are parameters. A route runs its dependencies first (401, 403, then 503), then
  its query is validated (422), then its body runs.
\<close>

section \<open>The Digital Twin client\<close>

datatype dt_call =
    DtSubstationsMap
  | DtFilters
  | DtTileIndex
  | DtShapes "string list option" "string list option"
  | DtFetchValues string pydict nat
  | DtRisks "string list" "string list option"
  | DtRisksNow "string list option"
  | DtTrendline string string "string list option"
  | DtSummary

datatype dt_failure = DTApiError "nat option" | DtOther py_error

type_synonym dt_client = "string \<Rightarrow> dt_call \<Rightarrow> dt_failure + pydict"

type_synonym dt_log = "(string \<times> dt_call) list"

type_synonym grid_outcome = "(failure + response) \<times> dt_log"

definition dt_error :: "nat option \<Rightarrow> string \<Rightarrow> failure" where
  "dt_error status_code label =
     (let code = (case status_code of None \<Rightarrow> 502 | Some c \<Rightarrow> if c \<noteq> 0 then c else 502)
      in HttpError code (''DT error: '' @ label))"

text \<open>\<open>try: result = await ...; return ... except DTApiError\<close>: another exception, in the call or
  while the answer is shaped, is not caught.\<close>

definition dt_try ::
  "dt_client \<Rightarrow> string \<Rightarrow> dt_call \<Rightarrow> string \<Rightarrow> (pydict \<Rightarrow> response res) \<Rightarrow> grid_outcome" where
  "dt_try dt network_id call label k =
     ((case dt network_id call of
         Inr d \<Rightarrow> crash (k d)
       | Inl (DTApiError status_code) \<Rightarrow> Inl (dt_error status_code label)
       | Inl (DtOther e) \<Rightarrow> Inl (Crash e)),
      [(network_id, call)])"

definition json_ok :: "pydict \<Rightarrow> response res" where
  "json_ok d = Ok (respond 200 (VDict d))"

definition cache_control :: "string \<times> string" where
  "cache_control = (''Cache-Control'', ''public, max-age=3600'')"

definition cached :: "response \<Rightarrow> response" where
  "cached r = r\<lparr>rs_headers := rs_headers r @ [cache_control]\<rparr>"

section \<open>GeoJSON\<close>

text \<open>
  \<open>_to_feature_collection\<close>: a row gives a feature, or is skipped. The \<open>pop\<close> of a list takes no default,
  and the other values have none.
\<close>

definition row_geometry :: "(string \<Rightarrow> pyval option) \<Rightarrow> pyval \<Rightarrow> pyval" where
  "row_geometry json_loads raw =
     (case (case raw of VStr s \<Rightarrow> json_loads s | _ \<Rightarrow> Some raw) of
        Some (VDict p) \<Rightarrow> (case dict_get p ''geometry'' of Some g \<Rightarrow> g | None \<Rightarrow> VDict p)
      | _ \<Rightarrow> VNone)"

definition feature :: "pyval \<Rightarrow> pydict \<Rightarrow> pyval" where
  "feature geometry item =
     VDict [(''type'', VStr ''Feature''), (''geometry'', geometry), (''properties'', VDict item)]"

fun feature_loop :: "(string \<Rightarrow> pyval option) \<Rightarrow> pyval list \<Rightarrow> pyval list \<Rightarrow> pyval list res" where
  "feature_loop json_loads [] features = Ok features"
| "feature_loop json_loads (VDict item # items) features =
     (let raw = py_get item ''feature_geojson'';
          item' = dict_pop ''geom'' (dict_pop ''feature_geojson'' item)
      in if raw = VNone then feature_loop json_loads items features
         else let geometry = row_geometry json_loads raw in
           if \<not> truthy geometry then feature_loop json_loads items features
           else feature_loop json_loads items (features @ [feature geometry item']))"
| "feature_loop json_loads (VList xs # items) features = Raise TypeError"
| "feature_loop json_loads (v # items) features = Raise (OtherError ''AttributeError'')"

text \<open>\<open>for item in items\<close>: a dictionary iterates its keys and a text its characters, which have no
  \<open>pop\<close>; a number or null does not iterate.\<close>

definition iterate :: "pyval \<Rightarrow> pyval list res" where
  "iterate v =
     (case v of
        VList xs \<Rightarrow> Ok xs
      | VDict d \<Rightarrow> Ok (map (\<lambda>p. VStr (fst p)) d)
      | VStr s \<Rightarrow> Ok (map (\<lambda>c. VStr [c]) s)
      | _ \<Rightarrow> Raise TypeError)"

definition to_feature_collection :: "(string \<Rightarrow> pyval option) \<Rightarrow> pyval \<Rightarrow> pydict res" where
  "to_feature_collection json_loads items =
     bindR (iterate items) (\<lambda>xs. bindR (feature_loop json_loads xs []) (\<lambda>features.
       Ok [(''type'', VStr ''FeatureCollection''), (''features'', VList features)]))"

definition items_of :: "pydict \<Rightarrow> pyval res" where
  "items_of d = (case dict_get d ''items'' of None \<Rightarrow> Raise KeyError | Some v \<Rightarrow> Ok v)"

definition features_ok :: "(string \<Rightarrow> pyval option) \<Rightarrow> pydict \<Rightarrow> response res" where
  "features_ok json_loads d =
     bindR (items_of d) (\<lambda>items. bindR (to_feature_collection json_loads items) (\<lambda>c.
       Ok (cached (respond 200 (VDict c)))))"

section \<open>Query parameters\<close>

type_synonym query = "(string \<times> string) list"

definition q_values :: "query \<Rightarrow> string \<Rightarrow> string list" where
  "q_values q k = map snd (filter (\<lambda>p. fst p = k) q)"

text \<open>A list parameter with default \<open>None\<close>, a required list with at least one element, an optional
  text restricted to some values, a required text (the last one given counts), a list of integers.\<close>

definition q_list :: "query \<Rightarrow> string \<Rightarrow> string list option" where
  "q_list q k = (if q_values q k = [] then None else Some (q_values q k))"

definition q_required :: "query \<Rightarrow> string \<Rightarrow> failure + string list" where
  "q_required q k = (case q_list q k of None \<Rightarrow> Inl Unprocessable | Some vs \<Rightarrow> Inr vs)"

definition q_enum :: "string list \<Rightarrow> query \<Rightarrow> string \<Rightarrow> failure + string option" where
  "q_enum allowed q k =
     (case q_list q k of
        None \<Rightarrow> Inr None
      | Some vs \<Rightarrow> if last vs \<in> set allowed then Inr (Some (last vs)) else Inl Unprocessable)"

definition q_text :: "query \<Rightarrow> string \<Rightarrow> failure + string" where
  "q_text q k = (case q_list q k of None \<Rightarrow> Inl Unprocessable | Some vs \<Rightarrow> Inr (last vs))"

definition q_ints :: "(string \<Rightarrow> int option) \<Rightarrow> query \<Rightarrow> string \<Rightarrow> failure + int list option" where
  "q_ints parse_int q k =
     (case q_list q k of
        None \<Rightarrow> Inr None
      | Some vs \<Rightarrow> if list_ex (\<lambda>v. parse_int v = None) vs then Inl Unprocessable
                   else Inr (Some (map (\<lambda>v. the (parse_int v)) vs)))"

definition texts :: "string list \<Rightarrow> pyval" where
  "texts vs = VList (map VStr vs)"

text \<open>\<open>if value: payload[key] = value\<close>\<close>

definition opt_texts :: "string \<Rightarrow> string list option \<Rightarrow> pydict" where
  "opt_texts k vs = (case vs of None \<Rightarrow> [] | Some xs \<Rightarrow> if xs = [] then [] else [(k, texts xs)])"

definition opt_text :: "string \<Rightarrow> string option \<Rightarrow> pydict" where
  "opt_text k v = (case v of None \<Rightarrow> [] | Some s \<Rightarrow> if s = [] then [] else [(k, VStr s)])"


section \<open>The handlers\<close>

definition substations_map :: "dt_client \<Rightarrow> string \<Rightarrow> grid_outcome" where
  "substations_map dt network_id = dt_try dt network_id DtSubstationsMap ''substations_map'' json_ok"

definition get_filters :: "dt_client \<Rightarrow> string \<Rightarrow> grid_outcome" where
  "get_filters dt network_id = dt_try dt network_id DtFilters ''filters'' json_ok"

definition tile_index :: "dt_client \<Rightarrow> string \<Rightarrow> grid_outcome" where
  "tile_index dt network_id =
     dt_try dt network_id DtTileIndex ''tile_index'' (\<lambda>d. Ok (cached (respond 200 (VDict d))))"

definition shapes ::
  "(string \<Rightarrow> pyval option) \<Rightarrow> dt_client \<Rightarrow> string \<Rightarrow> string list option \<Rightarrow> string list option \<Rightarrow> grid_outcome" where
  "shapes json_loads dt network_id asset_type tile_id =
     dt_try dt network_id (DtShapes asset_type tile_id) ''shapes'' (features_ok json_loads)"

definition tree_strike_spans ::
  "(string \<Rightarrow> pyval option) \<Rightarrow> dt_client \<Rightarrow> string \<Rightarrow> string list option \<Rightarrow> grid_outcome" where
  "tree_strike_spans json_loads dt network_id tile_id =
     (let payload = opt_texts ''tile_ids'' tile_id
      in dt_try dt network_id (DtFetchValues ''tree_strike_spans'' payload 5000) ''tree_strike_spans''
           (features_ok json_loads))"

definition risks :: "dt_client \<Rightarrow> string \<Rightarrow> string list option \<Rightarrow> string list option \<Rightarrow> grid_outcome" where
  "risks dt network_id dates risk_vector =
     dt_try dt network_id (DtRisks (case dates of None \<Rightarrow> [] | Some ds \<Rightarrow> ds) risk_vector) ''risks'' json_ok"

definition risks_now :: "dt_client \<Rightarrow> string \<Rightarrow> string list option \<Rightarrow> grid_outcome" where
  "risks_now dt network_id risk_vector = dt_try dt network_id (DtRisksNow risk_vector) ''risks_now'' json_ok"

definition risk_km ::
  "dt_client \<Rightarrow> string \<Rightarrow> string list \<Rightarrow> string option \<Rightarrow> string list option \<Rightarrow> string list option \<Rightarrow>
   string list option \<Rightarrow> string list option \<Rightarrow> string option \<Rightarrow> grid_outcome" where
  "risk_km dt network_id dates level risk_vector operational_unit line_name substation_name min_level =
     (let payload = [(''dates'', texts dates)] @ opt_text ''level'' level @
            opt_texts ''risk_vector'' risk_vector @ opt_texts ''operational_unit'' operational_unit @
            opt_texts ''line_name'' line_name @ opt_texts ''substation_name'' substation_name @
            opt_text ''min_level'' min_level
      in dt_try dt network_id (DtFetchValues ''risk_km'' payload 20000) ''risk_km'' json_ok)"

definition risks_8h ::
  "dt_client \<Rightarrow> string \<Rightarrow> string list \<Rightarrow> int list option \<Rightarrow> string list option \<Rightarrow> grid_outcome" where
  "risks_8h dt network_id dates slot risk_vector =
     (let slots = (case slot of None \<Rightarrow> [] | Some vs \<Rightarrow> vs) in
      if slots \<noteq> [] \<and> list_ex (\<lambda>value. value < 0 \<or> 2 < value) slots
      then (Inl (HttpError 422 ''slot must be 0, 1 or 2''), [])
      else let payload = [(''dates'', texts dates)] @
                 (if slots = [] then [] else [(''slots'', VList (map VInt slots))]) @
                 opt_texts ''risk_vector'' risk_vector
           in dt_try dt network_id (DtFetchValues ''risks_8h'' payload 30000) ''risks_8h'' json_ok)"

definition trendline :: "dt_client \<Rightarrow> string \<Rightarrow> string \<Rightarrow> string \<Rightarrow> string list option \<Rightarrow> grid_outcome" where
  "trendline dt network_id date_from date_to risk_vector =
     dt_try dt network_id (DtTrendline date_from date_to risk_vector) ''trendline'' json_ok"

definition grid_summary :: "dt_client \<Rightarrow> string \<Rightarrow> grid_outcome" where
  "grid_summary dt network_id = dt_try dt network_id DtSummary ''summary'' json_ok"

section \<open>The routes\<close>

datatype grid_route =
    RSubstationsMap | RFilters | RTileIndex | RShapes | RTreeStrikeSpans | RRisks | RRisksNow
  | RRiskKm | RRisks8h | RTrendline | RSummary

record grid_env =
  ge_auth :: auth_env
  ge_settings :: settings
  ge_dt :: "dt_handle \<Rightarrow> dt_client"
  ge_json_loads :: "string \<Rightarrow> pyval option"
  ge_parse_int :: "string \<Rightarrow> int option"

text \<open>The body of a route once its dependencies have passed: the query is validated as a whole,
  every error giving the same 422; \<open>dt\<close> is the client the dependency returned.\<close>

fun grid_body :: "grid_env \<Rightarrow> dt_client \<Rightarrow> grid_route \<Rightarrow> string \<Rightarrow> query \<Rightarrow> failure + grid_outcome" where
  "grid_body env dt RSubstationsMap n q = Inr (substations_map dt n)"
| "grid_body env dt RFilters n q = Inr (get_filters dt n)"
| "grid_body env dt RTileIndex n q = Inr (tile_index dt n)"
| "grid_body env dt RShapes n q =
     Inr (shapes (ge_json_loads env) dt n (q_list q ''asset_type'') (q_list q ''tile_id''))"
| "grid_body env dt RTreeStrikeSpans n q =
     Inr (tree_strike_spans (ge_json_loads env) dt n (q_list q ''tile_id''))"
| "grid_body env dt RRisks n q = Inr (risks dt n (q_list q ''dates'') (q_list q ''risk_vector''))"
| "grid_body env dt RRisksNow n q = Inr (risks_now dt n (q_list q ''risk_vector''))"
| "grid_body env dt RRiskKm n q =
     bindR (q_required q ''dates'') (\<lambda>dates.
     bindR (q_enum [''tratta'', ''line'', ''unit''] q ''level'') (\<lambda>level.
     bindR (q_enum [''WARNING'', ''ALERT''] q ''min_level'') (\<lambda>min_level.
       Inr (risk_km dt n dates level (q_list q ''risk_vector'') (q_list q ''operational_unit'')
              (q_list q ''line_name'') (q_list q ''substation_name'') min_level))))"
| "grid_body env dt RRisks8h n q =
     bindR (q_required q ''dates'') (\<lambda>dates.
     bindR (q_ints (ge_parse_int env) q ''slot'') (\<lambda>slot.
       Inr (risks_8h dt n dates slot (q_list q ''risk_vector''))))"
| "grid_body env dt RTrendline n q =
     bindR (q_text q ''date_from'') (\<lambda>date_from. bindR (q_text q ''date_to'') (\<lambda>date_to.
       Inr (trendline dt n date_from date_to (q_list q ''risk_vector''))))"
| "grid_body env dt RSummary n q = Inr (grid_summary dt n)"

definition grid_api :: "grid_env \<Rightarrow> request \<Rightarrow> grid_route \<Rightarrow> string \<Rightarrow> query \<Rightarrow> grid_outcome" where
  "grid_api env rq route network_id q =
     (case bindR (require_network_read (ge_auth env) rq network_id) (\<lambda>user.
             bindR (get_dt_client (ge_settings env)) (\<lambda>c. grid_body env (ge_dt env c) route network_id q)) of
        Inl f \<Rightarrow> (Inl f, [])
      | Inr out \<Rightarrow> out)"

section \<open>Lemmas\<close>

lemma dt_try_log [frame_simps]: "snd (dt_try dt n call label k) = [(n, call)]"
  by (simp add: dt_try_def)

lemmas grid_handler_defs = substations_map_def get_filters_def tile_index_def shapes_def tree_strike_spans_def
  risks_def risks_now_def risk_km_def risks_8h_def trendline_def grid_summary_def

text \<open>A body asks the Digital Twin at most once, and about its own network.\<close>

lemma grid_body_log: "grid_body env dt route n q = Inr (r, lg) \<Longrightarrow> \<exists>calls. lg = map (Pair n) calls \<and> length calls \<le> 1"
  by (cases route)
    (auto simp: grid_handler_defs dt_try_def bindR_Ok_iff Let_def split: if_splits
      intro: exI [of _ "[]"] exI [of _ "[_]"])

lemma q_list_Some: "q_list q k = Some vs \<Longrightarrow> vs \<noteq> []"
  by (auto simp: q_list_def split: if_splits)

lemma q_required_Inr: "q_required q k = Inr vs \<longleftrightarrow> vs = q_values q k \<and> vs \<noteq> []"
  by (auto simp: q_required_def q_list_def)

lemma q_enum_Inr: "q_enum allowed q k = Inr (Some v) \<Longrightarrow> v \<in> set allowed"
  by (auto simp: q_enum_def split: option.splits if_splits)

lemma get_dt_client_Inl: "get_dt_client st = Inl f \<Longrightarrow> f = HttpError 503 ''Digital Twin API not configured''"
  by (auto simp: get_dt_client_def split: option.splits if_splits)

lemma grid_body_Inl: "grid_body env dt route n q = Inl f \<Longrightarrow> f = Unprocessable"
  by (cases route) (auto simp: bindR_Raise_iff q_required_def q_enum_def q_ints_def q_text_def
      split: option.splits if_splits)

lemma grid_api_cases:
  assumes "grid_api env rq route n q = (r, lg)"
  obtains (refused) f where "r = Inl f" "lg = []" "failure_status f \<in> {401, 403, 422, 503}"
    | (body) user c where "require_network_read (ge_auth env) rq n = Inr user" "get_dt_client (ge_settings env) = Inr c"
        "grid_body env (ge_dt env c) route n q = Inr (r, lg)"
proof -
  show thesis
  proof (cases "require_network_read (ge_auth env) rq n")
    case (Inl f)
    with assms require_Inl(1) [OF Inl] refused show thesis by (auto simp: grid_api_def)
  next
    case user: (Inr user)
    show thesis
    proof (cases "get_dt_client (ge_settings env)")
      case (Inl f)
      with assms user get_dt_client_Inl [OF Inl] refused show thesis by (auto simp: grid_api_def)
    next
      case (Inr c)
      show thesis
      proof (cases "grid_body env (ge_dt env c) route n q")
        case (Inl f)
        with assms user Inr grid_body_Inl [OF Inl] refused show thesis by (auto simp: grid_api_def)
      next
        case body': (Inr out)
        with assms user Inr body show thesis by (auto simp: grid_api_def)
      qed
    qed
  qed
qed


lemma dict_get_append: "dict_get (xs @ ys) k = (case dict_get xs k of Some v \<Rightarrow> Some v | None \<Rightarrow> dict_get ys k)"
  by (simp add: dict_get_def map_add_def split: option.splits)

lemma opt_texts_get: "dict_get (opt_texts k' vs) k = (if k' = k \<and> vs \<noteq> None \<and> vs \<noteq> Some [] then Some (texts (the vs)) else None)"
  by (auto simp: opt_texts_def dict_get_def split: option.splits)

lemma opt_text_get: "dict_get (opt_text k' v) k = (if k' = k \<and> v \<noteq> None \<and> v \<noteq> Some [] then Some (VStr (the v)) else None)"
  by (auto simp: opt_text_def dict_get_def split: option.splits)

lemmas payload_get = dict_get_append dict_get_Cons opt_texts_get opt_text_get

lemma opt_texts_truthy: "(k, v) \<in> set (opt_texts k' vs) \<Longrightarrow> truthy v"
  by (auto simp: opt_texts_def texts_def split: option.splits if_splits)

lemma opt_text_truthy: "(k, v) \<in> set (opt_text k' t) \<Longrightarrow> truthy v"
  by (auto simp: opt_text_def split: option.splits if_splits)

text \<open>The three payloads.\<close>

definition payload_ok :: "string \<Rightarrow> pydict \<Rightarrow> nat \<Rightarrow> bool" where
  "payload_ok name payload limit \<longleftrightarrow>
     (name, limit) \<in> {(''tree_strike_spans'', 5000), (''risk_km'', 20000), (''risks_8h'', 30000)} \<and>
     (name \<noteq> ''tree_strike_spans'' \<longrightarrow> (\<exists>ds. ds \<noteq> [] \<and> dict_get payload ''dates'' = Some (texts ds))) \<and>
     (\<forall>(k, v) \<in> set payload. truthy v) \<and>
     (\<forall>v. dict_get payload ''slots'' = Some v \<longrightarrow> (\<exists>is. v = VList (map VInt is) \<and> is \<noteq> [] \<and> set is \<subseteq> {0..2})) \<and>
     (\<forall>v. dict_get payload ''level'' = Some v \<longrightarrow> v \<in> VStr ` {''tratta'', ''line'', ''unit''}) \<and>
     (\<forall>v. dict_get payload ''min_level'' = Some v \<longrightarrow> v \<in> VStr ` {''WARNING'', ''ALERT''})"

lemma spans_payload: "payload_ok ''tree_strike_spans'' (opt_texts ''tile_ids'' t) 5000"
  by (auto simp: payload_ok_def payload_get dest: opt_texts_truthy)

lemma payload_okI:
  assumes "(name, limit) \<in> {(''tree_strike_spans'', 5000), (''risk_km'', 20000), (''risks_8h'', 30000)}"
    and "ds \<noteq> []" "dict_get payload ''dates'' = Some (texts ds)" "\<forall>(k, v) \<in> set payload. truthy v"
    and "\<And>v. dict_get payload ''slots'' = Some v \<Longrightarrow> \<exists>is. v = VList (map VInt is) \<and> is \<noteq> [] \<and> set is \<subseteq> {0..2}"
    and "\<And>v. dict_get payload ''level'' = Some v \<Longrightarrow> v \<in> VStr ` {''tratta'', ''line'', ''unit''}"
    and "\<And>v. dict_get payload ''min_level'' = Some v \<Longrightarrow> v \<in> VStr ` {''WARNING'', ''ALERT''}"
  shows "payload_ok name payload limit"
  using assms unfolding payload_ok_def by blast

lemma risk_km_payload:
  assumes "dates \<noteq> []" "level = None \<or> (\<exists>l \<in> {''tratta'', ''line'', ''unit''}. level = Some l)"
    and "min_level = None \<or> (\<exists>l \<in> {''WARNING'', ''ALERT''}. min_level = Some l)"
  shows "payload_ok ''risk_km'' ([(''dates'', texts dates)] @ opt_text ''level'' level @ opt_texts ''risk_vector'' v @
    opt_texts ''operational_unit'' u @ opt_texts ''line_name'' l @ opt_texts ''substation_name'' s @
    opt_text ''min_level'' min_level) 20000" (is "payload_ok _ ?p _")
proof -
  have "dict_get ?p ''dates'' = Some (texts dates)" by (simp add: payload_get)
  moreover have "\<forall>(k, v) \<in> set ?p. truthy v"
    using assms(1) by (auto simp: texts_def dest: opt_texts_truthy opt_text_truthy)
  moreover have "dict_get ?p ''slots'' = None" by (simp add: payload_get)
  moreover have "v \<in> VStr ` {''tratta'', ''line'', ''unit''}" if "dict_get ?p ''level'' = Some v" for v
    using that assms(2) by (auto simp: payload_get split: if_splits)
  moreover have "v \<in> VStr ` {''WARNING'', ''ALERT''}" if "dict_get ?p ''min_level'' = Some v" for v
    using that assms(3) by (auto simp: payload_get split: if_splits)
  ultimately show ?thesis using assms(1) by (intro payload_okI [of _ _ dates]) simp_all
qed

lemma risks_8h_payload:
  assumes "dates \<noteq> []" "\<not> list_ex (\<lambda>value. value < 0 \<or> 2 < value) slots"
  shows "payload_ok ''risks_8h'' ([(''dates'', texts dates)] @
    (if slots = [] then [] else [(''slots'', VList (map VInt slots))]) @ opt_texts ''risk_vector'' v) 30000"
    (is "payload_ok _ ?p _")
proof -
  have "dict_get ?p ''dates'' = Some (texts dates)" by (simp add: payload_get)
  moreover have "\<forall>(k, v) \<in> set ?p. truthy v"
    using assms(1) by (auto simp: texts_def dest: opt_texts_truthy)
  moreover have "\<exists>is. w = VList (map VInt is) \<and> is \<noteq> [] \<and> set is \<subseteq> {0..2}" if "dict_get ?p ''slots'' = Some w" for w
    using that assms(2) by (intro exI [of _ slots]) (auto simp: payload_get list_ex_iff not_less split: if_splits)
  moreover have "dict_get ?p ''level'' = None" "dict_get ?p ''min_level'' = None" by (simp_all add: payload_get)
  ultimately show ?thesis using assms(1) by (intro payload_okI [of _ _ dates]) simp_all
qed

text \<open>A body is one call under the common \<open>try\<close>, or the refusal of a slot.\<close>

definition asks :: "grid_env \<Rightarrow> dt_client \<Rightarrow> string \<Rightarrow> grid_outcome \<Rightarrow> bool" where
  "asks env dt n out \<longleftrightarrow> (\<exists>call label k. out = dt_try dt n call label k \<and>
     (k = features_ok (ge_json_loads env) \<or> (\<forall>d. \<exists>x. k d = Inr x)))"

lemma asksI:
  "asks env dt n (dt_try dt n call label json_ok)"
  "asks env dt n (dt_try dt n call label (\<lambda>d. Ok (g d)))"
  "asks env dt n (dt_try dt n call label (features_ok (ge_json_loads env)))"
  unfolding asks_def json_ok_def by blast+

lemma grid_body_asks:
  "grid_body env dt route n q = Inr out \<Longrightarrow>
     asks env dt n out \<or> out = (Inl (HttpError 422 ''slot must be 0, 1 or 2''), [])"
  by (cases route) (auto simp: grid_handler_defs bindR_Ok_iff Let_def intro: asksI)

definition dt_failed :: "grid_env \<Rightarrow> dt_client \<Rightarrow> string \<Rightarrow> dt_call \<Rightarrow> failure \<Rightarrow> bool" where
  "dt_failed env dt n call f \<longleftrightarrow>
     (\<exists>c label. dt n call = Inl (DTApiError (Some c)) \<and> c \<noteq> 0 \<and> f = HttpError c (''DT error: '' @ label)) \<or>
     (\<exists>c label. dt n call = Inl (DTApiError c) \<and> c \<in> {None, Some 0} \<and> f = HttpError 502 (''DT error: '' @ label)) \<or>
     (\<exists>e. f = Crash e \<and> (dt n call = Inl (DtOther e) \<or>
        (\<exists>d. dt n call = Inr d \<and> features_ok (ge_json_loads env) d = Inl e)))"

lemma asks_failure:
  assumes "asks env dt n (Inl f, lg)"
  shows "\<exists>call. lg = [(n, call)] \<and> dt_failed env dt n call f"
proof -
  obtain call label k where t: "(Inl f, lg) = dt_try dt n call label k"
    and k: "k = features_ok (ge_json_loads env) \<or> (\<forall>d. \<exists>x. k d = Inr x)"
    using assms unfolding asks_def by blast
  have lg: "lg = [(n, call)]" using t by (simp add: dt_try_def)
  have "dt_failed env dt n call f"
  proof (cases "dt n call")
    case (Inl e)
    with t show ?thesis
      by (cases e) (auto simp: dt_try_def dt_error_def dt_failed_def Let_def split: option.splits if_splits)
  next
    case (Inr d)
    with t have "crash (k d) = Inl f" by (auto simp: dt_try_def)
    then obtain e where "k d = Inl e" "f = Crash e" by (auto simp: crash_Inl_iff)
    with Inr k show ?thesis unfolding dt_failed_def by (metis Inr_Inl_False)
  qed
  with lg show ?thesis by blast
qed

text \<open>Whatever the query, the payload of the values call is within its bounds.\<close>

lemma values_payload:
  assumes "grid_body env dt route n q = Inr (r, lg)" "(m, DtFetchValues name payload limit) \<in> set lg"
  shows "m = n \<and> payload_ok name payload limit"
proof (cases route)
  case RTreeStrikeSpans
  with assms show ?thesis using spans_payload by (auto simp: tree_strike_spans_def dt_try_def Let_def)
next
  case RRiskKm
  with assms obtain dates level min_level where d: "q_required q ''dates'' = Inr dates"
    and l: "q_enum [''tratta'', ''line'', ''unit''] q ''level'' = Inr level"
    and k: "q_enum [''WARNING'', ''ALERT''] q ''min_level'' = Inr min_level"
    and out: "(r, lg) = risk_km dt n dates level (q_list q ''risk_vector'') (q_list q ''operational_unit'')
              (q_list q ''line_name'') (q_list q ''substation_name'') min_level"
    by (auto simp: bindR_Ok_iff)
  have "level = None \<or> (\<exists>x \<in> {''tratta'', ''line'', ''unit''}. level = Some x)"
    using l q_enum_Inr [of "[''tratta'', ''line'', ''unit'']" q "''level''"] by (cases level) auto
  moreover have "min_level = None \<or> (\<exists>x \<in> {''WARNING'', ''ALERT''}. min_level = Some x)"
    using k q_enum_Inr [of "[''WARNING'', ''ALERT'']" q "''min_level''"] by (cases min_level) auto
  moreover have "dates \<noteq> []" using d unfolding q_required_Inr by blast
  ultimately show ?thesis using risk_km_payload assms(2) out by (simp add: risk_km_def dt_try_def Let_def)
next
  case RRisks8h
  with assms obtain dates slot where d: "q_required q ''dates'' = Inr dates"
    and out: "risks_8h dt n dates slot (q_list q ''risk_vector'') = (r, lg)"
    by (auto simp: bindR_Ok_iff)
  have "dates \<noteq> []" using d unfolding q_required_Inr by blast
  let ?slots = "case slot of None \<Rightarrow> [] | Some vs \<Rightarrow> vs"
  note p = risks_8h_payload [OF \<open>dates \<noteq> []\<close>, of ?slots "q_list q ''risk_vector''"]
  with out assms(2) show ?thesis
    by (cases "?slots = []") (auto simp: risks_8h_def dt_try_def Let_def split: if_splits)
qed (use assms in \<open>auto simp: grid_handler_defs dt_try_def bindR_Ok_iff Let_def\<close>)

section \<open>Samples\<close>

definition sample_handle :: dt_handle where
  "sample_handle = (''http://host.docker.internal:8002'', deps_oidc_provider sample_dev_settings None)"

lemma sample_client: "get_dt_client sample_dev_settings = Inr sample_handle"
  by (simp add: get_dt_client_def sample_handle_def sample_dev_settings_def default_settings_def)

definition sample_grid :: grid_env where
  "sample_grid = \<lparr>ge_auth = sample_auth, ge_settings = sample_dev_settings,
     ge_dt = (\<lambda>h n c. case c of DtSummary \<Rightarrow> Inl (DTApiError None)
        | _ \<Rightarrow> Inr [(''items'', VList [VDict [(''id'', VInt 4), (''feature_geojson'', VDict [(''type'', VStr ''Point'')])]])]),
     ge_json_loads = (\<lambda>s. None), ge_parse_int = (\<lambda>s. if s = ''2'' then Some 2 else None)\<rparr>"

definition sample_query :: query where
  "sample_query = [(''dates'', ''2026-08-15''), (''slot'', ''2'')]"

lemma sample_grid_api: "grid_api sample_grid sample_request route ''net'' q =
    (case grid_body sample_grid (ge_dt sample_grid sample_handle) route ''net'' q of Inl f \<Rightarrow> (Inl f, []) | Inr out \<Rightarrow> out)"
proof -
  have "require_network_read (ge_auth sample_grid) sample_request ''net'' = Inr (sample_user [''net''] [] False)"
    using sample_read by (simp add: sample_grid_def)
  moreover have "get_dt_client (ge_settings sample_grid) = Inr sample_handle" by (simp add: sample_grid_def sample_client)
  ultimately show ?thesis by (simp add: grid_api_def)
qed

lemma sample_body: "\<exists>r. grid_body sample_grid (ge_dt sample_grid sample_handle) RRisks8h ''net'' sample_query =
    Inr (Inr r, [(''net'', DtFetchValues ''risks_8h'' [(''dates'', texts [''2026-08-15'']), (''slots'', VList [VInt 2])] 30000)])"
  by (simp add: sample_grid_def sample_query_def q_required_def q_ints_def q_list_def q_values_def risks_8h_def
      dt_try_def opt_texts_def json_ok_def)

section \<open>Properties\<close>

text \<open>
  The Digital Twin is asked about a network only on behalf of a caller who may read that
  very network: outside development, with the Rego package, a route that makes a call makes
  one, about the network of the path, for a caller whose token was verified and who is in
  that DSO network or is a service account with \<open>grid.read\<close> or \<open>grid.admin\<close>.
\<close>

theorem twin_asked_only_for_readers:
  assumes "grid_api env rq route n q = (r, lg)" "lg \<noteq> []"
    and "a_engine (ge_auth env) = Some rego_decision" "\<not> a_is_dev (ge_auth env)"
  shows "\<exists>call user t. lg = [(n, call)] \<and> extract_token (a_header (ge_auth env)) rq = Some t \<and>
    a_from_token (ge_auth env) t = Inr user \<and>
    (if judged_service user then carries_scope user ''grid.read'' \<or> carries_scope user ''grid.admin''
     else n \<in> set (dso_networks user))"
  using assms(1)
proof (cases rule: grid_api_cases)
  case (body user)
  from grid_body_log [OF body(3)] assms(2) obtain call where "lg = [(n, call)]"
    by (auto simp: le_Suc_eq length_Suc_conv)
  with network_read_cases [OF body(1) assms(3,4)] show ?thesis by blast
qed (use assms(2) in simp)

theorem twin_asked_only_for_readers_witness:
  "\<exists>call. snd (grid_api sample_grid sample_request RRisks8h ''net'' sample_query) = [(''net'', call)]"
proof -
  obtain r where b: "grid_api sample_grid sample_request RRisks8h ''net'' sample_query =
      (Inr r, [(''net'', DtFetchValues ''risks_8h'' [(''dates'', texts [''2026-08-15'']), (''slots'', VList [VInt 2])] 30000)])"
    using sample_body unfolding sample_grid_api by force
  have "a_engine (ge_auth sample_grid) = Some rego_decision" "\<not> a_is_dev (ge_auth sample_grid)"
    by (simp_all add: sample_grid_def sample_auth_def)
  from twin_asked_only_for_readers [OF b _ this] b show ?thesis by auto
qed

text \<open>
  C4: what the values endpoint of the Digital Twin receives is bounded and validated whatever
  the query says: one of three fetchers with its row limit, at least one date, no empty
  filter, slots within 0 to 2 and a known level.
\<close>

theorem values_payload_bounds:
  assumes "grid_body env dt route n q = Inr (r, lg)" "(m, DtFetchValues name payload limit) \<in> set lg"
  shows "m = n \<and> payload_ok name payload limit"
  by (rule values_payload [OF assms])

theorem values_payload_bounds_witness:
  "payload_ok ''risks_8h'' [(''dates'', texts [''2026-08-15'']), (''slots'', VList [VInt 2])] 30000"
proof -
  obtain r where b: "grid_body sample_grid (ge_dt sample_grid sample_handle) RRisks8h ''net'' sample_query =
      Inr (Inr r, [(''net'', DtFetchValues ''risks_8h'' [(''dates'', texts [''2026-08-15'']), (''slots'', VList [VInt 2])] 30000)])"
    using sample_body by blast
  from values_payload_bounds [OF b] show ?thesis by simp
qed


text \<open>
  C32: the GeoJSON of a table of rows has one feature for every row with a usable geometry, in
  the order of the rows, and no other: a row is skipped, never fatal, when its column is
  missing, no JSON, no object or empty. A feature carries every other column of its row
  unchanged and neither of the two geometry columns.
\<close>

theorem feature_collection_correct:
  "to_feature_collection json_loads (VList (map VDict rows)) =
     Ok [(''type'', VStr ''FeatureCollection''), (''features'', VList
       (map (\<lambda>row. feature (row_geometry json_loads (py_get row ''feature_geojson''))
                (filter (\<lambda>p. fst p \<noteq> ''feature_geojson'' \<and> fst p \<noteq> ''geom'') row))
         (filter (\<lambda>row. truthy (row_geometry json_loads (py_get row ''feature_geojson''))) rows)))]"
proof -
  have drop: "dict_pop k d = filter (\<lambda>p. fst p \<noteq> k) d" for k and d :: pydict
    by (induction d) (auto simp: dict_pop_def)
  have null: "row_geometry json_loads VNone = VNone" by (simp add: row_geometry_def)
  have "feature_loop json_loads (map VDict rows) fs = Ok (fs @
      map (\<lambda>row. feature (row_geometry json_loads (py_get row ''feature_geojson''))
             (filter (\<lambda>p. fst p \<noteq> ''feature_geojson'' \<and> fst p \<noteq> ''geom'') row))
        (filter (\<lambda>row. truthy (row_geometry json_loads (py_get row ''feature_geojson''))) rows))" for fs
  proof (induction rows arbitrary: fs)
    case (Cons row rows)
    show ?case
      by (simp add: Cons.IH Let_def drop null conj_commute)
  qed simp
  then show ?thesis by (simp add: to_feature_collection_def iterate_def)
qed

text \<open>
  C31: every failure of a grid route is accounted for: a refusal before any call (401 or 403 by
  the guard, 503 without a Digital Twin, 422 for the query), or after exactly one call
  the status the Digital Twin gave, 502 where it gave none, or a 500.
\<close>

theorem grid_failures:
  assumes "grid_api env rq route n q = (Inl f, lg)"
  shows "(lg = [] \<and> failure_status f \<in> {401, 403, 422, 503}) \<or>
    (\<exists>h call. get_dt_client (ge_settings env) = Inr h \<and> lg = [(n, call)] \<and>
       ((\<exists>c label. ge_dt env h n call = Inl (DTApiError (Some c)) \<and> c \<noteq> 0 \<and> f = HttpError c (''DT error: '' @ label)) \<or>
        (\<exists>c label. ge_dt env h n call = Inl (DTApiError c) \<and> c \<in> {None, Some 0} \<and> f = HttpError 502 (''DT error: '' @ label)) \<or>
        (\<exists>e. f = Crash e \<and> (ge_dt env h n call = Inl (DtOther e) \<or>
           (\<exists>d. ge_dt env h n call = Inr d \<and> features_ok (ge_json_loads env) d = Inl e)))))"
  using assms
proof (cases rule: grid_api_cases)
  case (body user h)
  from grid_body_asks [OF body(3)] show ?thesis
  proof
    assume "asks env (ge_dt env h) n (Inl f, lg)"
    from asks_failure [OF this] body(2) show ?thesis unfolding dt_failed_def by blast
  qed simp
qed auto

theorem grid_failures_witness:
  "\<exists>label. fst (grid_api sample_grid sample_request RSummary ''net'' []) = Inl (HttpError 502 (''DT error: '' @ label))"
proof -
  have "grid_api sample_grid sample_request RSummary ''net'' [] = (Inl (HttpError 502 ''DT error: summary''), [(''net'', DtSummary)])"
    unfolding sample_grid_api by (simp add: sample_grid_def grid_summary_def dt_try_def dt_error_def)
  from grid_failures [OF this] this show ?thesis by (auto simp: sample_grid_def)
qed

end
