(* ===== verification/UserApi.thy ===== *)
theory UserApi
  imports Identity "HOL-Library.Multiset"
begin

text \<open>
  \<open>src/celine/grid/api/user.py\<close>: the caller's identity and preferred language. The language is
  the primary subtag of the \<open>locale\<close> claim, else of the best entry of the \<open>Accept-Language\<close>
  header, whose weights are binary64 floats compared as Python compares them.
\<close>

section \<open>The preferred language\<close>

definition primary_subtag :: "string \<Rightarrow> string option" where
  "primary_subtag tag =
     (let primary = py_lower (hd (py_split_char CHR ''-'' (py_strip tag)))
      in if py_isalpha primary then Some primary else None)"

text \<open>\<open>q=\<close> with an unreadable weight counts 1.0, as does an entry without one.\<close>

definition entry_quality :: "string \<Rightarrow> pyfloat" where
  "entry_quality params =
     (let p = py_strip params in
      if py_startswith p ''q='' then (case parse_float (drop 2 p) of Some q \<Rightarrow> q | None \<Rightarrow> Fin 1) else Fin 1)"

type_synonym ranked_entry = "pyfloat \<times> nat \<times> string"

fun rank_entries :: "nat \<Rightarrow> string list \<Rightarrow> ranked_entry list" where
  "rank_entries index [] = []"
| "rank_entries index (part # parts) =
     (case py_partition CHR '';'' (py_strip part) of (tag', params) \<Rightarrow>
        let tag = py_strip tag'; quality = entry_quality params in
        if tag = [] \<or> tag = ''*'' then rank_entries (index + 1) parts
        else if float_pos quality then (float_neg quality, index, tag) # rank_entries (index + 1) parts
        else rank_entries (index + 1) parts)"

text \<open>\<open>sorted(ranked)\<close>: the indices differ, so the tags are never compared.\<close>

definition rank_order :: "ranked_entry \<Rightarrow> (int \<times> rat) \<times> nat" where
  "rank_order e = (float_key (fst e), fst (snd e))"

fun first_language :: "ranked_entry list \<Rightarrow> string option" where
  "first_language [] = None"
| "first_language ((q, i, tag) # es) = (case primary_subtag tag of Some p \<Rightarrow> Some p | None \<Rightarrow> first_language es)"

definition from_accept_language :: "string option \<Rightarrow> string option" where
  "from_accept_language header =
     (case header of
        None \<Rightarrow> None
      | Some h \<Rightarrow> if h = [] then None
          else first_language (sort_key rank_order (rank_entries 0 (py_split_char CHR '','' h))))"

definition resolve_locale :: "jwt_user \<Rightarrow> request \<Rightarrow> string option" where
  "resolve_locale user rq =
     (let fallback = from_accept_language (header_get rq ''accept-language'') in
      case py_get (ju_claims user) ''locale'' of
        VStr claim \<Rightarrow>
          if py_strip claim \<noteq> [] then (case primary_subtag claim of Some p \<Rightarrow> Some p | None \<Rightarrow> fallback)
          else fallback
      | _ \<Rightarrow> fallback)"

section \<open>Routes\<close>

record me_user =
  mu_sub :: string
  mu_email :: "string option"
  mu_name :: "string option"
  mu_preferred_username :: "string option"
  mu_locale :: "string option"
  mu_network_id :: string
  mu_organization :: string

definition opt_str :: "string option \<Rightarrow> pyval" where
  "opt_str v = (case v of None \<Rightarrow> VNone | Some s \<Rightarrow> VStr s)"

definition me_response :: "me_user \<Rightarrow> pyval" where
  "me_response m =
     VDict [(''user'', VDict [(''sub'', VStr (mu_sub m)), (''email'', opt_str (mu_email m)),
       (''name'', opt_str (mu_name m)), (''preferred_username'', opt_str (mu_preferred_username m)),
       (''locale'', opt_str (mu_locale m)), (''network_id'', VStr (mu_network_id m)),
       (''organization'', VStr (mu_organization m))])]"

definition ping :: "auth_env \<Rightarrow> request \<Rightarrow> failure + response" where
  "ping a rq = bindR (require_user a rq) (\<lambda>user. Inr (respond 200 (VDict [(''ok'', VBool True)])))"

definition me :: "auth_env \<Rightarrow> request \<Rightarrow> failure + response" where
  "me a rq =
     bindR (require_user a rq) (\<lambda>user.
     bindR (resolve_dso_network user) (\<lambda>network_id.
       Inr (respond 200 (me_response
         \<lparr>mu_sub = ju_sub user, mu_email = ju_email user, mu_name = ju_name user,
          mu_preferred_username = ju_preferred_username user, mu_locale = resolve_locale user rq,
          mu_network_id = network_id, mu_organization = network_id\<rparr>))))"

section \<open>Lemmas\<close>

lemma primary_subtag_shape: "primary_subtag tag = Some p \<Longrightarrow> py_isalpha p \<and> py_lower p = p"
  by (auto simp: primary_subtag_def Let_def split: if_splits)

lemma primary_subtag_region: "primary_subtag tag = Some p \<Longrightarrow> CHR ''-'' \<notin> set p"
  by (auto simp: primary_subtag_def Let_def py_isalpha_def list_all_iff is_alpha_char_def code_point_def split: if_splits)

lemma first_language_Some:
  "first_language es = Some p \<Longrightarrow>
     \<exists>as q i tag bs. es = as @ (q, i, tag) # bs \<and> primary_subtag tag = Some p \<and>
       (\<forall>(q', i', tag') \<in> set as. primary_subtag tag' = None)"
proof (induction es)
  case (Cons e es)
  obtain q i tag where e: "e = (q, i, tag)" by (cases e)
  show ?case
  proof (cases "primary_subtag tag")
    case None
    with Cons e obtain as q' i' tag' bs where "es = as @ (q', i', tag') # bs" "primary_subtag tag' = Some p"
      "\<forall>(q', i', tag') \<in> set as. primary_subtag tag' = None" by auto
    with None e show ?thesis by (intro exI [of _ "e # as"]) auto
  next
    case (Some p')
    with Cons.prems e show ?thesis by (intro exI [of _ "[]"]) auto
  qed
qed simp

lemma first_language_None: "first_language es = None \<longleftrightarrow> (\<forall>(q, i, tag) \<in> set es. primary_subtag tag = None)"
  by (induction es) (auto split: option.splits)

lemma rank_entries_nonzero: "(q, i, tag) \<in> set (rank_entries n parts) \<Longrightarrow>
    (\<exists>w. q = float_neg w \<and> float_pos w) \<and> tag \<noteq> [] \<and> tag \<noteq> ''*''"
  by (induction parts arbitrary: n) (auto simp: Let_def split: prod.splits if_splits)

lemma py_split_char_sep: "w \<in> set (py_split_char c s) \<Longrightarrow> c \<notin> set w"
  by (induction s arbitrary: w) (auto split: list.splits if_splits)

section \<open>Properties\<close>

text \<open>
  C35: the language taken from \<open>Accept-Language\<close> is that of the entry with the greatest weight
  among the entries that name a language, the first sent where weights are equal; entries of
  weight zero and the wildcard never count, and there is an answer whenever some entry names
  a language.
\<close>

theorem accept_language_best:
  assumes "h \<noteq> []"
  defines "entries \<equiv> rank_entries 0 (py_split_char CHR '','' h)"
  shows "(from_accept_language (Some h) = None \<longleftrightarrow> (\<forall>(q, i, tag) \<in> set entries. primary_subtag tag = None)) \<and>
    (\<forall>p. from_accept_language (Some h) = Some p \<longrightarrow>
      (\<exists>q i tag. (q, i, tag) \<in> set entries \<and> primary_subtag tag = Some p \<and>
        (\<forall>(q', i', tag') \<in> set entries. primary_subtag tag' \<noteq> None \<longrightarrow> (float_key q, i) \<le> (float_key q', i')))) \<and>
    (\<forall>(q, i, tag) \<in> set entries. (\<exists>w. q = float_neg w \<and> float_pos w) \<and> tag \<noteq> [] \<and> tag \<noteq> ''*'')"
proof (intro conjI allI impI)
  let ?es = "sort_key rank_order entries"
  have h: "from_accept_language (Some h) = first_language ?es"
    using assms(1) by (simp add: from_accept_language_def entries_def)
  show "from_accept_language (Some h) = None \<longleftrightarrow> (\<forall>(q, i, tag) \<in> set entries. primary_subtag tag = None)"
    by (simp add: h first_language_None)
  show "\<forall>(q, i, tag) \<in> set entries. (\<exists>w. q = float_neg w \<and> float_pos w) \<and> tag \<noteq> [] \<and> tag \<noteq> ''*''"
    unfolding entries_def using rank_entries_nonzero by blast
  fix p assume "from_accept_language (Some h) = Some p"
  then obtain as q i tag bs where es: "?es = as @ (q, i, tag) # bs" and p: "primary_subtag tag = Some p"
    and as: "\<forall>(q', i', tag') \<in> set as. primary_subtag tag' = None"
    using h first_language_Some by (metis (no_types, lifting))
  have sorted: "sorted (map rank_order (as @ (q, i, tag) # bs))" by (simp flip: es)
  have "(q, i, tag) \<in> set ?es" by (simp add: es del: set_sort)
  moreover have "(float_key q, i) \<le> (float_key q', i')"
    if "(q', i', tag') \<in> set entries" "primary_subtag tag' \<noteq> None" for q' i' tag'
  proof -
    have "(q', i', tag') \<in> set ?es" using that(1) by simp
    then have "(q', i', tag') \<in> set as \<or> (q', i', tag') = (q, i, tag) \<or> (q', i', tag') \<in> set bs"
      unfolding es by auto
    with as that(2) have "(q', i', tag') = (q, i, tag) \<or> (q', i', tag') \<in> set bs" by auto
    with sorted show ?thesis by (auto simp: sorted_append rank_order_def)
  qed
  ultimately show "\<exists>q i tag. (q, i, tag) \<in> set entries \<and> primary_subtag tag = Some p \<and>
      (\<forall>(q', i', tag') \<in> set entries. primary_subtag tag' \<noteq> None \<longrightarrow> (float_key q, i) \<le> (float_key q', i'))"
    using p by (intro exI [of _ q] exI [of _ i] exI [of _ tag]) auto
qed


lemma sample_header: "from_accept_language (Some ''de;q=0,*,it-IT'') = Some ''it''"
proof -
  have "rank_entries 0 (py_split_char CHR '','' ''de;q=0,*,it-IT'') = [(Fin (- 1), 2, ''it-IT'')]"
  proof -
    have "py_split_char CHR '','' ''de;q=0,*,it-IT'' = [''de;q=0'', ''*'', ''it-IT'']" by code_simp
    moreover have "py_strip ''de;q=0'' = ''de;q=0''" "py_strip ''*'' = ''*''" "py_strip ''it-IT'' = ''it-IT''"
      "py_strip ''de'' = ''de''" "py_strip ''q=0'' = ''q=0''" "py_strip [] = []" by code_simp+
    moreover have "parse_float ''0'' = Some (Fin 0)" by code_simp
    moreover have "py_startswith ''q=0'' ''q=''" "\<not> py_startswith [] ''q=''" by code_simp+
    ultimately show ?thesis
      by (simp add: py_partition_def entry_quality_def float_pos_def float_less_def float_key_def Let_def)
  qed
  moreover have "primary_subtag ''it-IT'' = Some ''it''" by code_simp
  ultimately show ?thesis by (simp add: from_accept_language_def sort_key_def)
qed

theorem accept_language_best_witness:
  "\<exists>q i tag. primary_subtag tag = Some ''it'' \<and>
     (q, i, tag) \<in> set (rank_entries 0 (py_split_char CHR '','' ''de;q=0,*,it-IT''))"
proof -
  have "''de;q=0,*,it-IT'' \<noteq> []" by simp
  from accept_language_best [OF this] sample_header show ?thesis by blast
qed

text \<open>
  A language is always a lower-case primary subtag of letters only, without region; a usable
  \<open>locale\<close> claim decides whatever the request says, and any other claim, of whatever type,
  leaves the choice to the request.
\<close>

theorem locale_chain:
  "(\<forall>p. resolve_locale user rq = Some p \<longrightarrow> py_isalpha p \<and> py_lower p = p \<and> CHR ''-'' \<notin> set p) \<and>
   (\<forall>claim p. py_get (ju_claims user) ''locale'' = VStr claim \<and> primary_subtag claim = Some p \<longrightarrow>
      resolve_locale user rq = Some p) \<and>
   ((\<forall>claim. py_get (ju_claims user) ''locale'' = VStr claim \<longrightarrow> primary_subtag claim = None) \<longrightarrow>
      resolve_locale user rq = from_accept_language (header_get rq ''accept-language''))"
proof (intro conjI allI impI)
  have blank: "primary_subtag c = None" if "py_strip c = []" for c
    using that by (simp add: primary_subtag_def py_lower_def py_isalpha_def)
  show "resolve_locale user rq = Some p" if "py_get (ju_claims user) ''locale'' = VStr claim \<and> primary_subtag claim = Some p"
    for claim p
    using that blank [of claim] by (auto simp: resolve_locale_def Let_def)
  show "resolve_locale user rq = from_accept_language (header_get rq ''accept-language'')"
    if "\<forall>claim. py_get (ju_claims user) ''locale'' = VStr claim \<longrightarrow> primary_subtag claim = None"
    using that by (auto simp: resolve_locale_def Let_def split: pyval.splits)
  fix p assume r: "resolve_locale user rq = Some p"
  have "\<exists>tag. primary_subtag tag = Some p"
  proof (cases "resolve_locale user rq = from_accept_language (header_get rq ''accept-language'')")
    case True
    with r obtain es where "first_language es = Some p"
      by (auto simp: from_accept_language_def split: option.splits if_splits)
    with first_language_Some show ?thesis by blast
  next
    case False
    with r show ?thesis
      by (auto simp: resolve_locale_def Let_def split: pyval.splits if_splits option.splits)
  qed
  with primary_subtag_shape primary_subtag_region
  show "py_isalpha p" "py_lower p = p" "CHR ''-'' \<notin> set p" by blast+
qed

theorem locale_chain_witness:
  "resolve_locale (sample_user [''net''] [(''locale'', VStr ''IT-it'')] False) sample_request = Some ''it''"
proof -
  have "primary_subtag ''IT-it'' = Some ''it''" by code_simp
  moreover have "py_get (ju_claims (sample_user [''net''] [(''locale'', VStr ''IT-it'')] False)) ''locale'' = VStr ''IT-it''"
    by (simp add: sample_user_def dict_simps)
  ultimately show ?thesis
    using locale_chain [of "sample_user [''net''] [(''locale'', VStr ''IT-it'')] False" sample_request] by blast
qed

text \<open>
  The first call of the front end, \<open>/api/me\<close>, fails for three reasons only: no verified
  token (401), no DSO organisation (403) or several of them (403). A member of one DSO
  organisation gets its alias as network and organisation, whatever claims are missing or
  odd: never a 500.
\<close>

theorem me_answers:
  "(\<exists>d. require_user a rq = Inl (HttpError 401 d) \<and> me a rq = Inl (HttpError 401 d)) \<or>
   (\<exists>user. require_user a rq = Inr user \<and>
      (if length (dso_networks user) = 1
       then \<exists>m. me a rq = Inr (respond 200 (me_response m)) \<and> mu_sub m = ju_sub user \<and>
              [mu_network_id m] = dso_networks user \<and> mu_organization m = mu_network_id m \<and>
              mu_email m = ju_email user
       else \<exists>d. me a rq = Inl (HttpError 403 d)))"
proof (cases "require_user a rq")
  case (Inl f)
  with get_user_Inl [of "a_header a" "a_from_token a" rq f] show ?thesis
    by (auto simp: me_def require_user_def)
next
  case (Inr user)
  have "length (dso_networks user) = 1 \<longleftrightarrow> resolve_dso_network user = Inr (hd (dso_networks user)) \<and> dso_networks user \<noteq> []"
    by (cases "dso_networks user") (auto simp: resolve_dso_network_def Let_def)
  moreover have "\<exists>d. resolve_dso_network user = Inl (HttpError 403 d)" if "length (dso_networks user) \<noteq> 1"
    using that by (cases "dso_networks user") (auto simp: resolve_dso_network_def Let_def)
  moreover have "[hd (dso_networks user)] = dso_networks user" if "length (dso_networks user) = 1"
    using that by (auto simp: length_Suc_conv)
  ultimately show ?thesis using Inr by (auto simp: me_def)
qed

end
