(* ===== verification/Sha256.thy ===== *)
theory Sha256
  imports PyValue "HOL-Library.Word"
begin

text \<open>
  \<open>hashlib.sha256(data).hexdigest()\<close> (FIPS 180-4) on a list of bytes, with 32-bit words:
  padding to blocks of 64 bytes, the message schedule, the 64 rounds of the compression
  function and the hexadecimal digest.
\<close>

unbundle bit_operations_syntax

type_synonym w32 = "32 word"

text \<open>
  The constants are the first 32 bits of the fractional parts of the cube roots of the first
  64 primes and of the square roots of the first 8.
\<close>

fun root_bits :: "nat \<Rightarrow> nat \<Rightarrow> nat \<Rightarrow> nat \<Rightarrow> nat" where
  "root_bits k n 0 r = r"
| "root_bits k n (Suc b) r = root_bits k n b (if (r + 2 ^ b) ^ k \<le> n then r + 2 ^ b else r)"

definition frac_root :: "nat \<Rightarrow> nat \<Rightarrow> w32" where
  "frac_root k p = word_of_nat (root_bits k (p * 2 ^ (32 * k)) 40 0)"

definition small_primes :: "nat list" where
  "small_primes = filter (\<lambda>n. list_all (\<lambda>d. n mod d \<noteq> 0) [2..<n]) [2..<312]"

definition sha_k :: "w32 list" where
  "sha_k = map (frac_root 3) small_primes"

definition sha_h0 :: "w32 list" where
  "sha_h0 = map (frac_root 2) [2, 3, 5, 7, 11, 13, 17, 19]"

definition rotr32 :: "nat \<Rightarrow> w32 \<Rightarrow> w32" where
  "rotr32 n x = drop_bit n x OR push_bit (32 - n) x"

definition small_sigma0 :: "w32 \<Rightarrow> w32" where
  "small_sigma0 x = rotr32 7 x XOR rotr32 18 x XOR drop_bit 3 x"

definition small_sigma1 :: "w32 \<Rightarrow> w32" where
  "small_sigma1 x = rotr32 17 x XOR rotr32 19 x XOR drop_bit 10 x"

definition big_sigma0 :: "w32 \<Rightarrow> w32" where
  "big_sigma0 x = rotr32 2 x XOR rotr32 13 x XOR rotr32 22 x"

definition big_sigma1 :: "w32 \<Rightarrow> w32" where
  "big_sigma1 x = rotr32 6 x XOR rotr32 11 x XOR rotr32 25 x"

definition sha_ch :: "w32 \<Rightarrow> w32 \<Rightarrow> w32 \<Rightarrow> w32" where
  "sha_ch x y z = (x AND y) XOR (NOT x AND z)"

definition sha_maj :: "w32 \<Rightarrow> w32 \<Rightarrow> w32 \<Rightarrow> w32" where
  "sha_maj x y z = (x AND y) XOR (x AND z) XOR (y AND z)"

text \<open>Big-endian bytes of a number.\<close>

fun be_bytes :: "nat \<Rightarrow> nat \<Rightarrow> nat list" where
  "be_bytes 0 n = []"
| "be_bytes (Suc k) n = be_bytes k (n div 256) @ [n mod 256]"

definition be_word :: "nat list \<Rightarrow> w32" where
  "be_word bs = foldl (\<lambda>w b. push_bit 8 w OR word_of_nat b) 0 bs"

definition sha_pad :: "nat list \<Rightarrow> nat list" where
  "sha_pad m = m @ 128 # replicate ((119 - length m mod 64) mod 64) 0 @ be_bytes 8 (8 * length m)"

fun chunks :: "nat \<Rightarrow> nat \<Rightarrow> 'a list \<Rightarrow> 'a list list" where
  "chunks n 0 xs = []"
| "chunks n (Suc k) xs = take n xs # chunks n k (drop n xs)"

text \<open>The message schedule, newest word first.\<close>

fun sha_extend :: "nat \<Rightarrow> w32 list \<Rightarrow> w32 list" where
  "sha_extend 0 ws = ws"
| "sha_extend (Suc n) ws =
     sha_extend n ((small_sigma1 (ws ! 1) + ws ! 6 + small_sigma0 (ws ! 14) + ws ! 15) # ws)"

definition sha_schedule :: "nat list \<Rightarrow> w32 list" where
  "sha_schedule block = rev (sha_extend 48 (rev (map be_word (chunks 4 16 block))))"

fun sha_round :: "w32 list \<Rightarrow> w32 \<times> w32 \<Rightarrow> w32 list" where
  "sha_round [a, b, c, d, e, f, g, h] (k, w) =
     (let t1 = h + big_sigma1 e + sha_ch e f g + k + w; t2 = big_sigma0 a + sha_maj a b c
      in [t1 + t2, a, b, c, d + t1, e, f, g])"
| "sha_round st _ = st"

definition sha_block :: "w32 list \<Rightarrow> nat list \<Rightarrow> w32 list" where
  "sha_block st block = map2 (+) st (foldl sha_round st (zip sha_k (sha_schedule block)))"

definition sha256 :: "nat list \<Rightarrow> w32 list" where
  "sha256 m = (let p = sha_pad m in foldl sha_block sha_h0 (chunks 64 (length p div 64) p))"

definition hex_word :: "w32 \<Rightarrow> string" where
  "hex_word w = concat (map hex_byte (be_bytes 4 (unat w)))"

definition sha256_hexdigest :: "nat list \<Rightarrow> string" where
  "sha256_hexdigest m = concat (map hex_word (sha256 m))"

section \<open>Shape of the digest\<close>

definition is_hex_digit :: "char \<Rightarrow> bool" where
  "is_hex_digit c = (is_digit c \<or> (97 \<le> code_point c \<and> code_point c \<le> 102))"

lemma be_bytes_length [simp]: "length (be_bytes k n) = k"
  by (induction k arbitrary: n) auto

lemma be_bytes_less: "b \<in> set (be_bytes k n) \<Longrightarrow> b < 256"
  by (induction k arbitrary: n) auto

lemma chunks_length [simp]: "length (chunks n k xs) = k"
  by (induction k arbitrary: xs) auto

lemma sha_round_length [simp]: "length (sha_round st kw) = length st"
  by (cases "(st, kw)" rule: sha_round.cases) (auto simp: Let_def)

lemma foldl_length_const:
  assumes "\<And>s x. length s = n \<Longrightarrow> length (f s x) = n"
  shows "length s = n \<Longrightarrow> length (foldl f s xs) = n"
  by (induction xs arbitrary: s) (auto simp: assms)

lemma sha_block_length: "length st = n \<Longrightarrow> length (sha_block st b) = n"
  by (simp add: sha_block_def foldl_length_const)

lemma sha256_length: "length (sha256 m) = 8"
  unfolding sha256_def Let_def
  by (rule foldl_length_const) (auto simp: sha_block_length sha_h0_def)

lemma pad_sums:
  fixes q r :: nat
  shows "r < 56 \<Longrightarrow> q * 64 + r + 9 + (55 - r) = 64 * (q + 1)"
    and "r < 64 \<Longrightarrow> q * 64 + r + 9 + (119 - r) = 64 * (q + 2)"
  by arith+

lemma pad_to_block: "(n + 9 + (119 - n mod 64) mod 64) mod 64 = (0::nat)"
proof (cases "n mod 64 < 56")
  case True
  then have "119 - n mod 64 = 64 + (55 - n mod 64)" by simp
  then have "(119 - n mod 64) mod 64 = 55 - n mod 64" by (simp only: mod_add_self1) simp
  then have "n + 9 + (119 - n mod 64) mod 64 = 64 * (n div 64 + 1)"
    using pad_sums(1) [OF True, of "n div 64"] by (simp only: div_mult_mod_eq)
  then show ?thesis by (simp only: mod_mult_self1_is_0)
next
  case False
  moreover have "n mod 64 < 64" by simp
  ultimately have "(119 - n mod 64) mod 64 = 119 - n mod 64" by simp
  then have "n + 9 + (119 - n mod 64) mod 64 = 64 * (n div 64 + 2)"
    using pad_sums(2) [OF \<open>n mod 64 < 64\<close>, of "n div 64"] by (simp only: div_mult_mod_eq)
  then show ?thesis by (simp only: mod_mult_self1_is_0)
qed

lemma sha_pad_blocks: "length (sha_pad m) mod 64 = 0"
  using pad_to_block [of "length m"] by (simp add: sha_pad_def add.assoc)

lemma hex_digit_is_hex: "d < 16 \<Longrightarrow> is_hex_digit (hex_digit d)"
  by (simp add: is_hex_digit_def hex_digit_def is_digit_def code_point_def Let_def take_bit_eq_mod)

lemma hex_word_length: "length (hex_word w) = 8"
  by (simp add: hex_word_def length_concat hex_byte_def comp_def sum_list_triv)

lemma hex_word_hex: "list_all is_hex_digit (hex_word w)"
  by (auto simp: hex_word_def hex_byte_def list_all_iff hex_digit_is_hex dest: be_bytes_less)

lemma sha256_hexdigest_length: "length (sha256_hexdigest m) = 64"
  by (simp add: sha256_hexdigest_def length_concat comp_def hex_word_length sum_list_triv sha256_length)

lemma sha256_hexdigest_hex: "list_all is_hex_digit (sha256_hexdigest m)"
  using hex_word_hex by (auto simp: sha256_hexdigest_def list_all_iff)

end
