(* ===== verification/Recipients.thy ===== *)
theory Recipients
  imports Sha256 "HOL-Library.Multiset"
begin

text \<open>
  \<open>src/celine/grid/services/notification_recipients.py\<close>: the free-text recipient field is
  split, filtered by the address pattern and de-duplicated; a list of addresses gets a
  synthetic user id from the SHA-256 of its sorted, lower-cased members.
\<close>

section \<open>Model\<close>

text \<open>
  The pattern \<open>^[^@\s]+@[^@\s]+\.[^@\s]+$\<close>: one \<open>@\<close> with something before it, and behind
  it a dot that is neither first nor last. As in Python, \<open>$\<close> also matches before a final
  line feed.
\<close>

definition address_char :: "char \<Rightarrow> bool" where
  "address_char c = (c \<noteq> CHR ''@'' \<and> \<not> is_space c)"

definition email_body :: "string \<Rightarrow> bool" where
  "email_body s =
     (let l = takeWhile (\<lambda>c. c \<noteq> CHR ''@'') s; r = dropWhile (\<lambda>c. c \<noteq> CHR ''@'') s; d = tl r
      in l \<noteq> [] \<and> list_all address_char l \<and> r \<noteq> [] \<and> list_all address_char d \<and>
         CHR ''.'' \<in> set (butlast (tl d)))"

definition email_re :: "string \<Rightarrow> bool" where
  "email_re s = (email_body s \<or> (s \<noteq> [] \<and> last s = CHR 0x0A \<and> email_body (butlast s)))"

fun dedupe_loop :: "string set \<Rightarrow> string list \<Rightarrow> string list" where
  "dedupe_loop seen [] = []"
| "dedupe_loop seen (item # items) =
     (let email = py_strip item in
      if email = [] \<or> \<not> email_re email then dedupe_loop seen items
      else let key = py_lower email in
        if key \<in> seen then dedupe_loop seen items
        else email # dedupe_loop (insert key seen) items)"

definition dedupe_emails :: "string list \<Rightarrow> string list" where
  "dedupe_emails values = dedupe_loop {} values"

definition recipient_separator :: "char \<Rightarrow> bool" where
  "recipient_separator c = (c = CHR '','' \<or> c = CHR '';'' \<or> is_space c)"

definition parse_recipients :: "string option \<Rightarrow> string list" where
  "parse_recipients value =
     (case value of None \<Rightarrow> []
      | Some v \<Rightarrow> if v = [] then [] else dedupe_emails (re_split_runs recipient_separator v))"

definition recipients_canonical :: "string list \<Rightarrow> string" where
  "recipients_canonical emails = py_join ''|'' (sort (map py_lower emails))"

definition synthetic_email_user_id :: "string list \<Rightarrow> string" where
  "synthetic_email_user_id emails =
     ''email-ingest:'' @ take 16 (sha256_hexdigest (py_encode_utf8 (recipients_canonical emails)))"

section \<open>The address pattern\<close>

lemma email_body_iff:
  "email_body s \<longleftrightarrow> (\<exists>l x y. s = l @ CHR ''@'' # x @ CHR ''.'' # y \<and> l \<noteq> [] \<and> x \<noteq> [] \<and> y \<noteq> [] \<and>
     list_all address_char l \<and> list_all address_char x \<and> list_all address_char y)"
proof
  let ?at = "\<lambda>c. c \<noteq> CHR ''@''"
  assume e: "email_body s"
  let ?l = "takeWhile ?at s" and ?d = "tl (dropWhile ?at s)"
  from e have r: "dropWhile ?at s \<noteq> []" and l: "?l \<noteq> []" "list_all address_char ?l"
    and d: "list_all address_char ?d" "CHR ''.'' \<in> set (butlast (tl ?d))"
    by (auto simp: email_body_def Let_def)
  have s: "s = ?l @ CHR ''@'' # ?d"
    using r hd_dropWhile [OF r] by (metis list.collapse takeWhile_dropWhile_id)
  obtain u v where uv: "butlast (tl ?d) = u @ CHR ''.'' # v"
    using d(2) by (meson split_list)
  then have "tl ?d \<noteq> []" by auto
  then have "?d = (hd ?d # u) @ CHR ''.'' # (v @ [last (tl ?d)])"
    using uv by (metis append.assoc append_Cons append_butlast_last_id list.collapse tl_Nil)
  then obtain x y where xy: "?d = x @ CHR ''.'' # y" "x \<noteq> []" "y \<noteq> []" by blast
  with d(1) have "list_all address_char x" "list_all address_char y" by simp_all
  with s l xy show "\<exists>l x y. s = l @ CHR ''@'' # x @ CHR ''.'' # y \<and> l \<noteq> [] \<and> x \<noteq> [] \<and> y \<noteq> [] \<and>
     list_all address_char l \<and> list_all address_char x \<and> list_all address_char y"
    by metis
next
  assume "\<exists>l x y. s = l @ CHR ''@'' # x @ CHR ''.'' # y \<and> l \<noteq> [] \<and> x \<noteq> [] \<and> y \<noteq> [] \<and>
     list_all address_char l \<and> list_all address_char x \<and> list_all address_char y"
  then obtain l x y where s: "s = l @ CHR ''@'' # x @ CHR ''.'' # y" and ne: "l \<noteq> []" "x \<noteq> []" "y \<noteq> []"
    and all: "list_all address_char l" "list_all address_char x" "list_all address_char y" by blast
  have at: "c \<noteq> CHR ''@''" if "c \<in> set l" for c
    using that all(1) by (auto simp: list_all_iff address_char_def)
  have "butlast (tl (x @ CHR ''.'' # y)) = tl x @ CHR ''.'' # butlast y"
    using ne by (cases x) (auto simp: butlast_append)
  moreover have "address_char CHR ''.''"
    by (simp add: address_char_def is_space_def code_point_def)
  ultimately show "email_body s"
    using ne all at by (simp add: email_body_def s)
qed

text \<open>A trimmed candidate never ends in a line feed, so the pattern is the plain shape.\<close>

lemma email_re_stripped: "email_re (py_strip s) \<longleftrightarrow> email_body (py_strip s)"
proof -
  have "\<not> (py_strip s \<noteq> [] \<and> last (py_strip s) = CHR 0x0A)"
    using py_strip_last [of s] by (auto simp: is_space_def code_point_def)
  then show ?thesis by (auto simp: email_re_def)
qed

lemma email_body_nonempty: "email_body s \<Longrightarrow> s \<noteq> []"
  by (auto simp: email_body_def)

lemma email_body_chars: "email_body s \<Longrightarrow> c \<in> set s \<Longrightarrow> \<not> is_space c"
proof -
  assume "email_body s" and c: "c \<in> set s"
  then obtain l x y where s: "s = l @ CHR ''@'' # x @ CHR ''.'' # y"
    and all: "list_all address_char l" "list_all address_char x" "list_all address_char y"
    unfolding email_body_iff by blast
  have "address_char c \<or> c = CHR ''@'' \<or> c = CHR ''.''" using c all by (auto simp: s list_all_iff)
  moreover have "\<not> is_space CHR ''@''" "\<not> is_space CHR ''.''"
    by (simp_all add: is_space_def code_point_def)
  ultimately show "\<not> is_space c" by (auto simp: address_char_def)
qed

lemma py_strip_no_space: "(\<And>c. c \<in> set s \<Longrightarrow> \<not> is_space c) \<Longrightarrow> py_strip s = s"
proof -
  assume a: "\<And>c. c \<in> set s \<Longrightarrow> \<not> is_space c"
  then have "dropWhile is_space s = s" by (cases s) auto
  moreover have "dropWhile is_space (rev s) = rev s" using a by (cases s rule: rev_cases) auto
  ultimately show ?thesis by (simp add: py_strip_def)
qed

lemma email_body_strip: "email_body s \<Longrightarrow> py_strip s = s"
  by (rule py_strip_no_space) (rule email_body_chars)

section \<open>De-duplication\<close>

text \<open>The candidates the loop considers: the trimmed items that are addresses.\<close>

definition valid_candidates :: "string list \<Rightarrow> string list" where
  "valid_candidates items = filter email_body (map py_strip items)"

text \<open>Keep the first element for every key.\<close>

fun first_by_key :: "('a \<Rightarrow> 'k) \<Rightarrow> 'k set \<Rightarrow> 'a list \<Rightarrow> 'a list" where
  "first_by_key f seen [] = []"
| "first_by_key f seen (x # xs) =
     (if f x \<in> seen then first_by_key f seen xs else x # first_by_key f (insert (f x) seen) xs)"

lemma dedupe_loop_eq: "dedupe_loop seen items = first_by_key py_lower seen (valid_candidates items)"
proof (induction items arbitrary: seen)
  case (Cons item items)
  have "(py_strip item = [] \<or> \<not> email_re (py_strip item)) \<longleftrightarrow> \<not> email_body (py_strip item)"
    using email_body_nonempty by (auto simp: email_re_stripped)
  with Cons show ?case by (auto simp: valid_candidates_def Let_def)
qed (simp add: valid_candidates_def)

lemma first_by_key_subseq: "subseq (first_by_key f seen xs) xs"
  by (induction xs arbitrary: seen) auto

lemma set_first_by_key: "set (first_by_key f seen xs) \<subseteq> set xs"
  by (induction xs arbitrary: seen) (auto split: if_splits)

lemma first_by_key_keys: "f ` set (first_by_key f seen xs) = f ` set xs - seen"
  by (induction xs arbitrary: seen) auto

lemma first_by_key_distinct: "distinct (map f (first_by_key f seen xs))"
proof (induction xs arbitrary: seen)
  case (Cons x xs)
  have "f x \<notin> f ` set (first_by_key f (insert (f x) seen) xs)"
    by (simp add: first_by_key_keys)
  with Cons show ?case by auto
qed simp

lemma first_by_key_first:
  "x \<in> set (first_by_key f seen xs) \<Longrightarrow> find (\<lambda>y. f y = f x) xs = Some x"
proof (induction xs arbitrary: seen)
  case (Cons y ys)
  show ?case
  proof (cases "f y \<in> seen \<or> x \<noteq> y")
    case True
    then have "\<exists>s. x \<in> set (first_by_key f s ys) \<and> f y \<in> s"
      using Cons.prems by (auto split: if_splits)
    then obtain s where s: "x \<in> set (first_by_key f s ys)" "f y \<in> s" by blast
    then have "f x \<notin> s" using first_by_key_keys [of f s ys] by auto
    with s Cons.IH [OF s(1)] show ?thesis by auto
  qed auto
qed simp

lemma first_by_key_id:
  "distinct (map f xs) \<Longrightarrow> f ` set xs \<inter> seen = {} \<Longrightarrow> first_by_key f seen xs = xs"
  by (induction xs arbitrary: seen) auto

lemma parse_recipients_eq:
  "parse_recipients (Some v) = first_by_key py_lower {} (valid_candidates (re_split_runs recipient_separator v))"
proof (cases "v = []")
  case True
  have "re_split_runs recipient_separator [] = [[]]" by (simp add: re_split_runs.simps)
  with True show ?thesis
    by (simp add: parse_recipients_def valid_candidates_def py_strip_def email_body_def)
qed (simp add: parse_recipients_def dedupe_emails_def dedupe_loop_eq)

lemma re_split_piece_strip:
  "w \<in> set (re_split_runs recipient_separator v) \<Longrightarrow> py_strip w = w"
  by (rule py_strip_no_space) (auto simp: recipient_separator_def dest: re_split_runs_no_separator)

lemma valid_candidates_pieces:
  "valid_candidates (re_split_runs recipient_separator v) = filter email_body (re_split_runs recipient_separator v)"
proof -
  have "map py_strip (re_split_runs recipient_separator v) = re_split_runs recipient_separator v"
    by (rule map_idI) (rule re_split_piece_strip)
  then show ?thesis by (simp add: valid_candidates_def)
qed

lemma parse_recipients_member:
  assumes "e \<in> set (parse_recipients value)"
  obtains v where "value = Some v" "e \<in> set (re_split_runs recipient_separator v)" "email_body e"
proof -
  obtain v where v: "value = Some v" using assms by (cases "value") (auto simp: parse_recipients_def)
  have "e \<in> set (valid_candidates (re_split_runs recipient_separator v))"
    using assms set_first_by_key [of py_lower "{}"] by (auto simp: v parse_recipients_eq)
  with v that show thesis by (auto simp: valid_candidates_pieces)
qed

lemma re_split_runs_join:
  assumes "ws \<noteq> []" "p c" "\<And>w. w \<in> set ws \<Longrightarrow> w \<noteq> [] \<and> (\<forall>x \<in> set w. \<not> p x)"
  shows "re_split_runs p (py_join [c] ws) = ws"
  using assms
proof (induction ws rule: induct_list012)
  case (2 w)
  then have "dropWhile (\<lambda>c. \<not> p c) w = []" by simp
  then show ?case by (simp only: re_split_runs.simps [of p w] py_join.simps list.case)
next
  case (3 w w' ws)
  let ?rest = "py_join [c] (w' # ws)"
  have rest: "re_split_runs p ?rest = w' # ws"
    by (rule "3.IH"(2)) (use "3.prems" in auto)
  have w: "\<forall>x \<in> set w. \<not> p x" "w' \<noteq> []" using "3.prems"(3) [of w] "3.prems"(3) [of w'] by auto
  have "\<forall>x \<in> set w'. \<not> p x" using "3.prems"(3) [of w'] by simp
  then have w': "\<not> p (hd w')" using w(2) by simp
  have "dropWhile p ?rest = ?rest"
    using w(2) w' by (cases w'; cases ws) auto
  moreover have "dropWhile (\<lambda>c. \<not> p c) (w @ c # ?rest) = c # ?rest"
    and "takeWhile (\<lambda>c. \<not> p c) (w @ c # ?rest) = w"
    using w(1) \<open>p c\<close> by (simp_all add: dropWhile_append takeWhile_append)
  ultimately show ?case
    using rest \<open>p c\<close> by (simp add: re_split_runs.simps [of p "w @ c # ?rest"])
qed simp

lemma parse_recipients_pieces:
  assumes "e \<in> set (parse_recipients value)"
  shows "email_body e" "py_strip e = e" "c \<in> set e \<Longrightarrow> \<not> recipient_separator c"
  using assms by (auto elim!: parse_recipients_member dest: re_split_runs_no_separator email_body_strip)

section \<open>Synthetic ids\<close>

lemma sort_Nil_iff [simp]: "sort xs = [] \<longleftrightarrow> xs = []"
  by (metis length_0_conv length_sort)

lemma recipients_canonical_mset:
  "mset (map py_lower xs) = mset (map py_lower ys) \<Longrightarrow> recipients_canonical xs = recipients_canonical ys"
proof -
  assume "mset (map py_lower xs) = mset (map py_lower ys)"
  then have "sort (map py_lower xs) = sort (map py_lower ys)"
    by (intro properties_for_sort) simp_all
  then show ?thesis by (simp only: recipients_canonical_def)
qed

lemma synthetic_email_user_id_shape:
  "\<exists>h. synthetic_email_user_id emails = ''email-ingest:'' @ h \<and> length h = 16 \<and> list_all is_hex_digit h"
proof -
  let ?h = "sha256_hexdigest (py_encode_utf8 (recipients_canonical emails))"
  have "list_all is_hex_digit (take 16 ?h)"
    using sha256_hexdigest_hex by (metis append_take_drop_id list_all_append)
  then show ?thesis
    by (auto simp: synthetic_email_user_id_def sha256_hexdigest_length)
qed

text \<open>Addresses without the joining character are recovered from the canonical text.\<close>

lemma recipients_canonical_inj:
  assumes "recipients_canonical xs = recipients_canonical ys"
    and "\<And>e. e \<in> set xs \<union> set ys \<Longrightarrow> e \<noteq> [] \<and> CHR ''|'' \<notin> set (py_lower e)"
    and "xs \<noteq> []" "ys \<noteq> []"
  shows "mset (map py_lower xs) = mset (map py_lower ys)"
proof -
  let ?p = "\<lambda>c. c = CHR ''|''"
  have split: "re_split_runs ?p (recipients_canonical zs) = sort (map py_lower zs)"
    if "zs \<noteq> []" "set zs \<subseteq> set xs \<union> set ys" for zs
    unfolding recipients_canonical_def
    by (rule re_split_runs_join) (use that assms(2) in auto)
  have "sort (map py_lower xs) = sort (map py_lower ys)"
    using split [of xs] split [of ys] assms(1,3,4) by simp
  then show ?thesis by (metis mset_sort)
qed

section \<open>Properties\<close>

text \<open>
  C33: the parsed list holds exactly one spelling, the first, of every address that occurs as
  a piece of the field, in the order of the field, and nothing else.
\<close>

theorem parse_recipients_correct:
  "subseq (parse_recipients (Some v)) (re_split_runs recipient_separator v) \<and>
   list_all email_body (parse_recipients (Some v)) \<and>
   distinct (map py_lower (parse_recipients (Some v))) \<and>
   py_lower ` set (parse_recipients (Some v)) = py_lower ` {w \<in> set (re_split_runs recipient_separator v). email_body w} \<and>
   list_all (\<lambda>e. find (\<lambda>w. email_body w \<and> py_lower w = py_lower e) (re_split_runs recipient_separator v) = Some e)
     (parse_recipients (Some v))"
proof -
  let ?ps = "re_split_runs recipient_separator v" and ?r = "parse_recipients (Some v)"
  have r: "?r = first_by_key py_lower {} (filter email_body ?ps)"
    by (simp add: parse_recipients_eq valid_candidates_pieces)
  have "subseq ?r ?ps"
    unfolding r using first_by_key_subseq subseq_filter_left subseq_order.order_trans by blast
  moreover have "list_all email_body ?r"
    unfolding list_all_iff using parse_recipients_member by blast
  moreover have "distinct (map py_lower ?r)" unfolding r by (rule first_by_key_distinct)
  moreover have "py_lower ` set ?r = py_lower ` {w \<in> set ?ps. email_body w}"
    unfolding r by (simp add: first_by_key_keys)
  moreover have "find (\<lambda>w. email_body w \<and> py_lower w = py_lower e) ?ps = Some e" if "e \<in> set ?r" for e
  proof -
    have "find (\<lambda>w. py_lower w = py_lower e) (filter email_body ?ps) = Some e"
      using that unfolding r by (rule first_by_key_first)
    moreover have "find P (filter Q xs) = find (\<lambda>w. Q w \<and> P w) xs" for P Q and xs :: "string list"
      by (induction xs) auto
    ultimately show ?thesis by simp
  qed
  ultimately show ?thesis by (simp add: list_all_iff)
qed

text \<open>
  C34: writing the parsed addresses back, joined by commas, and reading the field again
  gives the same list: the parser is a normal form for the recipient field.
\<close>

theorem parse_recipients_roundtrip:
  "parse_recipients (Some (py_join '','' (parse_recipients value))) = parse_recipients value"
proof (cases "parse_recipients value = []")
  case True
  then show ?thesis by (simp add: parse_recipients_def)
next
  case False
  let ?r = "parse_recipients value"
  obtain v where v: "value = Some v" using False by (cases "value") (auto simp: parse_recipients_def)
  have split: "re_split_runs recipient_separator (py_join '','' ?r) = ?r"
    by (rule re_split_runs_join [OF False])
      (auto simp: recipient_separator_def [of "CHR '',''"] dest: parse_recipients_pieces(1,3) email_body_nonempty)
  have valid: "filter email_body ?r = ?r"
    by (simp add: parse_recipients_pieces(1))
  have "first_by_key py_lower {} ?r = ?r"
    using first_by_key_distinct by (intro first_by_key_id) (simp_all add: v parse_recipients_eq)
  then show ?thesis
    unfolding parse_recipients_eq [of "py_join '','' ?r"] valid_candidates_pieces
    unfolding split valid .
qed

text \<open>
  The synthetic user id does not depend on the order of the addresses or on their
  case, and it is always \<open>email-ingest:\<close> followed by 16 hexadecimal digits.
\<close>

theorem synthetic_id_stable:
  assumes "mset (map py_lower xs) = mset (map py_lower ys)"
  shows "synthetic_email_user_id xs = synthetic_email_user_id ys \<and>
    (\<exists>h. synthetic_email_user_id xs = ''email-ingest:'' @ h \<and> length h = 16 \<and> list_all is_hex_digit h)"
  using recipients_canonical_mset [OF assms] synthetic_email_user_id_shape [of xs]
  by (simp add: synthetic_email_user_id_def)

theorem synthetic_id_stable_witness:
  "synthetic_email_user_id [''B@x.it'', ''a@y.it''] = synthetic_email_user_id [''A@y.it'', ''b@X.it'']"
proof -
  have "mset (map py_lower [''B@x.it'', ''a@y.it'']) = mset (map py_lower [''A@y.it'', ''b@X.it''])"
    by (simp add: py_lower_def lower_char_def is_upper_def code_point_def) code_simp
  from synthetic_id_stable [OF this] show ?thesis by simp
qed

text \<open>
  Two different recipient fields can share one synthetic id: the address pattern lets
  the joining character through, so the joined texts coincide for two lists that differ in
  every address.
\<close>

theorem synthetic_id_collision:
  "parse_recipients (Some ''a@b.c,x|d@e.f'') = [''a@b.c'', ''x|d@e.f''] \<and>
   parse_recipients (Some ''a@b.c|x,d@e.f'') = [''a@b.c|x'', ''d@e.f''] \<and>
   synthetic_email_user_id [''a@b.c'', ''x|d@e.f''] = synthetic_email_user_id [''a@b.c|x'', ''d@e.f'']"
proof (intro conjI)
  show "parse_recipients (Some ''a@b.c,x|d@e.f'') = [''a@b.c'', ''x|d@e.f'']" by code_simp
  show "parse_recipients (Some ''a@b.c|x,d@e.f'') = [''a@b.c|x'', ''d@e.f'']" by code_simp
  have "recipients_canonical [''a@b.c'', ''x|d@e.f''] = recipients_canonical [''a@b.c|x'', ''d@e.f'']"
    by code_simp
  then show "synthetic_email_user_id [''a@b.c'', ''x|d@e.f''] = synthetic_email_user_id [''a@b.c|x'', ''d@e.f'']"
    by (simp only: synthetic_email_user_id_def)
qed

end
