(* ===== verification/RiskSummary.thy ===== *)
theory RiskSummary
  imports PyValue "HOL-Library.Multiset"
begin

text \<open>
  \<open>src/celine/grid/services/risk_summary.py\<close>: which hazards have kilometres at or above a
  threshold, the sums per operational unit and per line, and the body of the risk report.
  A row is a dictionary of the \<open>risk_km\<close> table; every figure is a Python float. The only
  exception that can leave these functions is the \<open>OverflowError\<close> of a huge integer.
\<close>

type_synonym row = pydict

section \<open>Thresholds\<close>

definition level_rank :: "string \<Rightarrow> nat" where
  "level_rank lvl = (if lvl = ''WARNING'' then 1 else if lvl = ''ALERT'' then 2 else 0)"

definition num :: "pyval \<Rightarrow> pyfloat res" where
  "num v = (if v = VNone then Ok (Fin 0)
     else case py_float v of
       Inl e \<Rightarrow> if e = TypeError \<or> e = ValueError then Ok (Fin 0) else Raise e
     | Inr f \<Rightarrow> Ok f)"

definition floor_of :: "string option \<Rightarrow> string" where
  "floor_of threshold = (case threshold of
     Some t \<Rightarrow> if t \<in> {''WARNING'', ''ALERT''} then t else ''ALERT'' | None \<Rightarrow> ''ALERT'')"

definition km_at_or_above :: "row \<Rightarrow> string option \<Rightarrow> pyfloat res" where
  "km_at_or_above r threshold =
     bindR (num (py_get r ''km_alert'')) (\<lambda>km.
       if floor_of threshold = ''WARNING''
       then bindR (num (py_get r ''km_warning'')) (\<lambda>w. Ok (float_add km w))
       else Ok km)"

text \<open>The \<open>any(...)\<close> over the rows stops at the first row that meets the threshold.\<close>

fun any_km :: "row list \<Rightarrow> string option \<Rightarrow> string \<Rightarrow> bool res" where
  "any_km [] threshold vector = Ok False"
| "any_km (r # rs) threshold vector =
     (if py_get r ''risk_vector'' = VStr vector
      then bindR (km_at_or_above r threshold)
             (\<lambda>km. if float_pos km then Ok True else any_km rs threshold vector)
      else any_km rs threshold vector)"

definition triggered_vectors :: "row list \<Rightarrow> string option \<Rightarrow> string list \<Rightarrow> string list res" where
  "triggered_vectors rows threshold risk_types = filterR (any_km rows threshold) risk_types"

section \<open>Sums per group\<close>

record unit_summary =
  u_key :: string
  u_n_tratte :: nat
  u_km_total :: pyfloat
  u_km_alert :: pyfloat
  u_km_warning :: pyfloat
  u_pct_alert :: "pyfloat option"
  u_pct_warning :: "pyfloat option"
  u_risk_index :: "pyfloat option"
  u_worst_level :: string
  u_operational_units :: "string list"
  u_worst_lines :: "string list"

record line_summary =
  l_key :: string
  l_km_total :: pyfloat
  l_km_alert :: pyfloat
  l_km_warning :: pyfloat
  l_risk_index :: "pyfloat option"

definition pct :: "pyfloat \<Rightarrow> pyfloat \<Rightarrow> pyfloat option res" where
  "pct part whole =
     (if float_truthy whole
      then bindR (float_div (float_mul (Fin 100) part) whole) (\<lambda>q. Ok (Some (py_round 1 q)))
      else Ok None)"

definition risk_index_of :: "pyfloat \<Rightarrow> pyfloat \<Rightarrow> pyfloat \<Rightarrow> pyfloat option res" where
  "risk_index_of km_alert km_warning km_total =
     (if float_truthy km_total
      then bindR (float_div (float_mul (Fin 100) (float_add km_alert (float_mul (Fin (1 / 2)) km_warning))) km_total)
             (\<lambda>q. Ok (Some (py_round 1 q)))
      else Ok None)"

definition sum_column :: "string \<Rightarrow> row list \<Rightarrow> pyfloat res" where
  "sum_column c rows = bindR (mapR (\<lambda>r. num (py_get r c)) rows) (\<lambda>xs. Ok (py_sum xs))"

text \<open>\<open>str(row.get(key) or "")\<close>\<close>

definition group_key :: "string \<Rightarrow> row \<Rightarrow> string" where
  "group_key k r = py_str (py_or (py_get r k) (VStr ''''))"

text \<open>\<open>-(index if index is not None else -1)\<close>, the first component of both sort keys.\<close>

definition index_key :: "pyfloat option \<Rightarrow> int \<times> rat" where
  "index_key i = float_key (float_neg (case i of None \<Rightarrow> Fin (- 1) | Some x \<Rightarrow> x))"

definition summarise_line :: "string \<times> row list \<Rightarrow> line_summary res" where
  "summarise_line kg =
     bindR (sum_column ''km_total'' (snd kg)) (\<lambda>km_total.
     bindR (sum_column ''km_alert'' (snd kg)) (\<lambda>km_alert.
     bindR (sum_column ''km_warning'' (snd kg)) (\<lambda>km_warning.
     bindR (risk_index_of km_alert km_warning km_total) (\<lambda>index.
       Ok \<lparr>l_key = fst kg, l_km_total = km_total, l_km_alert = km_alert,
           l_km_warning = km_warning, l_risk_index = index\<rparr>))))"

definition line_order :: "line_summary \<Rightarrow> (int \<times> rat) \<times> (int \<times> rat) \<times> string" where
  "line_order l = (index_key (l_risk_index l), float_key (float_neg (l_km_alert l)), l_key l)"

definition summarise_lines_within :: "row list \<Rightarrow> line_summary list res" where
  "summarise_lines_within rows =
     bindR (mapR summarise_line (group_rows (group_key ''line_name'') rows)) (\<lambda>out.
       Ok (sort_key line_order out))"

definition opt_value :: "pyfloat option \<Rightarrow> pyval" where
  "opt_value i = (case i of None \<Rightarrow> VNone | Some x \<Rightarrow> VFloat x)"

text \<open>A summary is a dictionary again where \<open>km_at_or_above\<close> reads it.\<close>

definition line_row :: "line_summary \<Rightarrow> row" where
  "line_row l = [(''key'', VStr (l_key l)), (''km_total'', VFloat (l_km_total l)),
     (''km_alert'', VFloat (l_km_alert l)), (''km_warning'', VFloat (l_km_warning l)),
     (''risk_index'', opt_value (l_risk_index l))]"

definition unit_row :: "unit_summary \<Rightarrow> row" where
  "unit_row u = [(''key'', VStr (u_key u)), (''n_tratte'', VInt (int (u_n_tratte u))),
     (''km_total'', VFloat (u_km_total u)), (''km_alert'', VFloat (u_km_alert u)),
     (''km_warning'', VFloat (u_km_warning u)), (''pct_alert'', opt_value (u_pct_alert u)),
     (''pct_warning'', opt_value (u_pct_warning u)), (''risk_index'', opt_value (u_risk_index u)),
     (''worst_level'', VStr (u_worst_level u)),
     (''operational_units'', VList (map VStr (u_operational_units u))),
     (''worst_lines'', VList (map VStr (u_worst_lines u)))]"

definition row_level :: "row \<Rightarrow> string" where
  "row_level r = py_str (py_or (py_get r ''worst_level'') (VStr ''NORMAL''))"

definition group_units :: "row list \<Rightarrow> string list" where
  "group_units rows =
     sort (remdups (map (\<lambda>r. py_str (py_get r ''operational_unit''))
       (filter (\<lambda>r. truthy (py_get r ''operational_unit'')) rows)))"

definition worst_lines_of :: "line_summary list \<Rightarrow> string list res" where
  "worst_lines_of lines =
     bindR (filterR (\<lambda>l. bindR (km_at_or_above (line_row l) (Some ''WARNING'')) (\<lambda>km. Ok (float_pos km)))
              (take 3 lines))
       (\<lambda>ls. Ok (map l_key ls))"

definition summarise_group :: "string \<Rightarrow> string \<times> row list \<Rightarrow> unit_summary res" where
  "summarise_group key kg =
     (let g = snd kg in
     bindR (sum_column ''km_total'' g) (\<lambda>km_total.
     bindR (sum_column ''km_alert'' g) (\<lambda>km_alert.
     bindR (sum_column ''km_warning'' g) (\<lambda>km_warning.
     bindR (py_max level_rank (map row_level g)) (\<lambda>worst.
     bindR (risk_index_of km_alert km_warning km_total) (\<lambda>index.
     bindR (if key \<noteq> ''line_name'' then summarise_lines_within g else Ok []) (\<lambda>lines.
     bindR (pct km_alert km_total) (\<lambda>pct_alert.
     bindR (pct km_warning km_total) (\<lambda>pct_warning.
     bindR (worst_lines_of lines) (\<lambda>worst_lines.
       Ok \<lparr>u_key = fst kg, u_n_tratte = length g, u_km_total = py_round 2 km_total,
           u_km_alert = py_round 2 km_alert, u_km_warning = py_round 2 km_warning,
           u_pct_alert = pct_alert, u_pct_warning = pct_warning, u_risk_index = index,
           u_worst_level = worst, u_operational_units = group_units g,
           u_worst_lines = worst_lines\<rparr>))))))))))"

definition unit_order :: "unit_summary \<Rightarrow> (int \<times> rat) \<times> string" where
  "unit_order u = (index_key (u_risk_index u), u_key u)"

definition summarise :: "row list \<Rightarrow> string \<Rightarrow> unit_summary list res" where
  "summarise rows key =
     bindR (mapR (summarise_group key) (group_rows (group_key key) rows)) (\<lambda>out.
       Ok (sort_key unit_order out))"

section \<open>The report body\<close>

record unit_entry =
  ue_operational_unit :: string
  ue_n_tratte :: nat
  ue_km_total :: pyfloat
  ue_km_alert :: pyfloat
  ue_km_warning :: pyfloat
  ue_pct_alert :: "pyfloat option"
  ue_pct_warning :: "pyfloat option"
  ue_risk_index :: "pyfloat option"
  ue_worst_level :: string
  ue_worst_lines :: "string list"

record line_entry =
  le_line_name :: string
  le_operational_units :: "string list"
  le_km_total :: pyfloat
  le_km_alert :: pyfloat
  le_km_warning :: pyfloat
  le_pct_alert :: "pyfloat option"
  le_risk_index :: "pyfloat option"
  le_worst_level :: string

record totals_entry =
  te_n_tratte :: nat
  te_km_total :: pyfloat
  te_km_alert :: pyfloat
  te_km_warning :: pyfloat
  te_pct_alert :: "pyfloat option"
  te_pct_warning :: "pyfloat option"
  te_risk_index :: "pyfloat option"
  te_worst_level :: string

record day_vector =
  dv_risk_vector :: string
  dv_units :: "unit_entry list"
  dv_top_lines :: "line_entry list"
  dv_totals :: totals_entry

record report_day =
  rd_date :: string
  rd_vectors :: "day_vector list"

definition unit_entry_of :: "unit_summary \<Rightarrow> unit_entry" where
  "unit_entry_of u = \<lparr>ue_operational_unit = u_key u, ue_n_tratte = u_n_tratte u,
     ue_km_total = u_km_total u, ue_km_alert = u_km_alert u, ue_km_warning = u_km_warning u,
     ue_pct_alert = u_pct_alert u, ue_pct_warning = u_pct_warning u, ue_risk_index = u_risk_index u,
     ue_worst_level = u_worst_level u, ue_worst_lines = u_worst_lines u\<rparr>"

definition line_entry_of :: "unit_summary \<Rightarrow> line_entry" where
  "line_entry_of u = \<lparr>le_line_name = u_key u, le_operational_units = u_operational_units u,
     le_km_total = u_km_total u, le_km_alert = u_km_alert u, le_km_warning = u_km_warning u,
     le_pct_alert = u_pct_alert u, le_risk_index = u_risk_index u, le_worst_level = u_worst_level u\<rparr>"

definition totals_of :: "unit_summary list \<Rightarrow> totals_entry" where
  "totals_of us = (case us of
     u # _ \<Rightarrow> \<lparr>te_n_tratte = u_n_tratte u, te_km_total = u_km_total u, te_km_alert = u_km_alert u,
        te_km_warning = u_km_warning u, te_pct_alert = u_pct_alert u, te_pct_warning = u_pct_warning u,
        te_risk_index = u_risk_index u, te_worst_level = u_worst_level u\<rparr>
   | [] \<Rightarrow> \<lparr>te_n_tratte = 0, te_km_total = Fin 0, te_km_alert = Fin 0, te_km_warning = Fin 0,
        te_pct_alert = None, te_pct_warning = None, te_risk_index = None, te_worst_level = ''NORMAL''\<rparr>)"

definition day_rows :: "row list \<Rightarrow> string \<Rightarrow> string \<Rightarrow> row list" where
  "day_rows rows date vector =
     filter (\<lambda>r. py_get r ''date'' = VStr date \<and> py_get r ''risk_vector'' = VStr vector) rows"

definition build_day_vector ::
  "row list \<Rightarrow> string \<Rightarrow> string option \<Rightarrow> nat \<Rightarrow> string \<Rightarrow> day_vector res" where
  "build_day_vector rows date threshold top_n vector =
     (let subset = day_rows rows date vector in
      bindR (summarise subset ''operational_unit'') (\<lambda>us.
      bindR (bindR (summarise subset ''line_name'')
               (filterR (\<lambda>l. bindR (km_at_or_above (unit_row l) threshold) (\<lambda>km. Ok (float_pos km))))) (\<lambda>ls.
      bindR (summarise (map (dict_set ''_all'' (VStr ''*'')) subset) ''_all'') (\<lambda>ts.
        Ok \<lparr>dv_risk_vector = vector, dv_units = map unit_entry_of us,
            dv_top_lines = take top_n (map line_entry_of ls), dv_totals = totals_of ts\<rparr>))))"

definition build_days ::
  "row list \<Rightarrow> string list \<Rightarrow> string list \<Rightarrow> string option \<Rightarrow> nat \<Rightarrow> report_day list res" where
  "build_days rows dates vectors threshold top_n =
     mapR (\<lambda>date. bindR (mapR (build_day_vector rows date threshold top_n) vectors)
            (\<lambda>dvs. Ok \<lparr>rd_date = date, rd_vectors = dvs\<rparr>)) dates"

section \<open>Which errors can occur\<close>

text \<open>A result that is a value or the \<open>OverflowError\<close> of \<open>float(int)\<close>.\<close>

definition only_overflow :: "'a res \<Rightarrow> bool" where
  "only_overflow r \<longleftrightarrow> (\<forall>e. r = Inl e \<longrightarrow> e = OverflowError)"

named_theorems overflow_intros \<open>results that raise nothing but OverflowError\<close>

lemma only_overflow_Ok [overflow_intros]: "only_overflow (Inr x)"
  by (simp add: only_overflow_def)

lemma only_overflow_bind [overflow_intros]:
  "only_overflow r \<Longrightarrow> (\<And>x. r = Inr x \<Longrightarrow> only_overflow (f x)) \<Longrightarrow> only_overflow (bindR r f)"
  by (auto simp: only_overflow_def bindR_Raise_iff)

lemma only_overflow_mapR [overflow_intros]:
  "(\<And>x. x \<in> set xs \<Longrightarrow> only_overflow (f x)) \<Longrightarrow> only_overflow (mapR f xs)"
  by (auto simp: only_overflow_def dest: mapR_RaiseD)

lemma only_overflow_filterR [overflow_intros]:
  "(\<And>x. x \<in> set xs \<Longrightarrow> only_overflow (f x)) \<Longrightarrow> only_overflow (filterR f xs)"
  by (auto simp: only_overflow_def dest: filterR_RaiseD)

lemma only_overflow_if [overflow_intros]:
  "(b \<Longrightarrow> only_overflow r) \<Longrightarrow> (\<not> b \<Longrightarrow> only_overflow r') \<Longrightarrow> only_overflow (if b then r else r')"
  by simp

lemma only_overflow_float_of_int: "only_overflow (float_of_int i)"
  by (auto simp: only_overflow_def float_of_int_def split: pyfloat.splits)

lemma only_overflow_num [overflow_intros]: "only_overflow (num v)"
  using only_overflow_float_of_int
  by (cases v) (auto simp: num_def only_overflow_def split: option.splits sum.splits)

lemma only_overflow_km [overflow_intros]: "only_overflow (km_at_or_above r threshold)"
  unfolding km_at_or_above_def by (intro overflow_intros)

lemma only_overflow_any_km [overflow_intros]: "only_overflow (any_km rows threshold vector)"
  by (induction rows) (auto intro!: overflow_intros)

lemma only_overflow_ratio [overflow_intros]:
  "only_overflow (if float_truthy t then bindR (float_div x t) (\<lambda>q. Inr (f q)) else Inr y)"
  by (auto simp: only_overflow_def float_div_def Let_def bindR_Raise_iff)

lemma only_overflow_sum_column [overflow_intros]: "only_overflow (sum_column c rows)"
  unfolding sum_column_def by (intro overflow_intros)

lemma only_overflow_lines [overflow_intros]: "only_overflow (summarise_lines_within rows)"
  unfolding summarise_lines_within_def summarise_line_def risk_index_of_def by (intro overflow_intros)

lemma only_overflow_group:
  assumes "snd kg \<noteq> []"
  shows "only_overflow (summarise_group key kg)"
proof -
  have "only_overflow (py_max level_rank (map row_level (snd kg)))"
    using assms by (cases "snd kg") (auto simp: py_max_def only_overflow_def)
  then show ?thesis
    unfolding summarise_group_def Let_def risk_index_of_def pct_def worst_lines_of_def
    by (intro overflow_intros)
qed

lemma only_overflow_summarise [overflow_intros]: "only_overflow (summarise rows key)"
  unfolding summarise_def
  by (intro overflow_intros only_overflow_group) (metis group_rows_nonempty prod.collapse)

lemma only_overflow_build_days: "only_overflow (build_days rows dates vectors threshold top_n)"
  unfolding build_days_def build_day_vector_def Let_def by (intro overflow_intros)

section \<open>Thresholds: lemmas\<close>

definition row_hits :: "string option \<Rightarrow> string \<Rightarrow> row \<Rightarrow> bool" where
  "row_hits threshold vector r \<longleftrightarrow> py_get r ''risk_vector'' = VStr vector \<and>
     (\<exists>km. km_at_or_above r threshold = Inr km \<and> float_pos km)"

lemma any_km_Ok: "any_km rows threshold vector = Inr b \<Longrightarrow> b \<longleftrightarrow> (\<exists>r \<in> set rows. row_hits threshold vector r)"
  by (induction rows) (auto simp: row_hits_def bindR_Ok_iff split: if_splits)

lemma any_km_all_Ok:
  assumes "\<And>r. r \<in> set rows \<Longrightarrow> \<exists>km. km_at_or_above r threshold = Inr km"
  shows "any_km rows threshold vector = Inr (\<exists>r \<in> set rows. row_hits threshold vector r)"
proof -
  have "\<exists>b. any_km rows threshold vector = Inr b"
    using assms
  proof (induction rows)
    case (Cons r rows)
    then obtain km where "km_at_or_above r threshold = Inr km" by auto
    with Cons show ?case by auto
  qed auto
  then show ?thesis using any_km_Ok by blast
qed

lemma triggered_vectors_Ok:
  assumes "triggered_vectors rows threshold risk_types = Inr vs"
  shows "vs = filter (\<lambda>v. \<exists>r \<in> set rows. row_hits threshold v r) risk_types"
  using assms unfolding triggered_vectors_def
proof (induction risk_types arbitrary: vs)
  case (Cons v risk_types)
  then show ?case by (auto simp: bindR_Ok_iff dest!: any_km_Ok)
qed simp

lemma floor_of_cases: "floor_of threshold = (if threshold = Some ''WARNING'' then ''WARNING'' else ''ALERT'')"
  by (auto simp: floor_of_def split: option.splits)

section \<open>Sums per group: lemmas\<close>

lemma summarise_member:
  assumes "summarise rows key = Inr us" "u \<in> set us"
  shows "summarise_group key (u_key u, filter (\<lambda>r. group_key key r = u_key u) rows) = Inr u"
    and "filter (\<lambda>r. group_key key r = u_key u) rows \<noteq> []"
proof -
  from assms obtain out where out: "mapR (summarise_group key) (group_rows (group_key key) rows) = Inr out"
    and "us = sort_key unit_order out" by (auto simp: summarise_def bindR_Ok_iff)
  with assms(2) have "u \<in> set out" by simp
  from mapR_set [OF out this] obtain k g where kg: "(k, g) \<in> set (group_rows (group_key key) rows)"
    and s: "summarise_group key (k, g) = Inr u" by fastforce
  from s have "u_key u = k" by (auto simp: summarise_group_def Let_def bindR_Ok_iff)
  with kg s show "summarise_group key (u_key u, filter (\<lambda>r. group_key key r = u_key u) rows) = Inr u"
    and "filter (\<lambda>r. group_key key r = u_key u) rows \<noteq> []"
    by (auto simp: group_rows_member)
qed

lemma summarise_group_fields:
  assumes "summarise_group key (k, g) = Inr u"
  obtains t a w where
    "sum_column ''km_total'' g = Inr t" "sum_column ''km_alert'' g = Inr a" "sum_column ''km_warning'' g = Inr w"
    "risk_index_of a w t = Inr (u_risk_index u)" "pct a t = Inr (u_pct_alert u)" "pct w t = Inr (u_pct_warning u)"
    "py_max level_rank (map row_level g) = Inr (u_worst_level u)"
    "u_key u = k" "u_n_tratte u = length g" "u_km_total u = py_round 2 t" "u_km_alert u = py_round 2 a"
    "u_km_warning u = py_round 2 w" "u_operational_units u = group_units g"
  using assms by (auto simp: summarise_group_def Let_def bindR_Ok_iff)

lemma summarise_keys:
  assumes "summarise rows key = Inr us"
  shows "mset (map u_key us) = mset (first_occurrences (map (group_key key) rows))"
proof -
  from assms obtain out where out: "mapR (summarise_group key) (group_rows (group_key key) rows) = Inr out"
    and us: "us = sort_key unit_order out" by (auto simp: summarise_def bindR_Ok_iff)
  have "map u_key out = map fst (group_rows (group_key key) rows)"
    by (rule mapR_map [OF out]) (auto simp: summarise_group_def Let_def bindR_Ok_iff)
  then have "mset (map u_key out) = mset (first_occurrences (map (group_key key) rows))"
    by (simp add: group_rows_keys del: mset_map)
  then show ?thesis by (simp add: us)
qed

lemma summarise_counts:
  assumes "summarise rows key = Inr us"
  shows "sum_list (map u_n_tratte us) = length rows"
proof -
  from assms obtain out where out: "mapR (summarise_group key) (group_rows (group_key key) rows) = Inr out"
    and us: "us = sort_key unit_order out" by (auto simp: summarise_def bindR_Ok_iff)
  have "map u_n_tratte out = map (\<lambda>p. length (snd p)) (group_rows (group_key key) rows)"
    by (rule mapR_map [OF out]) (auto simp: summarise_group_def Let_def bindR_Ok_iff)
  then have "sum_list (map u_n_tratte out) = length rows" by (simp add: group_rows_sizes)
  moreover have "mset (map u_n_tratte us) = mset (map u_n_tratte out)" by (simp add: us)
  ultimately show ?thesis by (metis sum_mset_sum_list)
qed

lemma summarise_sorted: "summarise rows key = Inr us \<Longrightarrow> sorted (map unit_order us)"
  by (auto simp: summarise_def bindR_Ok_iff)

lemma float_neg_order:
  "a \<noteq> NaN \<Longrightarrow> b \<noteq> NaN \<Longrightarrow> float_key (float_neg a) \<le> float_key (float_neg b) \<longleftrightarrow> float_key b \<le> float_key a"
  by (cases a; cases b) (auto simp: float_key_def less_eq_prod_def)

text \<open>The index as the sort reads it: a missing index counts as -1.\<close>

definition index_value :: "pyfloat option \<Rightarrow> pyfloat" where
  "index_value i = (case i of None \<Rightarrow> Fin (- 1) | Some x \<Rightarrow> x)"

lemma unit_order_index:
  assumes "unit_order u \<le> unit_order v"
    and "index_value (u_risk_index u) \<noteq> NaN" "index_value (u_risk_index v) \<noteq> NaN"
  shows "\<not> float_less (index_value (u_risk_index u)) (index_value (u_risk_index v))"
proof -
  have "index_key (u_risk_index u) \<le> index_key (u_risk_index v)"
    using assms(1) by (simp add: unit_order_def less_eq_prod_def [of "(_, _)"]) auto
  then show ?thesis
    using assms(2,3) float_neg_order [of "index_value (u_risk_index u)" "index_value (u_risk_index v)"]
    by (auto simp: index_key_def index_value_def float_less_def)
qed

lemma summarise_Nil [simp]: "summarise [] key = Inr []"
  by (simp add: summarise_def group_rows_def)

section \<open>The report body: lemmas\<close>

lemma build_day_vector_fields:
  assumes "build_day_vector rows date threshold top_n vector = Inr dv"
  obtains us ls ts where
    "summarise (day_rows rows date vector) ''operational_unit'' = Inr us"
    "summarise (day_rows rows date vector) ''line_name'' = Inr ls"
    "summarise (map (dict_set ''_all'' (VStr ''*'')) (day_rows rows date vector)) ''_all'' = Inr ts"
    "dv_risk_vector dv = vector" "dv_units dv = map unit_entry_of us" "dv_totals dv = totals_of ts"
    "dv_top_lines dv = take top_n (map line_entry_of
       (filter (\<lambda>l. bindR (km_at_or_above (unit_row l) threshold) (\<lambda>km. Inr (float_pos km)) = Inr True) ls))"
  using assms by (fastforce simp: build_day_vector_def Let_def bindR_Ok_iff dest!: filterR_Ok)

lemma distinct_singleton: "distinct xs \<Longrightarrow> set xs = {c} \<Longrightarrow> xs = [c]"
  by (cases xs; cases "tl xs") auto

lemma totals_group:
  assumes "summarise (map (dict_set ''_all'' (VStr ''*'')) rows) ''_all'' = Inr ts"
  shows "te_n_tratte (totals_of ts) = length rows"
proof (cases rows)
  case Nil
  with assms show ?thesis by (simp add: totals_of_def)
next
  case (Cons r rs)
  let ?rows = "map (dict_set ''_all'' (VStr ''*'')) rows"
  have key: "group_key ''_all'' (dict_set ''_all'' (VStr ''*'') r) = ''*''" for r
    by (simp add: group_key_def dict_simps py_or_def)
  have "mset (map u_key ts) = mset (first_occurrences (map (\<lambda>_. ''*'') rows))"
    using summarise_keys [OF assms] by (simp add: key comp_def)
  also have "first_occurrences (map (\<lambda>_. ''*'') rows) = [''*'']"
    by (rule distinct_singleton) (auto simp: Cons)
  finally obtain u where u: "ts = [u]" by (metis length_0_conv length_Suc_conv length_map mset_eq_length list.size(3,4))
  with summarise_counts [OF assms] show ?thesis by (simp add: totals_of_def)
qed

lemma build_days_dates: "build_days rows dates vectors threshold top_n = Inr days \<Longrightarrow> map rd_date days = dates"
  unfolding build_days_def by (drule mapR_map [where g = rd_date and h = id]) (auto simp: bindR_Ok_iff)

section \<open>Totality on numeric rows\<close>

definition numeric_row :: "row \<Rightarrow> bool" where
  "numeric_row r \<longleftrightarrow> (\<forall>c \<in> {''km_total'', ''km_alert'', ''km_warning''}. \<exists>x. num (py_get r c) = Inr x)"

lemma group_rows_subset: "kg \<in> set (group_rows key xs) \<Longrightarrow> x \<in> set (snd kg) \<Longrightarrow> x \<in> set xs"
  using group_rows_member [of "fst kg" "snd kg" key xs] by auto

lemma sum_column_total:
  assumes "\<And>r. r \<in> set rows \<Longrightarrow> numeric_row r" "c \<in> {''km_total'', ''km_alert'', ''km_warning''}"
  shows "\<exists>x. sum_column c rows = Inr x"
proof -
  have "\<exists>xs. mapR (\<lambda>r. num (py_get r c)) rows = Inr xs"
    by (rule mapR_total) (use assms in \<open>auto simp: numeric_row_def\<close>)
  then show ?thesis by (auto simp: sum_column_def)
qed

lemma float_div_total: "float_truthy t \<Longrightarrow> \<exists>q. float_div x t = Inr q"
  by (simp add: float_div_def Let_def)

lemma ratios_total: "\<exists>i. risk_index_of a w t = Inr i" "\<exists>p. pct a t = Inr p"
  using float_div_total [of t] by (auto simp: risk_index_of_def pct_def bindR_Ok_iff)

lemma filterR_total: "(\<And>x. x \<in> set xs \<Longrightarrow> \<exists>b. p x = Inr b) \<Longrightarrow> \<exists>ys. filterR p xs = Inr ys"
proof (induction xs)
  case (Cons x xs)
  then obtain b ys where "p x = Inr b" "filterR p xs = Inr ys" by (metis list.set_intros)
  then show ?case by simp
qed simp

lemma worst_lines_total: "\<exists>ls. worst_lines_of lines = Inr ls"
proof -
  have "\<exists>ls. filterR (\<lambda>l. bindR (km_at_or_above (line_row l) (Some ''WARNING'')) (\<lambda>km. Inr (float_pos km)))
      (take 3 lines) = Inr ls"
    by (rule filterR_total) (auto simp: km_at_or_above_def line_row_def dict_simps num_def bindR_Ok_iff)
  then show ?thesis by (auto simp: worst_lines_of_def)
qed

lemma summarise_lines_total:
  assumes "\<And>r. r \<in> set rows \<Longrightarrow> numeric_row r"
  shows "\<exists>ls. summarise_lines_within rows = Inr ls"
proof -
  have "\<exists>out. mapR summarise_line (group_rows (group_key ''line_name'') rows) = Inr out"
  proof (rule mapR_total)
    fix kg assume "kg \<in> set (group_rows (group_key ''line_name'') rows)"
    then have c: "\<exists>x. sum_column c (snd kg) = Inr x" if "c \<in> {''km_total'', ''km_alert'', ''km_warning''}" for c
      using assms that by (intro sum_column_total) (blast dest: group_rows_subset)+
    from c [of "''km_total''"] c [of "''km_alert''"] c [of "''km_warning''"]
    obtain t a w where "sum_column ''km_total'' (snd kg) = Inr t" "sum_column ''km_alert'' (snd kg) = Inr a"
      "sum_column ''km_warning'' (snd kg) = Inr w" by auto
    then show "\<exists>y. summarise_line kg = Inr y"
      using ratios_total(1) [of a w t] by (auto simp: summarise_line_def)
  qed
  then show ?thesis by (auto simp: summarise_lines_within_def)
qed

lemma summarise_group_total:
  assumes "\<And>r. r \<in> set (snd kg) \<Longrightarrow> numeric_row r" "snd kg \<noteq> []"
  shows "\<exists>u. summarise_group key kg = Inr u"
proof -
  have c: "\<exists>x. sum_column c (snd kg) = Inr x" if "c \<in> {''km_total'', ''km_alert'', ''km_warning''}" for c
    using assms(1) that by (rule sum_column_total)
  from c [of "''km_total''"] c [of "''km_alert''"] c [of "''km_warning''"]
  obtain t a w where s: "sum_column ''km_total'' (snd kg) = Inr t" "sum_column ''km_alert'' (snd kg) = Inr a"
    "sum_column ''km_warning'' (snd kg) = Inr w" by auto
  obtain i pa pw where r: "risk_index_of a w t = Inr i" "pct a t = Inr pa" "pct w t = Inr pw"
    using ratios_total by metis
  obtain m where m: "py_max level_rank (map row_level (snd kg)) = Inr m"
    using assms(2) by (cases "snd kg") (auto simp: py_max_def)
  obtain ls where l: "(if key \<noteq> ''line_name'' then summarise_lines_within (snd kg) else Inr []) = Inr ls"
    using summarise_lines_total [OF assms(1)] by (cases "key = ''line_name''") auto
  obtain wl where "worst_lines_of ls = Inr wl" using worst_lines_total by blast
  with s r m l show ?thesis by (simp add: summarise_group_def Let_def)
qed

lemma summarise_total:
  assumes "\<And>r. r \<in> set rows \<Longrightarrow> numeric_row r"
  shows "\<exists>us. summarise rows key = Inr us"
proof -
  have "\<exists>out. mapR (summarise_group key) (group_rows (group_key key) rows) = Inr out"
    by (rule mapR_total, rule summarise_group_total)
      (use assms in \<open>auto dest: group_rows_subset simp: group_rows_member\<close>)
  then show ?thesis by (auto simp: summarise_def)
qed

lemma build_day_vector_total:
  assumes "\<And>r. r \<in> set rows \<Longrightarrow> numeric_row r"
  shows "\<exists>dv. build_day_vector rows date threshold top_n vector = Inr dv"
proof -
  let ?g = "day_rows rows date vector"
  have g: "numeric_row r" if "r \<in> set ?g" for r using that assms by (auto simp: day_rows_def)
  have a: "numeric_row r" if "r \<in> set (map (dict_set ''_all'' (VStr ''*'')) ?g)" for r
    using that g by (auto simp: numeric_row_def dict_simps)
  obtain us ls ts where s: "summarise ?g ''operational_unit'' = Inr us" "summarise ?g ''line_name'' = Inr ls"
    "summarise (map (dict_set ''_all'' (VStr ''*'')) ?g) ''_all'' = Inr ts"
    using summarise_total [OF g] summarise_total [OF a] by metis
  have "\<exists>out. filterR (\<lambda>l. bindR (km_at_or_above (unit_row l) threshold) (\<lambda>km. Inr (float_pos km))) ls = Inr out"
    by (rule filterR_total) (auto simp: km_at_or_above_def unit_row_def dict_simps num_def bindR_Ok_iff)
  with s show ?thesis by (auto simp: build_day_vector_def)
qed

lemma build_days_total:
  assumes "\<And>r. r \<in> set rows \<Longrightarrow> numeric_row r"
  shows "\<exists>days. build_days rows dates vectors threshold top_n = Inr days"
proof -
  have "\<exists>dvs. mapR (build_day_vector rows date threshold top_n) vectors = Inr dvs" for date
    by (rule mapR_total) (rule build_day_vector_total [OF assms])
  then show ?thesis unfolding build_days_def
    by (intro mapR_total) (metis bindR.simps(2))
qed

section \<open>Properties\<close>

text \<open>
  The figure a row gives for a column, stated on its own: the value as a float, and 0 where
  \<open>float(...)\<close> refuses the value (a missing column is \<open>None\<close>, which it refuses too).
\<close>

definition figure :: "row \<Rightarrow> string \<Rightarrow> pyfloat \<Rightarrow> bool" where
  "figure r c x \<longleftrightarrow> py_float (py_get r c) = Inr x \<or>
     x = Fin 0 \<and> py_float (py_get r c) \<in> {Inl TypeError, Inl ValueError}"

lemma num_Ok_iff: "num (py_get r c) = Inr x \<longleftrightarrow> figure r c x"
  by (cases "py_get r c = VNone") (auto simp: num_def figure_def split: sum.splits)

lemma num_Raise: "num v = Inl e \<Longrightarrow> py_float v = Inl e \<and> e = OverflowError"
  using only_overflow_num [of v] by (auto simp: only_overflow_def num_def split: if_splits sum.splits)

lemma row_hits_figures:
  "row_hits threshold v r \<longleftrightarrow> py_get r ''risk_vector'' = VStr v \<and>
     (\<exists>a. figure r ''km_alert'' a \<and>
       (if threshold = Some ''WARNING''
        then \<exists>w. figure r ''km_warning'' w \<and> float_pos (float_add a w) else float_pos a))"
  by (auto simp: row_hits_def km_at_or_above_def floor_of_cases bindR_Ok_iff num_Ok_iff)

lemma km_Raise:
  "km_at_or_above r threshold = Inl e \<Longrightarrow> e = OverflowError \<and>
     (py_float (py_get r ''km_alert'') = Inl OverflowError \<or>
      threshold = Some ''WARNING'' \<and> py_float (py_get r ''km_warning'') = Inl OverflowError)"
  by (auto simp: km_at_or_above_def floor_of_cases bindR_Raise_iff split: if_splits dest!: num_Raise)

lemma any_km_RaiseD:
  "any_km rows threshold v = Inl e \<Longrightarrow>
     \<exists>r \<in> set rows. py_get r ''risk_vector'' = VStr v \<and> km_at_or_above r threshold = Inl e"
  by (induction rows) (auto simp: bindR_Raise_iff split: if_splits)

text \<open>
  C15: a rule is triggered for exactly those of its hazards for which some row of that very
  hazard has a positive number of kilometres at or above the threshold, in the order the rule
  names them: the kilometres in alert alone, and at WARNING (and no other threshold) those in
  alert and those in warning added as floats. Nothing but the \<open>OverflowError\<close> of an integer
  too big for a float can be raised, by a row of one of the hazards, and the warning column can
  raise it at WARNING only.
\<close>

theorem triggered_vectors_correct:
  "case triggered_vectors rows threshold risk_types of
     Inr vs \<Rightarrow> vs = filter (\<lambda>v. \<exists>r \<in> set rows. py_get r ''risk_vector'' = VStr v \<and>
       (\<exists>a. figure r ''km_alert'' a \<and>
         (if threshold = Some ''WARNING''
          then \<exists>w. figure r ''km_warning'' w \<and> float_pos (float_add a w)
          else float_pos a))) risk_types
   | Inl e \<Rightarrow> e = OverflowError \<and> (\<exists>v \<in> set risk_types. \<exists>r \<in> set rows.
       py_get r ''risk_vector'' = VStr v \<and>
       (py_float (py_get r ''km_alert'') = Inl OverflowError \<or>
        threshold = Some ''WARNING'' \<and> py_float (py_get r ''km_warning'') = Inl OverflowError))"
proof (cases "triggered_vectors rows threshold risk_types")
  case (Inl e)
  then obtain v where "v \<in> set risk_types" "any_km rows threshold v = Inl e"
    by (auto simp: triggered_vectors_def dest: filterR_RaiseD)
  with Inl show ?thesis by (auto dest!: any_km_RaiseD km_Raise)
next
  case (Inr vs)
  then show ?thesis using triggered_vectors_Ok [OF Inr] by (simp add: row_hits_figures)
qed

definition sample_row :: "string \<Rightarrow> string \<Rightarrow> int \<Rightarrow> int \<Rightarrow> int \<Rightarrow> row" where
  "sample_row unit line t a w = [(''date'', VStr ''2026-08-15''), (''risk_vector'', VStr ''wind''),
     (''operational_unit'', VStr unit), (''line_name'', VStr line),
     (''km_total'', VInt t), (''km_alert'', VInt a), (''km_warning'', VInt w), (''worst_level'', VStr ''ALERT'')]"

lemmas sample_eval = sample_row_def dict_simps num_def float_of_int_def float_eval
  km_at_or_above_def floor_of_cases py_or_def

text \<open>A row with two kilometres in warning and none in alert triggers at WARNING and not at ALERT.\<close>

theorem triggered_vectors_correct_witness:
  "triggered_vectors [sample_row ''U'' ''L'' 4 0 2] (Some ''WARNING'') [''heat'', ''wind''] = Inr [''wind''] \<and>
   triggered_vectors [sample_row ''U'' ''L'' 4 0 2] (Some ''ALERT'') [''heat'', ''wind''] = Inr [] \<and>
   (\<exists>w. figure (sample_row ''U'' ''L'' 4 0 2) ''km_warning'' w \<and> float_pos w)"
proof (intro conjI)
  show t: "triggered_vectors [sample_row ''U'' ''L'' 4 0 2] (Some ''WARNING'') [''heat'', ''wind''] = Inr [''wind'']"
    by (simp add: triggered_vectors_def sample_eval)
  show "triggered_vectors [sample_row ''U'' ''L'' 4 0 2] (Some ''ALERT'') [''heat'', ''wind''] = Inr []"
    by (simp add: triggered_vectors_def sample_eval)
  have "\<exists>a w. figure (sample_row ''U'' ''L'' 4 0 2) ''km_alert'' a \<and>
      figure (sample_row ''U'' ''L'' 4 0 2) ''km_warning'' w \<and> float_pos (float_add a w)"
    using triggered_vectors_correct [where rows = "[sample_row ''U'' ''L'' 4 0 2]" and
      threshold = "Some ''WARNING''" and risk_types = "[''heat'', ''wind'']"]
    unfolding t by (auto split: if_splits)
  then show "\<exists>w. figure (sample_row ''U'' ''L'' 4 0 2) ''km_warning'' w \<and> float_pos w"
    by (auto simp: figure_def sample_eval)
qed

text \<open>
  A threshold is a floor. On rows whose figures are numbers, with no negative
  kilometres at WARNING, every hazard that triggers at ALERT triggers at WARNING too, and a
  threshold that is not recognised behaves as ALERT.
\<close>

theorem threshold_is_a_floor:
  assumes "\<And>r. r \<in> set rows \<Longrightarrow> \<exists>a w. num (py_get r ''km_alert'') = Inr a \<and> wf_float a \<and>
      num (py_get r ''km_warning'') = Inr w \<and> float_nonneg w"
    and "other \<noteq> Some ''WARNING''"
  shows "\<exists>va vw. triggered_vectors rows (Some ''ALERT'') risk_types = Inr va \<and>
     triggered_vectors rows (Some ''WARNING'') risk_types = Inr vw \<and> set va \<subseteq> set vw \<and>
     triggered_vectors rows other risk_types = Inr va"
proof -
  have a: "\<exists>km. km_at_or_above r (Some ''ALERT'') = Inr km" and w: "\<exists>km. km_at_or_above r (Some ''WARNING'') = Inr km"
    if "r \<in> set rows" for r
    using assms(1) [OF that] by (auto simp: km_at_or_above_def floor_of_cases)
  have va: "triggered_vectors rows (Some ''ALERT'') risk_types =
      Inr (filter (\<lambda>v. \<exists>r \<in> set rows. row_hits (Some ''ALERT'') v r) risk_types)"
    unfolding triggered_vectors_def by (induction risk_types) (simp_all add: any_km_all_Ok [OF a])
  have vw: "triggered_vectors rows (Some ''WARNING'') risk_types =
      Inr (filter (\<lambda>v. \<exists>r \<in> set rows. row_hits (Some ''WARNING'') v r) risk_types)"
    unfolding triggered_vectors_def by (induction risk_types) (simp_all add: any_km_all_Ok [OF w])
  have "row_hits (Some ''WARNING'') v r" if "row_hits (Some ''ALERT'') v r" "r \<in> set rows" for v r
    using that(1) assms(1) [OF that(2)]
    by (auto simp: row_hits_def km_at_or_above_def floor_of_cases float_add_pos)
  moreover have "km_at_or_above r other = km_at_or_above r (Some ''ALERT'')" for r
    using assms(2) by (simp add: km_at_or_above_def floor_of_cases)
  then have "any_km rows other v = any_km rows (Some ''ALERT'') v" for v
    by (induction rows) (simp_all cong: if_cong)
  then have "any_km rows other = any_km rows (Some ''ALERT'')" by (rule ext)
  then have "triggered_vectors rows other risk_types = triggered_vectors rows (Some ''ALERT'') risk_types"
    by (simp add: triggered_vectors_def)
  ultimately show ?thesis using va vw by auto
qed

theorem threshold_is_a_floor_witness:
  "\<exists>va vw. triggered_vectors [sample_row ''U'' ''L'' 4 1 2] (Some ''ALERT'') [''wind''] = Inr va \<and>
     triggered_vectors [sample_row ''U'' ''L'' 4 1 2] (Some ''WARNING'') [''wind''] = Inr vw \<and> set va \<subseteq> set vw \<and>
     triggered_vectors [sample_row ''U'' ''L'' 4 1 2] (Some ''SEVERE'') [''wind''] = Inr va"
proof (rule threshold_is_a_floor)
  fix r assume "r \<in> set [sample_row ''U'' ''L'' 4 1 2]"
  then show "\<exists>a w. num (py_get r ''km_alert'') = Inr a \<and> wf_float a \<and>
      num (py_get r ''km_warning'') = Inr w \<and> float_nonneg w"
    using is_double_of_int [of 1] by (simp add: sample_eval float_nonneg_def)
qed simp

text \<open>
  C24: \<open>summarise\<close> partitions the rows by the text of the key column: one entry per distinct
  key, each counting and summing exactly the rows with that key, the counts adding up to
  the number of rows, with the worst level attained in the group and the index recomputed
  from the sums.
\<close>

theorem summarise_partitions:
  assumes "summarise rows key = Inr us"
  shows "distinct (map u_key us) \<and> set (map u_key us) = group_key key ` set rows \<and>
    sum_list (map u_n_tratte us) = length rows \<and>
    (\<forall>u \<in> set us. \<exists>t a w. let g = filter (\<lambda>r. group_key key r = u_key u) rows in
       g \<noteq> [] \<and> u_n_tratte u = length g \<and>
       sum_column ''km_total'' g = Inr t \<and> sum_column ''km_alert'' g = Inr a \<and> sum_column ''km_warning'' g = Inr w \<and>
       u_km_total u = py_round 2 t \<and> u_km_alert u = py_round 2 a \<and> u_km_warning u = py_round 2 w \<and>
       risk_index_of a w t = Inr (u_risk_index u) \<and>
       (\<exists>r \<in> set g. u_worst_level u = row_level r) \<and>
       (\<forall>r \<in> set g. level_rank (row_level r) \<le> level_rank (u_worst_level u)))"
proof (intro conjI ballI)
  note keys = summarise_keys [OF assms]
  show "distinct (map u_key us)"
    using keys by (metis distinct_first_occurrences mset_eq_imp_distinct_iff)
  show "set (map u_key us) = group_key key ` set rows"
    using mset_eq_setD [OF keys] by simp
  show "sum_list (map u_n_tratte us) = length rows" by (rule summarise_counts [OF assms])
  fix u assume u: "u \<in> set us"
  let ?g = "filter (\<lambda>r. group_key key r = u_key u) rows"
  note m = summarise_member [OF assms u]
  from summarise_group_fields [OF m(1)] obtain t a w where
    f: "sum_column ''km_total'' ?g = Inr t" "sum_column ''km_alert'' ?g = Inr a" "sum_column ''km_warning'' ?g = Inr w"
      "risk_index_of a w t = Inr (u_risk_index u)" "u_n_tratte u = length ?g"
      "u_km_total u = py_round 2 t" "u_km_alert u = py_round 2 a" "u_km_warning u = py_round 2 w"
      and worst: "py_max level_rank (map row_level ?g) = Inr (u_worst_level u)" by metis
  from py_max_Ok [OF worst] have "(\<exists>r \<in> set ?g. u_worst_level u = row_level r) \<and>
    (\<forall>r \<in> set ?g. level_rank (row_level r) \<le> level_rank (u_worst_level u))" by auto
  with f m(2) show "\<exists>t a w. let g = ?g in
       g \<noteq> [] \<and> u_n_tratte u = length g \<and>
       sum_column ''km_total'' g = Inr t \<and> sum_column ''km_alert'' g = Inr a \<and> sum_column ''km_warning'' g = Inr w \<and>
       u_km_total u = py_round 2 t \<and> u_km_alert u = py_round 2 a \<and> u_km_warning u = py_round 2 w \<and>
       risk_index_of a w t = Inr (u_risk_index u) \<and>
       (\<exists>r \<in> set g. u_worst_level u = row_level r) \<and>
       (\<forall>r \<in> set g. level_rank (row_level r) \<le> level_rank (u_worst_level u))"
    unfolding Let_def by blast
qed

lemmas summarise_eval = summarise_def group_rows_def setdefault_fold_def group_key_def
  summarise_group_def sum_column_def py_max_def level_rank_def row_level_def risk_index_of_def
  summarise_lines_within_def summarise_line_def pct_def worst_lines_of_def group_units_def line_row_def
  sort_key_def unit_order_def line_order_def Let_def

lemma summarise_sample:
  "\<exists>u. summarise [sample_row ''U'' ''L'' 4 1 2] ''operational_unit'' = Inr [u]"
  by (simp add: summarise_eval sample_eval)

theorem summarise_partitions_witness:
  "\<exists>us. summarise [sample_row ''U'' ''L'' 4 1 2] ''operational_unit'' = Inr us \<and>
     set (map u_key us) = {''U''} \<and> sum_list (map u_n_tratte us) = 1"
proof -
  obtain u where u: "summarise [sample_row ''U'' ''L'' 4 1 2] ''operational_unit'' = Inr [u]"
    using summarise_sample by blast
  from summarise_partitions [OF u] have "set (map u_key [u]) = {''U''}" "sum_list (map u_n_tratte [u]) = 1"
    by (simp_all add: group_key_def sample_row_def dict_simps py_or_def)
  with u show ?thesis by blast
qed

text \<open>
  The entries come in the order of their risk index, highest first, a missing index
  counting as -1, and by key where the index is equal. (NaN has no place in Python's order
  either, so it is excluded.)
\<close>

theorem summarise_ordered:
  assumes "summarise rows key = Inr us" and "i < j" "j < length us"
    and "index_value (u_risk_index (us ! i)) \<noteq> NaN" "index_value (u_risk_index (us ! j)) \<noteq> NaN"
  shows "\<not> float_less (index_value (u_risk_index (us ! i))) (index_value (u_risk_index (us ! j))) \<and>
    (u_risk_index (us ! i) = u_risk_index (us ! j) \<longrightarrow> u_key (us ! i) \<le> u_key (us ! j))"
proof -
  have "sorted_wrt (\<le>) (map unit_order us)" using summarise_sorted [OF assms(1)] by simp
  then have "unit_order (us ! i) \<le> unit_order (us ! j)"
    using sorted_wrt_nth_less [of "(\<le>)" "map unit_order us" i j] assms(2,3) by simp
  then show ?thesis using unit_order_index assms(4,5) by (auto simp: unit_order_def less_eq_prod_def)
qed

text \<open>The summary of a group of one row, from its pieces.\<close>

lemma py_round_int [simp]: "py_round n (Fin 0) = Fin 0"
  by (simp add: py_round_def float_zero_def)

lemma summarise_group_single:
  assumes "num (py_get r ''km_total'') = Inr t" "num (py_get r ''km_alert'') = Inr a"
    "num (py_get r ''km_warning'') = Inr w"
    and "risk_index_of (py_sum [a]) (py_sum [w]) (py_sum [t]) = Inr i"
    and "pct (py_sum [a]) (py_sum [t]) = Inr pa" "pct (py_sum [w]) (py_sum [t]) = Inr pw"
    and "summarise_lines_within [r] = Inr ls" "worst_lines_of ls = Inr wl"
  shows "summarise_group ''operational_unit'' (k, [r]) = Inr
    \<lparr>u_key = k, u_n_tratte = 1, u_km_total = py_round 2 (py_sum [t]), u_km_alert = py_round 2 (py_sum [a]),
     u_km_warning = py_round 2 (py_sum [w]), u_pct_alert = pa, u_pct_warning = pw, u_risk_index = i,
     u_worst_level = row_level r, u_operational_units = group_units [r], u_worst_lines = wl\<rparr>"
  using assms by (simp add: summarise_group_def sum_column_def py_max_def)

lemma py_sum_single: "py_sum [Fin 0] = Fin 0" "py_sum [Fin 1] = Fin 1" "py_sum [Fin 2] = Fin 2" "py_sum [Fin 4] = Fin 4"
  by (simp_all add: float_eval)

lemma sample_ratios:
  "risk_index_of (Fin 1) (Fin 0) (Fin 4) = Inr (Some (Fin 25))"
  "risk_index_of (Fin 2) (Fin 0) (Fin 4) = Inr (Some (Fin 50))"
  "pct (Fin 0) (Fin 4) = Inr (Some (Fin 0))" "pct (Fin 1) (Fin 4) = Inr (Some (Fin 25))"
  "pct (Fin 2) (Fin 4) = Inr (Some (Fin 50))"
  by (simp_all add: risk_index_of_def pct_def float_eval)

lemma sample_num:
  "num (py_get (sample_row u l t a w) ''km_total'') = float_of_int t"
  "num (py_get (sample_row u l t a w) ''km_alert'') = float_of_int a"
  "num (py_get (sample_row u l t a w) ''km_warning'') = float_of_int w"
  by (auto simp: sample_row_def dict_simps num_def only_overflow_def split: sum.splits
      dest: only_overflow_float_of_int [unfolded only_overflow_def, rule_format])

lemma small_floats: "float_of_int 0 = Inr (Fin 0)" "float_of_int 1 = Inr (Fin 1)" "float_of_int 2 = Inr (Fin 2)"
  "float_of_int 4 = Inr (Fin 4)"
  by (simp_all add: float_of_int_def)

lemma summarise_lines_single:
  assumes "num (py_get r ''km_total'') = Inr t" "num (py_get r ''km_alert'') = Inr a"
    "num (py_get r ''km_warning'') = Inr w" "risk_index_of (py_sum [a]) (py_sum [w]) (py_sum [t]) = Inr i"
  shows "summarise_lines_within [r] = Inr [\<lparr>l_key = group_key ''line_name'' r, l_km_total = py_sum [t],
    l_km_alert = py_sum [a], l_km_warning = py_sum [w], l_risk_index = i\<rparr>]"
  using assms by (simp add: summarise_lines_within_def group_rows_def setdefault_fold_def
      summarise_line_def sum_column_def sort_key_def)

lemma worst_lines_sample:
  "worst_lines_of [\<lparr>l_key = k, l_km_total = t, l_km_alert = Fin 1, l_km_warning = Fin 0, l_risk_index = i\<rparr>] = Inr [k]"
  "worst_lines_of [\<lparr>l_key = k, l_km_total = t, l_km_alert = Fin 2, l_km_warning = Fin 0, l_risk_index = i\<rparr>] = Inr [k]"
  by (simp_all add: worst_lines_of_def line_row_def dict_simps km_at_or_above_def floor_of_cases num_def float_eval)

lemmas sample_pieces = sample_num small_floats py_sum_single sample_ratios worst_lines_sample

lemma summarise_group_samples:
  "\<exists>x. summarise_group ''operational_unit'' (k, [sample_row u l 4 1 0]) = Inr x \<and> u_key x = k \<and>
    u_risk_index x = Some (Fin 25)"
  "\<exists>x. summarise_group ''operational_unit'' (k, [sample_row u l 4 2 0]) = Inr x \<and> u_key x = k \<and>
    u_risk_index x = Some (Fin 50)"
  by (simp_all add: summarise_group_single sample_pieces summarise_lines_single)

lemma summarise_two_samples:
  "\<exists>us. summarise [sample_row ''A'' ''L'' 4 1 0, sample_row ''B'' ''M'' 4 2 0] ''operational_unit'' = Inr us \<and>
     map u_key us = [''B'', ''A''] \<and> map u_risk_index us = [Some (Fin 50), Some (Fin 25)]"
proof -
  obtain x y where x: "summarise_group ''operational_unit'' (''A'', [sample_row ''A'' ''L'' 4 1 0]) = Inr x"
      "u_key x = ''A''" "u_risk_index x = Some (Fin 25)"
    and y: "summarise_group ''operational_unit'' (''B'', [sample_row ''B'' ''M'' 4 2 0]) = Inr y"
      "u_key y = ''B''" "u_risk_index y = Some (Fin 50)"
    using summarise_group_samples by blast
  have "group_rows (group_key ''operational_unit'') [sample_row ''A'' ''L'' 4 1 0, sample_row ''B'' ''M'' 4 2 0] =
      [(''A'', [sample_row ''A'' ''L'' 4 1 0]), (''B'', [sample_row ''B'' ''M'' 4 2 0])]"
    by (simp add: group_rows_def setdefault_fold_def group_key_def sample_row_def dict_simps py_or_def)
  moreover have "unit_order y < unit_order x"
    by (simp add: unit_order_def index_key_def x y float_key_def less_prod_def)
  then have "sort_key unit_order [x, y] = [y, x]" by (simp add: sort_key_def)
  ultimately show ?thesis using x y by (simp add: summarise_def)
qed

theorem summarise_ordered_witness:
  "\<exists>us. summarise [sample_row ''A'' ''L'' 4 1 0, sample_row ''B'' ''M'' 4 2 0] ''operational_unit'' = Inr us \<and>
     \<not> float_less (index_value (u_risk_index (us ! 0))) (index_value (u_risk_index (us ! 1)))"
proof -
  from summarise_two_samples obtain us where us: "summarise [sample_row ''A'' ''L'' 4 1 0, sample_row ''B'' ''M'' 4 2 0] ''operational_unit'' = Inr us"
    and i: "map u_risk_index us = [Some (Fin 50), Some (Fin 25)]" by (elim exE conjE)
  from i obtain u v where "us = [u, v]" "u_risk_index u = Some (Fin 50)" "u_risk_index v = Some (Fin 25)" by auto
  with summarise_ordered [OF us, of 0 1] us show ?thesis by (auto simp: index_value_def)
qed

text \<open>
  C14: the report has one block per date and, in it, one block per hazard, in the order
  given; in every block the operational units together count each row of that day and
  hazard once, as do the totals, and at most \<open>top_n\<close> lines are listed, each with
  kilometres at or above the threshold.
\<close>

theorem build_days_correct:
  assumes "build_days rows dates vectors threshold top_n = Inr days"
  shows "map rd_date days = dates \<and>
    (\<forall>d \<in> set days. map dv_risk_vector (rd_vectors d) = vectors \<and>
      (\<forall>dv \<in> set (rd_vectors d).
         sum_list (map ue_n_tratte (dv_units dv)) = length (filter (\<lambda>r. py_get r ''date'' = VStr (rd_date d) \<and>
             py_get r ''risk_vector'' = VStr (dv_risk_vector dv)) rows) \<and>
         te_n_tratte (dv_totals dv) = sum_list (map ue_n_tratte (dv_units dv)) \<and>
         length (dv_top_lines dv) \<le> top_n \<and>
         (\<forall>l \<in> set (dv_top_lines dv).
            float_pos (if threshold = Some ''WARNING'' then float_add (le_km_alert l) (le_km_warning l)
                       else le_km_alert l))))"
  unfolding day_rows_def [symmetric]
proof (intro conjI ballI)
  let ?dv = "build_day_vector rows"
  have days: "list_all2 (\<lambda>date d. bindR (mapR (?dv date threshold top_n) vectors)
      (\<lambda>dvs. Inr \<lparr>rd_date = date, rd_vectors = dvs\<rparr>) = Inr d) dates days"
    using assms by (simp add: build_days_def mapR_Ok_iff)
  then show "map rd_date days = dates"
    by (induction rule: list_all2_induct) (auto simp: bindR_Ok_iff)
  fix d assume "d \<in> set days"
  then obtain date where "bindR (mapR (?dv date threshold top_n) vectors)
      (\<lambda>dvs. Inr \<lparr>rd_date = date, rd_vectors = dvs\<rparr>) = Inr d"
    using days by (auto simp: list_all2_conv_all_nth in_set_conv_nth)
  then have m: "mapR (?dv (rd_date d) threshold top_n) vectors = Inr (rd_vectors d)"
    by (auto simp: bindR_Ok_iff)
  then show "map dv_risk_vector (rd_vectors d) = vectors"
    using mapR_map [OF m, of dv_risk_vector id] by (auto elim!: build_day_vector_fields)
  fix dv assume "dv \<in> set (rd_vectors d)"
  then obtain vector where v: "?dv (rd_date d) threshold top_n vector = Inr dv"
    using mapR_set [OF m] by blast
  from v obtain us ls ts where f:
    "summarise (day_rows rows (rd_date d) vector) ''operational_unit'' = Inr us"
    "summarise (map (dict_set ''_all'' (VStr ''*'')) (day_rows rows (rd_date d) vector)) ''_all'' = Inr ts"
    "dv_risk_vector dv = vector" "dv_units dv = map unit_entry_of us" "dv_totals dv = totals_of ts"
    "dv_top_lines dv = take top_n (map line_entry_of
       (filter (\<lambda>l. bindR (km_at_or_above (unit_row l) threshold) (\<lambda>km. Inr (float_pos km)) = Inr True) ls))"
    by (rule build_day_vector_fields)
  have "map ue_n_tratte (dv_units dv) = map u_n_tratte us" by (simp add: f unit_entry_of_def)
  then show "sum_list (map ue_n_tratte (dv_units dv)) = length (day_rows rows (rd_date d) (dv_risk_vector dv))"
    using summarise_counts [OF f(1)] f(3) by simp
  then show "te_n_tratte (dv_totals dv) = sum_list (map ue_n_tratte (dv_units dv))"
    using totals_group [OF f(2)] f(3,5) by simp
  show "length (dv_top_lines dv) \<le> top_n" by (simp add: f)
  fix l assume "l \<in> set (dv_top_lines dv)"
  then obtain u where "l = line_entry_of u"
    and "bindR (km_at_or_above (unit_row u) threshold) (\<lambda>km. Inr (float_pos km)) = Inr True"
    unfolding f(6) by (auto dest!: in_set_takeD)
  then show "float_pos (if threshold = Some ''WARNING'' then float_add (le_km_alert l) (le_km_warning l)
      else le_km_alert l)"
    by (auto simp: km_at_or_above_def floor_of_cases unit_row_def line_entry_of_def dict_simps num_def
        bindR_Ok_iff split: if_splits)
qed

text \<open>The report of two lines of two units on one day.\<close>

theorem build_days_correct_witness:
  "\<exists>days d dv. build_days [sample_row ''A'' ''L'' 4 1 0, sample_row ''B'' ''M'' 4 2 0] [''2026-08-15''] [''wind'']
       (Some ''ALERT'') 15 = Inr days \<and>
     days = [d] \<and> rd_date d = ''2026-08-15'' \<and> rd_vectors d = [dv] \<and> dv_risk_vector dv = ''wind'' \<and>
     sum_list (map ue_n_tratte (dv_units dv)) = 2 \<and> te_n_tratte (dv_totals dv) = 2"
proof -
  let ?rows = "[sample_row ''A'' ''L'' 4 1 0, sample_row ''B'' ''M'' 4 2 0]"
  have "numeric_row r" if "r \<in> set ?rows" for r
    using that by (auto simp: numeric_row_def sample_num small_floats)
  then obtain days where e: "build_days ?rows [''2026-08-15''] [''wind''] (Some ''ALERT'') 15 = Inr days"
    using build_days_total by blast
  note c = build_days_correct [OF e]
  then have "map rd_date days = [''2026-08-15'']" by (rule conjunct1)
  then obtain d where d: "days = [d]" "rd_date d = ''2026-08-15''" by auto
  note v = bspec [OF conjunct2 [OF c], of d]
  from v d obtain dv where dv: "rd_vectors d = [dv]" "dv_risk_vector dv = ''wind''" by auto
  from v dv d have "sum_list (map ue_n_tratte (dv_units dv)) = 2" "te_n_tratte (dv_totals dv) = 2"
    by (simp_all add: sample_row_def dict_simps)
  with e d dv show ?thesis by blast
qed

text \<open>
  Nothing but an \<open>OverflowError\<close> escapes the summaries: no division by zero, no
  empty maximum and no type or value error, whatever the rows hold.
\<close>

theorem summaries_raise_only_overflow:
  "only_overflow (triggered_vectors rows threshold risk_types) \<and>
   only_overflow (summarise rows key) \<and>
   only_overflow (build_days rows dates vectors threshold top_n)"
  unfolding triggered_vectors_def
  by (intro conjI overflow_intros only_overflow_build_days)

text \<open>
  And an \<open>OverflowError\<close> does escape: one row of a watched hazard whose figure is an
  integer too large for a float ends the evaluation, although a figure that is not a number
  at all counts as 0.
\<close>

theorem huge_integer_escapes:
  assumes "2 ^ 1024 \<le> i"
  shows "triggered_vectors (dict_set ''km_alert'' (VInt i) (sample_row u l t a w) # rows) threshold [''wind''] =
      Raise OverflowError \<and>
    km_at_or_above (dict_set ''km_alert'' (VStr ''n/a'') (sample_row u l t a w)) (Some ''ALERT'') = Ok (Fin 0)"
proof
  show "triggered_vectors (dict_set ''km_alert'' (VInt i) (sample_row u l t a w) # rows) threshold [''wind''] =
      Raise OverflowError"
    using float_of_int_overflow [OF assms]
    by (simp add: triggered_vectors_def km_at_or_above_def dict_simps sample_row_def num_def)
  have "num (VStr ''n/a'') = Ok (Fin 0)" by code_simp
  then show "km_at_or_above (dict_set ''km_alert'' (VStr ''n/a'') (sample_row u l t a w)) (Some ''ALERT'') = Ok (Fin 0)"
    by (simp add: km_at_or_above_def dict_simps floor_of_cases)
qed

theorem huge_integer_escapes_witness:
  "triggered_vectors [dict_set ''km_alert'' (VInt (2 ^ 1024)) (sample_row ''U'' ''L'' 4 1 2)]
     (Some ''ALERT'') [''wind''] = Raise OverflowError"
  using huge_integer_escapes [of "2 ^ 1024" "''U''" "''L''" 4 1 2 "[]"] by simp

lemma tiny_rounds: "py_round 2 (py_sum [Fin (1 / 256)]) = Fin 0"
proof -
  have "\<lfloor>25 / 64 :: rat\<rfloor> = 0" by (simp add: floor_eq_iff)
  then have "round_half_even (25 / 64) = 0" by (simp add: round_half_even_def Let_def)
  moreover have "is_double (1 / 256)"
    unfolding is_double_def by (rule exI [of _ 1], rule exI [of _ "- 8"]) (simp add: ipow_def float_limit_def)
  ultimately show ?thesis by (simp add: float_eval rnd64_exact)
qed

text \<open>
  The kilometres of a line are rounded to two decimals before the threshold is applied
  again for the report, so a hazard can trigger and its report list no line at all: here
  1/256 km at ALERT.
\<close>

theorem triggered_without_lines:
  "triggered_vectors [dict_set ''km_alert'' (VFloat (Fin (1 / 256))) (sample_row ''U'' ''L'' 1 0 0)]
     (Some ''ALERT'') [''wind''] = Ok [''wind''] \<and>
   (\<exists>dv. build_day_vector [dict_set ''km_alert'' (VFloat (Fin (1 / 256))) (sample_row ''U'' ''L'' 1 0 0)]
     ''2026-08-15'' (Some ''ALERT'') 15 ''wind'' = Ok dv \<and> dv_top_lines dv = [])"
proof
  let ?r = "dict_set ''km_alert'' (VFloat (Fin (1 / 256))) (sample_row ''U'' ''L'' 1 0 0)"
  show "triggered_vectors [?r] (Some ''ALERT'') [''wind''] = Ok [''wind'']"
    by (simp add: triggered_vectors_def sample_eval)
  have alert: "num (py_get ?r ''km_alert'') = Inr (Fin (1 / 256))" by (simp add: dict_simps num_def)
  have "numeric_row ?r"
    by (auto simp: numeric_row_def alert) (simp_all add: dict_simps sample_row_def num_def small_floats)
  then obtain dv where dv: "build_day_vector [?r] ''2026-08-15'' (Some ''ALERT'') 15 ''wind'' = Inr dv"
    using build_day_vector_total [of "[?r]"] by fastforce
  then obtain us ls ts where s: "summarise (day_rows [?r] ''2026-08-15'' ''wind'') ''line_name'' = Inr ls"
    and top: "dv_top_lines dv = take 15 (map line_entry_of
       (filter (\<lambda>l. bindR (km_at_or_above (unit_row l) (Some ''ALERT'')) (\<lambda>km. Inr (float_pos km)) = Inr True) ls))"
    by (rule build_day_vector_fields)
  have rows: "day_rows [?r] ''2026-08-15'' ''wind'' = [?r]" by (simp add: day_rows_def dict_simps sample_row_def)
  have "u_km_alert u = Fin 0" if "u \<in> set ls" for u
  proof -
    note m = summarise_member [OF s that, unfolded rows]
    then have "filter (\<lambda>r. group_key ''line_name'' r = u_key u) [?r] = [?r]" by (auto split: if_splits)
    with m(1) have g: "summarise_group ''line_name'' (u_key u, [?r]) = Inr u" by simp
    from summarise_group_fields [OF g] obtain a where "sum_column ''km_alert'' [?r] = Inr a" "u_km_alert u = py_round 2 a"
      by metis
    then show ?thesis using tiny_rounds by (simp add: sum_column_def alert)
  qed
  then have "dv_top_lines dv = []"
    by (auto simp: top filter_empty_conv km_at_or_above_def floor_of_cases unit_row_def dict_simps num_def
        float_pos_def float_less_def)
  with dv show "\<exists>dv. build_day_vector [?r] ''2026-08-15'' (Some ''ALERT'') 15 ''wind'' = Ok dv \<and> dv_top_lines dv = []"
    by blast
qed

end
