(* ===== verification/Dispatcher.thy ===== *)
theory Dispatcher
  imports Recipients RiskSummary Models
begin

text \<open>
  \<open>src/celine/grid/services/alert_dispatcher.py\<close>: one evaluation of the active rules of a
  network against the exposure table, and one report per recipient list. The Digital Twin and
  the nudging service are parameters: what the values call answers, and which of the sends
  succeed, given the sends before it. The log records every call made to them.
\<close>

section \<open>Reports\<close>

record report_facts =
  f_facts_version :: string
  f_scenario :: string
  f_period :: string
  f_dates :: "string list"
  f_network_id :: string
  f_threshold :: string
  f_risk_types :: "string list"
  f_generated_at :: string
  f_app_url :: string
  f_email_recipients :: "string list"
  f_days :: "report_day list"

record report_payload =
  p_event_type :: string
  p_user_id :: string
  p_facts :: report_facts

record values_call =
  vc_network_id :: string
  vc_fetcher :: string
  vc_dates :: "string list"
  vc_level :: string
  vc_limit :: nat

text \<open>
  The outside of a dispatch: the clock's text, the public URL, the answer to the values call
  (the \<open>items\<close> of its dictionary, absent or null being \<open>None\<close>), and whether a send succeeds.
\<close>

record dispatch_env =
  e_now :: string
  e_app_url :: string
  e_fetch :: "values_call \<Rightarrow> row list option res"
  e_ingest :: "report_payload list \<Rightarrow> report_payload \<Rightarrow> bool"

record dispatch_log =
  l_calls :: "values_call list"
  l_attempts :: "report_payload list"
  l_delivered :: "report_payload list"

definition empty_log :: dispatch_log where
  "empty_log = \<lparr>l_calls = [], l_attempts = [], l_delivered = []\<rparr>"

definition RISK_KM_LIMIT :: nat where
  "RISK_KM_LIMIT = 20000"

definition TOP_LINES :: nat where
  "TOP_LINES = 15"

section \<open>Recipients of a rule\<close>

definition rule_email_recipients :: "alert_rule \<Rightarrow> db \<Rightarrow> string list res" where
  "rule_email_recipients rule session =
     (let recipients = parse_recipients (ar_recipients rule) in
      if recipients \<noteq> [] then Ok recipients
      else bindR (scalar_one_or_none
                    (map ns_email_recipients
                      (filter (\<lambda>s. ns_user_id s = ar_user_id rule) (db_settings session))))
             (\<lambda>v. Ok (parse_recipients (Option.bind v id))))"

section \<open>Merging per recipient list\<close>

type_synonym trigger = "alert_rule \<times> string list \<times> string list"

record nudge_group =
  g_user_id :: string
  g_recipients :: "string list"
  g_vectors :: "string set"
  g_threshold :: string
  g_rules :: "alert_rule list"

definition trigger_user :: "trigger \<Rightarrow> string" where
  "trigger_user t = (case t of (rule, vectors, recipients) \<Rightarrow>
     if recipients \<noteq> [] then synthetic_email_user_id recipients else ar_user_id rule)"

definition new_group :: "trigger \<Rightarrow> nudge_group" where
  "new_group t = (case t of (rule, vectors, recipients) \<Rightarrow>
     \<lparr>g_user_id = trigger_user t, g_recipients = recipients, g_vectors = {}, g_threshold = ''ALERT'',
      g_rules = []\<rparr>)"

definition join_group :: "trigger \<Rightarrow> nudge_group \<Rightarrow> nudge_group" where
  "join_group t g = (case t of (rule, vectors, recipients) \<Rightarrow>
     g\<lparr>g_vectors := g_vectors g \<union> set vectors,
       g_threshold := (if ar_threshold rule = Some ''WARNING'' then ''WARNING'' else g_threshold g),
       g_rules := g_rules g @ [rule]\<rparr>)"

definition merge_by_recipients :: "trigger list \<Rightarrow> nudge_group list" where
  "merge_by_recipients triggered = map snd (setdefault_fold trigger_user new_group join_group triggered)"

section \<open>One evaluation\<close>

definition build_report_payload ::
  "dispatch_env \<Rightarrow> string \<Rightarrow> nudge_group \<Rightarrow> row list \<Rightarrow> string list \<Rightarrow> report_payload res" where
  "build_report_payload env network_id g rows dates =
     (let vectors = sorted_list_of_set (g_vectors g) in
      bindR (build_days rows dates vectors (Some (g_threshold g)) TOP_LINES) (\<lambda>days.
        Ok \<lparr>p_event_type = ''grid_risk_report'', p_user_id = g_user_id g,
          p_facts = \<lparr>f_facts_version = ''1.0'', f_scenario = ''grid_risk_report'', f_period = hd dates,
            f_dates = dates, f_network_id = network_id, f_threshold = g_threshold g,
            f_risk_types = vectors, f_generated_at = e_now env, f_app_url = e_app_url env,
            f_email_recipients = g_recipients g, f_days = days\<rparr>\<rparr>))"

definition active_rules :: "db \<Rightarrow> string \<Rightarrow> alert_rule list" where
  "active_rules session network_id =
     filter (\<lambda>r. ar_network_id r = network_id \<and> ar_active r = Some True) (db_rules session)"

definition rule_risk_types :: "alert_rule \<Rightarrow> string list" where
  "rule_risk_types rule = (case ar_risk_types rule of None \<Rightarrow> [] | Some ts \<Rightarrow> ts)"

fun triggered_rules :: "db \<Rightarrow> row list \<Rightarrow> alert_rule list \<Rightarrow> trigger list res" where
  "triggered_rules session rows [] = Ok []"
| "triggered_rules session rows (rule # rules) =
     bindR (triggered_vectors rows (ar_threshold rule) (rule_risk_types rule)) (\<lambda>vectors.
       if vectors = [] then triggered_rules session rows rules
       else bindR (rule_email_recipients rule session) (\<lambda>recipients.
              bindR (triggered_rules session rows rules) (\<lambda>ts. Ok ((rule, vectors, recipients) # ts))))"

text \<open>A failed send is caught; an exception while a report is built is not.\<close>

fun send_groups ::
  "dispatch_env \<Rightarrow> string \<Rightarrow> row list \<Rightarrow> string list \<Rightarrow> nudge_group list \<Rightarrow> nat \<Rightarrow> dispatch_log \<Rightarrow> nat res \<times> dispatch_log" where
  "send_groups env network_id rows dates [] sent lg = (Ok sent, lg)"
| "send_groups env network_id rows dates (g # gs) sent lg =
     (case build_report_payload env network_id g rows dates of
        Inl e \<Rightarrow> (Raise e, lg)
      | Inr payload \<Rightarrow>
          let lg' = lg\<lparr>l_attempts := l_attempts lg @ [payload]\<rparr> in
          if e_ingest env (l_attempts lg) payload
          then send_groups env network_id rows dates gs (sent + 1)
                 (lg'\<lparr>l_delivered := l_delivered lg' @ [payload]\<rparr>)
          else send_groups env network_id rows dates gs sent lg')"

definition risk_km_call :: "string \<Rightarrow> string list \<Rightarrow> values_call" where
  "risk_km_call network_id dates =
     \<lparr>vc_network_id = network_id, vc_fetcher = ''risk_km'', vc_dates = dates, vc_level = ''tratta'',
      vc_limit = RISK_KM_LIMIT\<rparr>"

definition dispatch_grid_alerts ::
  "dispatch_env \<Rightarrow> db \<Rightarrow> string \<Rightarrow> string list \<Rightarrow> dispatch_log \<Rightarrow> nat res \<times> dispatch_log" where
  "dispatch_grid_alerts env session network_id dates lg =
     (if dates = [] then (Ok 0, lg)
      else if network_id = [] then (Ok 0, lg)
      else let rules = active_rules session network_id in
        if rules = [] then (Ok 0, lg)
        else let call = risk_km_call network_id dates; lg1 = lg\<lparr>l_calls := l_calls lg @ [call]\<rparr> in
          case e_fetch env call of
            Inl e \<Rightarrow> (Ok 0, lg1)
          | Inr items \<Rightarrow>
              let rows = (case items of None \<Rightarrow> [] | Some rs \<Rightarrow> rs) in
              if rows = [] then (Ok 0, lg1)
              else case triggered_rules session rows rules of
                Inl e \<Rightarrow> (Raise e, lg1)
              | Inr triggered \<Rightarrow>
                  send_groups env network_id rows dates (merge_by_recipients triggered) 0 lg1)"

section \<open>Merging: lemmas\<close>

lemma foldl_join_group:
  "foldl (\<lambda>g t. join_group t g) g ts =
     g\<lparr>g_vectors := g_vectors g \<union> \<Union> ((\<lambda>t. set (fst (snd t))) ` set ts),
       g_threshold := (if \<exists>t \<in> set ts. ar_threshold (fst t) = Some ''WARNING'' then ''WARNING'' else g_threshold g),
       g_rules := g_rules g @ map fst ts\<rparr>"
  by (induction ts arbitrary: g) (auto simp: join_group_def Un_assoc)

lemma merge_ids: "map g_user_id (merge_by_recipients ts) = first_occurrences (map trigger_user ts)"
proof -
  have "g_user_id g = k" if kg: "(k, g) \<in> set (setdefault_fold trigger_user new_group join_group ts)" for k g
  proof -
    obtain y ys where f: "filter (\<lambda>t. trigger_user t = k) ts = y # ys"
      and g: "g = foldl (\<lambda>g t. join_group t g) (new_group y) (y # ys)"
      by (rule fold_group_SomeE [OF kg [unfolded setdefault_fold_member]])
    have "y \<in> set (filter (\<lambda>t. trigger_user t = k) ts)" by (simp add: f)
    then show ?thesis unfolding g foldl_join_group by (simp add: new_group_def split: prod.splits)
  qed
  then have "map g_user_id (merge_by_recipients ts) =
      map fst (setdefault_fold trigger_user new_group join_group ts)"
    by (auto simp: merge_by_recipients_def)
  then show ?thesis by (simp add: setdefault_fold_keys)
qed

lemma merge_member:
  assumes "g \<in> set (merge_by_recipients ts)"
  obtains t where "t \<in> set ts" "trigger_user t = g_user_id g" "g_recipients g = snd (snd t)"
    and "g_rules g = map fst (filter (\<lambda>t. trigger_user t = g_user_id g) ts)"
    and "g_vectors g = (\<Union>t \<in> {t \<in> set ts. trigger_user t = g_user_id g}. set (fst (snd t)))"
    and "g_threshold g = (if \<exists>t \<in> set ts. trigger_user t = g_user_id g \<and> ar_threshold (fst t) = Some ''WARNING''
           then ''WARNING'' else ''ALERT'')"
proof -
  obtain k where k: "(k, g) \<in> set (setdefault_fold trigger_user new_group join_group ts)"
    using assms by (auto simp: merge_by_recipients_def)
  obtain y ys where f: "filter (\<lambda>t. trigger_user t = k) ts = y # ys"
    and g: "g = foldl (\<lambda>g t. join_group t g) (new_group y) (y # ys)"
    by (rule fold_group_SomeE [OF k [unfolded setdefault_fold_member]])
  have y: "y \<in> set ts" "trigger_user y = k"
    using f by (auto simp: filter_eq_Cons_iff)
  have s: "set (y # ys) = {t \<in> set ts. trigger_user t = k}"
    using f by (metis set_filter)
  have id: "g_user_id g = k" unfolding g foldl_join_group using y by (simp add: new_group_def split: prod.splits)
  show thesis
  proof
    show "y \<in> set ts" "trigger_user y = g_user_id g" using y id by auto
    show "g_recipients g = snd (snd y)"
      unfolding g foldl_join_group by (simp add: new_group_def split: prod.splits)
    show "g_rules g = map fst (filter (\<lambda>t. trigger_user t = g_user_id g) ts)"
      unfolding id f unfolding g foldl_join_group by (simp add: new_group_def split: prod.splits)
    show "g_vectors g = (\<Union>t \<in> {t \<in> set ts. trigger_user t = g_user_id g}. set (fst (snd t)))"
      unfolding id s [symmetric] unfolding g foldl_join_group by (simp add: new_group_def split: prod.splits)
    have "g_threshold g = (if \<exists>t \<in> set (y # ys). ar_threshold (fst t) = Some ''WARNING'' then ''WARNING'' else ''ALERT'')"
      unfolding g foldl_join_group by (simp add: new_group_def split: prod.splits)
    then show "g_threshold g = (if \<exists>t \<in> set ts. trigger_user t = g_user_id g \<and> ar_threshold (fst t) = Some ''WARNING''
           then ''WARNING'' else ''ALERT'')" unfolding id s by auto
  qed
qed



section \<open>Sending: lemmas\<close>

text \<open>The payloads that are built before the first failure to build one.\<close>

fun built_prefix :: "dispatch_env \<Rightarrow> string \<Rightarrow> row list \<Rightarrow> string list \<Rightarrow> nudge_group list \<Rightarrow> report_payload list" where
  "built_prefix env network_id rows dates [] = []"
| "built_prefix env network_id rows dates (g # gs) =
     (case build_report_payload env network_id g rows dates of
        Inl e \<Rightarrow> [] | Inr p \<Rightarrow> p # built_prefix env network_id rows dates gs)"

lemma send_groups_attempts:
  "l_attempts (snd (send_groups env n rows dates gs k lg)) = l_attempts lg @ built_prefix env n rows dates gs"
  by (induction gs arbitrary: k lg) (auto simp: Let_def split: sum.splits)

lemma send_groups_calls [frame_simps]: "l_calls (snd (send_groups env n rows dates gs k lg)) = l_calls lg"
  by (induction gs arbitrary: k lg) (auto simp: Let_def split: sum.splits)

lemma send_groups_Ok:
  assumes "send_groups env n rows dates gs k lg = (Inr m, lg')"
  shows "mapR (\<lambda>g. build_report_payload env n g rows dates) gs = Inr (built_prefix env n rows dates gs) \<and>
    (\<exists>ds. l_delivered lg' = l_delivered lg @ ds \<and> subseq ds (built_prefix env n rows dates gs) \<and> m = k + length ds)"
  using assms
proof (induction gs arbitrary: k lg)
  case (Cons g gs)
  then obtain p where p: "build_report_payload env n g rows dates = Inr p"
    by (auto split: sum.splits)
  show ?case
  proof (cases "e_ingest env (l_attempts lg) p")
    case True
    with Cons.prems p Cons.IH show ?thesis
      by (fastforce simp: Let_def)
  next
    case False
    with Cons.prems p Cons.IH show ?thesis
      by (fastforce simp: Let_def)
  qed
qed simp

lemma built_prefix_build:
  "mapR (\<lambda>g. build_report_payload env n g rows dates) gs = Inr ps \<Longrightarrow> built_prefix env n rows dates gs = ps"
  by (induction gs arbitrary: ps) (auto simp: bindR_Ok_iff)

lemma build_report_payload_Ok:
  assumes "build_report_payload env n g rows dates = Inr p"
  shows "p_event_type p = ''grid_risk_report'' \<and> p_user_id p = g_user_id g \<and>
    f_dates (p_facts p) = dates \<and> f_period (p_facts p) = hd dates \<and> f_network_id (p_facts p) = n \<and>
    f_threshold (p_facts p) = g_threshold g \<and> f_risk_types (p_facts p) = sorted_list_of_set (g_vectors g) \<and>
    f_email_recipients (p_facts p) = g_recipients g \<and>
    build_days rows dates (sorted_list_of_set (g_vectors g)) (Some (g_threshold g)) TOP_LINES = Inr (f_days (p_facts p))"
  using assms by (auto simp: build_report_payload_def Let_def bindR_Ok_iff)

lemma build_ignores_ingest:
  "build_report_payload (env\<lparr>e_ingest := f\<rparr>) n g rows dates = build_report_payload env n g rows dates"
  by (simp add: build_report_payload_def)

lemma built_prefix_ignores_ingest:
  "built_prefix (env\<lparr>e_ingest := f\<rparr>) n rows dates gs = built_prefix env n rows dates gs"
  by (induction gs) (auto simp: build_ignores_ingest split: sum.splits)

section \<open>Triggered rules: lemmas\<close>

definition rule_fires :: "row list \<Rightarrow> alert_rule \<Rightarrow> string \<Rightarrow> bool" where
  "rule_fires rows rule v \<longleftrightarrow> v \<in> set (rule_risk_types rule) \<and> (\<exists>r \<in> set rows. row_hits (ar_threshold rule) v r)"

lemma triggered_rules_member:
  assumes "triggered_rules session rows rules = Inr ts" "(rule, vs, recipients) \<in> set ts"
  shows "rule \<in> set rules \<and> vs \<noteq> [] \<and> set vs = {v. rule_fires rows rule v} \<and>
    rule_email_recipients rule session = Inr recipients"
  using assms
proof (induction rules arbitrary: ts)
  case (Cons r rules)
  then show ?case
    by (fastforce simp: bindR_Ok_iff rule_fires_def dest!: triggered_vectors_Ok split: if_splits)
qed simp


section \<open>A dispatch: lemmas\<close>

lemma dispatch_skips:
  "dates = [] \<or> n = [] \<or> active_rules session n = [] \<Longrightarrow> dispatch_grid_alerts env session n dates lg = (Inr 0, lg)"
  by (auto simp: dispatch_grid_alerts_def Let_def)

lemma dispatch_cases:
  assumes "dispatch_grid_alerts env session n dates lg = (r, lg')"
  obtains (quiet) "dates = [] \<or> n = [] \<or> active_rules session n = []" "r = Inr 0" "lg' = lg"
    | (unanswered) "dates \<noteq> []" "n \<noteq> []" "active_rules session n \<noteq> []" "r = Inr 0"
        "lg' = lg\<lparr>l_calls := l_calls lg @ [risk_km_call n dates]\<rparr>"
        "\<And>rows. e_fetch env (risk_km_call n dates) = Inr (Some rows) \<Longrightarrow> rows = []"
    | (failed) e rows where "dates \<noteq> []" "n \<noteq> []" "active_rules session n \<noteq> []"
        "e_fetch env (risk_km_call n dates) = Inr (Some rows)"
        "triggered_rules session rows (active_rules session n) = Inl e" "r = Inl e"
        "lg' = lg\<lparr>l_calls := l_calls lg @ [risk_km_call n dates]\<rparr>"
    | (sent) rows ts where "dates \<noteq> []" "n \<noteq> []" "active_rules session n \<noteq> []"
        "e_fetch env (risk_km_call n dates) = Inr (Some rows)"
        "triggered_rules session rows (active_rules session n) = Inr ts"
        "send_groups env n rows dates (merge_by_recipients ts) 0
           (lg\<lparr>l_calls := l_calls lg @ [risk_km_call n dates]\<rparr>) = (r, lg')"
proof -
  let ?call = "risk_km_call n dates" and ?lg1 = "lg\<lparr>l_calls := l_calls lg @ [risk_km_call n dates]\<rparr>"
  show thesis
  proof (cases "dates = [] \<or> n = [] \<or> active_rules session n = []")
    case True
    with assms show thesis by (intro quiet) (auto simp: dispatch_skips)
  next
    case False
    then have ne: "dates \<noteq> []" "n \<noteq> []" "active_rules session n \<noteq> []" by auto
    show thesis
    proof (cases "\<exists>rows. e_fetch env ?call = Inr (Some rows) \<and> rows \<noteq> []")
      case True
      then obtain rows where f: "e_fetch env ?call = Inr (Some rows)" "rows \<noteq> []" by blast
      show thesis
      proof (cases "triggered_rules session rows (active_rules session n)")
        case (Inl e)
        with assms ne f show thesis by (intro failed) (auto simp: dispatch_grid_alerts_def Let_def)
      next
        case (Inr ts)
        with assms ne f show thesis by (intro sent) (auto simp: dispatch_grid_alerts_def Let_def)
      qed
    next
      case False
      with assms ne show thesis
        by (intro unanswered) (auto simp: dispatch_grid_alerts_def Let_def split: sum.splits option.splits)
    qed
  qed
qed

text \<open>Every attempt of a run is the payload of one merged group.\<close>

lemma built_prefix_member:
  "p \<in> set (built_prefix env n rows dates gs) \<Longrightarrow> \<exists>g \<in> set gs. build_report_payload env n g rows dates = Inr p"
  by (induction gs) (auto split: sum.splits)

lemma finite_group_vectors: "g \<in> set (merge_by_recipients ts) \<Longrightarrow> finite (g_vectors g)"
  by (erule merge_member) simp

definition nudge_user :: "alert_rule \<Rightarrow> db \<Rightarrow> string res" where
  "nudge_user rule session = bindR (rule_email_recipients rule session) (\<lambda>recipients.
     Inr (if recipients \<noteq> [] then synthetic_email_user_id recipients else ar_user_id rule))"

text \<open>The log of attempts only grows, and a dispatch that returns has reached everyone it must.\<close>

lemma dispatch_attempts_grow:
  assumes "dispatch_grid_alerts env session n dates lg = (r, lg')"
  shows "prefix (l_attempts lg) (l_attempts lg')"
  using assms
proof (cases rule: dispatch_cases)
  case (sent rows ts)
  show ?thesis
    using send_groups_attempts [of env n rows dates "merge_by_recipients ts" 0
        "lg\<lparr>l_calls := l_calls lg @ [risk_km_call n dates]\<rparr>", unfolded sent(6)] by simp
qed auto


text \<open>Whatever is in a report was triggered by somebody it is addressed to.\<close>

lemma sent_sound:
  assumes "send_groups env n rows dates (merge_by_recipients ts) k lg = (r, lg')"
    and "p \<in> set (drop (length (l_attempts lg)) (l_attempts lg'))" "v \<in> set (f_risk_types (p_facts p))"
  obtains rule vs recipients where "(rule, vs, recipients) \<in> set ts" "v \<in> set vs"
    "p_user_id p = trigger_user (rule, vs, recipients)" "f_network_id (p_facts p) = n"
proof -
  have "p \<in> set (built_prefix env n rows dates (merge_by_recipients ts))"
    using assms(2) send_groups_attempts [of env n rows dates "merge_by_recipients ts" k lg, unfolded assms(1)] by simp
  then obtain g where g: "g \<in> set (merge_by_recipients ts)" "build_report_payload env n g rows dates = Inr p"
    using built_prefix_member by blast
  note b = build_report_payload_Ok [OF g(2)]
  then have "v \<in> g_vectors g" using assms(3) finite_group_vectors [OF g(1)] by simp
  with g(1) obtain t where t: "t \<in> set ts" "trigger_user t = g_user_id g" "v \<in> set (fst (snd t))"
    by (auto elim!: merge_member)
  obtain rule vs recipients where "t = (rule, vs, recipients)" by (cases t)
  with that t b show thesis by simp
qed


section \<open>Properties\<close>

definition sample_rule :: "nat \<Rightarrow> string \<Rightarrow> string list \<Rightarrow> string \<Rightarrow> alert_rule" where
  "sample_rule i u ts thr = \<lparr>ar_id = i, ar_user_id = u, ar_network_id = ''net'', ar_risk_types = Some ts,
     ar_threshold = Some thr, ar_network_id_unset = False, ar_recipients = None, ar_active = Some True,
     ar_created_at = 0, ar_updated_at = 0\<rparr>"

definition sample_env :: dispatch_env where
  "sample_env = \<lparr>e_now = ''2026-08-15T06:00:00+00:00'', e_app_url = ''http://grid.celine.localhost'',
     e_fetch = (\<lambda>_. Ok (Some [sample_row ''U'' ''L'' 4 1 2])), e_ingest = (\<lambda>_ _. True)\<rparr>"

definition sample_db :: db where
  "sample_db = empty_db\<lparr>db_rules := [sample_rule 7 ''op'' [''wind''] ''ALERT'']\<rparr>"

lemma sample_numeric: "numeric_row (sample_row u l 4 1 2)"
  by (simp add: numeric_row_def sample_num small_floats)

lemma sample_triggered: "triggered_vectors [sample_row ''U'' ''L'' 4 1 2] (Some ''ALERT'') [''wind''] = Inr [''wind'']"
  by (simp add: triggered_vectors_def sample_eval)

lemma sample_active: "active_rules sample_db ''net'' = [sample_rule 7 ''op'' [''wind''] ''ALERT'']"
  by (simp add: active_rules_def sample_db_def sample_rule_def)

lemma sample_recipients: "rule_email_recipients (sample_rule 7 ''op'' [''wind''] ''ALERT'') sample_db = Inr []"
  by (simp add: rule_email_recipients_def sample_db_def sample_rule_def empty_db_def parse_recipients_def
      scalar_one_or_none_def)

lemma sample_rule_fields: "ar_threshold (sample_rule i u ts thr) = Some thr" "rule_risk_types (sample_rule i u ts thr) = ts"
  by (simp_all add: sample_rule_def rule_risk_types_def)

lemma sample_dispatch:
  "\<exists>lg' p. dispatch_grid_alerts sample_env sample_db ''net'' [''2026-08-15''] empty_log = (Inr 1, lg') \<and>
     l_attempts lg' = [p] \<and> f_risk_types (p_facts p) = [''wind'']"
proof -
  let ?r = "sample_row ''U'' ''L'' 4 1 2" and ?rule = "sample_rule 7 ''op'' [''wind''] ''ALERT''"
  have t: "triggered_rules sample_db [?r] [?rule] = Inr [(?rule, [''wind''], [])]"
    using sample_triggered by (simp add: sample_recipients sample_rule_fields)
  have g: "merge_by_recipients [(?rule, [''wind''], [])] =
      [\<lparr>g_user_id = ''op'', g_recipients = [], g_vectors = {''wind''}, g_threshold = ''ALERT'', g_rules = [?rule]\<rparr>]"
    by (simp add: merge_by_recipients_def setdefault_fold_def new_group_def join_group_def trigger_user_def)
      (simp add: sample_rule_def)
  obtain days where "build_days [?r] [''2026-08-15''] [''wind''] (Some ''ALERT'') TOP_LINES = Inr days"
    using build_days_total [of "[?r]"] sample_numeric by fastforce
  then show ?thesis
    by (simp add: dispatch_grid_alerts_def sample_active Let_def sample_env_def t g build_report_payload_def
        empty_log_def del: triggered_rules.simps)
qed

text \<open>
  There is one report per recipient list: merging gives one group per distinct nudge
  user, in the order of first mention, holding exactly the rules addressed to that user,
  every hazard any of them triggered, and WARNING as its threshold exactly when one of them
  has that lower threshold.
\<close>

theorem merge_by_recipients_correct:
  "map g_user_id (merge_by_recipients ts) = first_occurrences (map trigger_user ts) \<and>
   (\<forall>g \<in> set (merge_by_recipients ts).
      g_rules g = map fst (filter (\<lambda>t. trigger_user t = g_user_id g) ts) \<and> g_rules g \<noteq> [] \<and>
      g_vectors g = (\<Union>t \<in> {t \<in> set ts. trigger_user t = g_user_id g}. set (fst (snd t))) \<and>
      g_threshold g = (if \<exists>rule \<in> set (g_rules g). ar_threshold rule = Some ''WARNING'' then ''WARNING'' else ''ALERT'') \<and>
      (\<exists>t \<in> set ts. trigger_user t = g_user_id g \<and> g_recipients g = snd (snd t)))"
proof (intro conjI ballI)
  show "map g_user_id (merge_by_recipients ts) = first_occurrences (map trigger_user ts)" by (rule merge_ids)
  fix g assume "g \<in> set (merge_by_recipients ts)"
  then obtain t where t: "t \<in> set ts" "trigger_user t = g_user_id g" "g_recipients g = snd (snd t)"
    and rules: "g_rules g = map fst (filter (\<lambda>t. trigger_user t = g_user_id g) ts)"
    and vectors: "g_vectors g = (\<Union>t \<in> {t \<in> set ts. trigger_user t = g_user_id g}. set (fst (snd t)))"
    and threshold: "g_threshold g = (if \<exists>t \<in> set ts. trigger_user t = g_user_id g \<and>
        ar_threshold (fst t) = Some ''WARNING'' then ''WARNING'' else ''ALERT'')"
    by (rule merge_member)
  show "g_rules g = map fst (filter (\<lambda>t. trigger_user t = g_user_id g) ts)" by (rule rules)
  show "g_rules g \<noteq> []" using t rules by (auto simp: filter_empty_conv)
  show "g_vectors g = (\<Union>t \<in> {t \<in> set ts. trigger_user t = g_user_id g}. set (fst (snd t)))" by (rule vectors)
  show "g_threshold g = (if \<exists>rule \<in> set (g_rules g). ar_threshold rule = Some ''WARNING'' then ''WARNING'' else ''ALERT'')"
    unfolding threshold rules set_map set_filter bex_simps by (intro if_cong) blast+
  show "\<exists>t \<in> set ts. trigger_user t = g_user_id g \<and> g_recipients g = snd (snd t)" using t by blast
qed

theorem merge_by_recipients_correct_witness:
  "map g_user_id (merge_by_recipients [(sample_rule 7 ''op'' [''wind''] ''ALERT'', [''wind''], []),
      (sample_rule 8 ''op'' [''heat''] ''WARNING'', [''heat''], [])]) = [''op'']"
  using conjunct1 [OF merge_by_recipients_correct
      [of "[(sample_rule 7 ''op'' [''wind''] ''ALERT'', [''wind''], []),
        (sample_rule 8 ''op'' [''heat''] ''WARNING'', [''heat''], [])]"]]
  by (simp add: trigger_user_def sample_rule_def first_occurrences_def)

text \<open>
  C3: no false alarm. Every hazard named in an attempted report is watched by an active
  rule of that very network whose recipients the report is addressed to, and some row of
  that hazard in the fetched table has kilometres at or above that rule's threshold.
\<close>

theorem dispatch_sound:
  assumes "dispatch_grid_alerts env session n dates lg = (r, lg')"
    and "p \<in> set (drop (length (l_attempts lg)) (l_attempts lg'))" "v \<in> set (f_risk_types (p_facts p))"
  shows "\<exists>rows rule. e_fetch env (risk_km_call n dates) = Inr (Some rows) \<and>
    rule \<in> set (db_rules session) \<and> ar_network_id rule = n \<and> ar_active rule = Some True \<and>
    v \<in> set (rule_risk_types rule) \<and> nudge_user rule session = Inr (p_user_id p) \<and>
    (\<exists>row \<in> set rows. py_get row ''risk_vector'' = VStr v \<and>
      (\<exists>km. km_at_or_above row (ar_threshold rule) = Inr km \<and> float_pos km))"
  using assms(1)
proof (cases rule: dispatch_cases)
  case (sent rows ts)
  obtain rule vs recipients where t: "(rule, vs, recipients) \<in> set ts" "v \<in> set vs"
      "p_user_id p = trigger_user (rule, vs, recipients)"
    by (rule sent_sound [OF sent(6) _ assms(3)]) (use assms(2) in simp)
  from triggered_rules_member [OF sent(5) t(1)] t(2)
  have "rule \<in> set (active_rules session n)" "rule_fires rows rule v" "rule_email_recipients rule session = Inr recipients"
    by auto
  moreover have "nudge_user rule session = Inr (p_user_id p)"
    using calculation(3) t(3) by (simp add: nudge_user_def trigger_user_def)
  ultimately show ?thesis using sent(4)
    by (auto simp: active_rules_def rule_fires_def row_hits_def)
qed (use assms in auto)

theorem dispatch_sound_witness:
  "\<exists>lg' p. dispatch_grid_alerts sample_env sample_db ''net'' [''2026-08-15''] empty_log = (Inr 1, lg') \<and>
     p \<in> set (l_attempts lg') \<and> (\<exists>rule \<in> set (db_rules sample_db). ''wind'' \<in> set (rule_risk_types rule) \<and>
       nudge_user rule sample_db = Inr (p_user_id p))"
proof -
  obtain lg' p where d: "dispatch_grid_alerts sample_env sample_db ''net'' [''2026-08-15''] empty_log = (Inr 1, lg')"
    and p: "l_attempts lg' = [p]" "f_risk_types (p_facts p) = [''wind'']" using sample_dispatch by blast
  from dispatch_sound [OF d, of p "''wind''"] p d show ?thesis by (auto simp: empty_log_def)
qed



text \<open>
  C22: the count a dispatch returns is the number of reports delivered; no recipient list is
  sent two reports; every report carries the asked network and dates; and the Digital Twin is
  asked at most once, for the tratta rows of exactly those dates.
\<close>

theorem dispatch_counts:
  assumes "dispatch_grid_alerts env session n dates empty_log = (Inr m, lg')"
  shows "m = length (l_delivered lg') \<and> subseq (l_delivered lg') (l_attempts lg') \<and>
    distinct (map p_user_id (l_attempts lg')) \<and>
    (\<forall>p \<in> set (l_attempts lg'). f_dates (p_facts p) = dates \<and> f_network_id (p_facts p) = n \<and>
       map rd_date (f_days (p_facts p)) = dates) \<and>
    l_calls lg' \<in> {[], [risk_km_call n dates]}"
  using assms
proof (cases rule: dispatch_cases)
  case (sent rows ts)
  let ?gs = "merge_by_recipients ts" and ?lg = "empty_log\<lparr>l_calls := l_calls empty_log @ [risk_km_call n dates]\<rparr>"
  note ok = send_groups_Ok [OF sent(6)]
  have att: "l_attempts lg' = built_prefix env n rows dates ?gs"
    using send_groups_attempts [of env n rows dates ?gs 0 ?lg, unfolded sent(6)] by (simp add: empty_log_def)
  have "map p_user_id (built_prefix env n rows dates ?gs) = map g_user_id ?gs"
    by (rule mapR_map [OF conjunct1 [OF ok]]) (simp add: build_report_payload_Ok)
  then have "distinct (map p_user_id (l_attempts lg'))" by (simp add: att merge_ids)
  moreover have "f_dates (p_facts p) = dates \<and> f_network_id (p_facts p) = n \<and> map rd_date (f_days (p_facts p)) = dates"
    if "p \<in> set (l_attempts lg')" for p
  proof -
    from that obtain g where "build_report_payload env n g rows dates = Inr p"
      using built_prefix_member unfolding att by blast
    from build_report_payload_Ok [OF this] show ?thesis using build_days_dates by blast
  qed
  moreover have "l_calls lg' = [risk_km_call n dates]"
    using send_groups_calls [of env n rows dates ?gs 0 ?lg, unfolded sent(6)] by (simp add: empty_log_def)
  ultimately show ?thesis using ok by (auto simp: att empty_log_def)
qed (auto simp: empty_log_def)

theorem dispatch_counts_witness:
  "\<exists>lg'. dispatch_grid_alerts sample_env sample_db ''net'' [''2026-08-15''] empty_log = (Inr 1, lg') \<and>
     length (l_delivered lg') = 1"
proof -
  obtain lg' where d: "dispatch_grid_alerts sample_env sample_db ''net'' [''2026-08-15''] empty_log = (Inr 1, lg')"
    using sample_dispatch by blast
  from dispatch_counts [OF d] d show ?thesis by simp
qed

text \<open>
  C23: one failed send does not silence the rest: which reports are attempted, what they say
  and whether the dispatch raises do not depend on which sends succeed.
\<close>

theorem failed_sends_isolated:
  "l_attempts (snd (dispatch_grid_alerts (env\<lparr>e_ingest := f\<rparr>) session n dates lg)) =
     l_attempts (snd (dispatch_grid_alerts env session n dates lg)) \<and>
   l_calls (snd (dispatch_grid_alerts (env\<lparr>e_ingest := f\<rparr>) session n dates lg)) =
     l_calls (snd (dispatch_grid_alerts env session n dates lg)) \<and>
   isl (fst (dispatch_grid_alerts (env\<lparr>e_ingest := f\<rparr>) session n dates lg)) =
     isl (fst (dispatch_grid_alerts env session n dates lg))"
proof -
  have isl: "isl (fst (send_groups (env\<lparr>e_ingest := f\<rparr>) n rows dates gs k lg)) =
      isl (fst (send_groups env n rows dates gs k' lg'))" for rows gs k lg k' lg'
    by (induction gs arbitrary: k lg k' lg') (auto simp: Let_def build_ignores_ingest split: sum.splits)
  show ?thesis
    by (simp add: dispatch_grid_alerts_def Let_def send_groups_attempts send_groups_calls
        built_prefix_ignores_ingest isl split: sum.splits)
qed

text \<open>
  The rules of other networks and inactive rules have no influence, and where no active
  rule, no date or no network is given nothing is asked and nothing is sent.
\<close>

theorem dispatch_ignores_other_rules:
  "dispatch_grid_alerts env session n dates lg =
     dispatch_grid_alerts env (session\<lparr>db_rules := active_rules session n\<rparr>) n dates lg \<and>
   (dates = [] \<or> n = [] \<or> active_rules session n = [] \<longrightarrow>
     dispatch_grid_alerts env session n dates lg = (Ok 0, lg))"
proof -
  have "rule_email_recipients r (session\<lparr>db_rules := rs\<rparr>) = rule_email_recipients r session" for r rs
    by (simp add: rule_email_recipients_def Let_def)
  then have t: "triggered_rules (session\<lparr>db_rules := rs\<rparr>) rows rules = triggered_rules session rows rules" for rs rows rules
    by (induction rules) (simp_all cong: if_cong)
  have a: "active_rules (session\<lparr>db_rules := active_rules session n\<rparr>) n = active_rules session n"
    by (simp add: active_rules_def)
  have "dispatch_grid_alerts env (session\<lparr>db_rules := active_rules session n\<rparr>) n dates lg =
      dispatch_grid_alerts env session n dates lg"
    unfolding dispatch_grid_alerts_def t a ..
  then show ?thesis by (simp add: dispatch_skips)
qed

theorem dispatch_ignores_other_rules_witness:
  "dispatch_grid_alerts sample_env sample_db ''other'' [''2026-08-15''] empty_log = (Ok 0, empty_log)"
proof -
  have "active_rules sample_db ''other'' = []" by (simp add: active_rules_def sample_db_def sample_rule_def)
  with conjunct2 [OF dispatch_ignores_other_rules [of sample_env sample_db "''other''" "[''2026-08-15'']" empty_log]]
  show ?thesis by blast
qed

text \<open>
  Recipients fall back from the rule's own field to the operator's settings; on a table
  with one settings row per user the look-up never raises.
\<close>

theorem recipients_fall_back:
  assumes "settings_ok (db_settings session)"
  shows "rule_email_recipients rule session = Inr
    (if parse_recipients (ar_recipients rule) \<noteq> [] then parse_recipients (ar_recipients rule)
     else case lookup_row ns_user_id (db_settings session) (ar_user_id rule) of
       None \<Rightarrow> [] | Some s \<Rightarrow> parse_recipients (ns_email_recipients s))"
proof -
  have "distinct (map ns_user_id (db_settings session))" using assms by (simp add: table_ok_def)
  note u = scalar_unique [OF this, of "ar_user_id rule"]
  have "parse_recipients None = []" by (simp add: parse_recipients_def)
  then show ?thesis
    by (auto simp: rule_email_recipients_def Let_def scalar_map u split: option.splits)
qed

theorem recipients_fall_back_witness:
  "settings_ok (db_settings sample_db) \<and>
   rule_email_recipients (sample_rule 7 ''op'' [''wind''] ''ALERT'') sample_db = Inr []"
proof -
  have ok: "settings_ok (db_settings sample_db)" by (simp add: sample_db_def empty_db_def table_ok_def)
  from recipients_fall_back [OF ok] ok show ?thesis
    by (simp add: sample_rule_def parse_recipients_def sample_db_def empty_db_def lookup_row_def)
qed

end
