(* ===== verification/Calendar.thy ===== *)
theory Calendar
  imports PyText "HOL-Library.Product_Lexorder"
begin

text \<open>
  Python's \<open>datetime.date\<close> as the pipeline listener uses it: the proleptic Gregorian calendar
  of the years 1 to 9999, \<open>date + timedelta(days=i)\<close> with its \<open>OverflowError\<close>,
  \<open>isoformat\<close> and its inverse, and the date of \<open>datetime.fromisoformat\<close> with the grammar of
  Python 3.11 and later, which reads calendar dates and ISO week dates, any one separator
  character, a time with optional fraction and an optional offset.
\<close>

section \<open>Dates\<close>

record pydate =
  d_year :: nat
  d_month :: nat
  d_day :: nat

definition mk_date :: "nat \<Rightarrow> nat \<Rightarrow> nat \<Rightarrow> pydate" where
  "mk_date y m d = \<lparr>d_year = y, d_month = m, d_day = d\<rparr>"

definition leap_year :: "nat \<Rightarrow> bool" where
  "leap_year y \<longleftrightarrow> y mod 4 = 0 \<and> (y mod 100 \<noteq> 0 \<or> y mod 400 = 0)"

definition days_in_month :: "nat \<Rightarrow> nat \<Rightarrow> nat" where
  "days_in_month y m =
     (if m = 2 then (if leap_year y then 29 else 28)
      else if m = 4 \<or> m = 6 \<or> m = 9 \<or> m = 11 then 30 else 31)"

definition valid_date :: "pydate \<Rightarrow> bool" where
  "valid_date d \<longleftrightarrow> 1 \<le> d_year d \<and> d_year d \<le> 9999 \<and> 1 \<le> d_month d \<and> d_month d \<le> 12 \<and>
     1 \<le> d_day d \<and> d_day d \<le> days_in_month (d_year d) (d_month d)"

definition next_day :: "pydate \<Rightarrow> pydate res" where
  "next_day d =
     (if d_day d < days_in_month (d_year d) (d_month d) then Ok (d\<lparr>d_day := d_day d + 1\<rparr>)
      else if d_month d < 12 then Ok (mk_date (d_year d) (d_month d + 1) 1)
      else if d_year d < 9999 then Ok (mk_date (d_year d + 1) 1 1)
      else Raise OverflowError)"

text \<open>\<open>d + timedelta(days=n)\<close>\<close>

fun add_days :: "nat \<Rightarrow> pydate \<Rightarrow> pydate res" where
  "add_days 0 d = Ok d"
| "add_days (Suc n) d = bindR (next_day d) (add_days n)"

section \<open>Day numbers\<close>

definition year_length :: "nat \<Rightarrow> nat" where
  "year_length y = (if leap_year y then 366 else 365)"

definition days_before_year :: "nat \<Rightarrow> nat" where
  "days_before_year y = (let k = y - 1 in 365 * k + k div 4 + k div 400 - k div 100)"

fun days_before_month :: "nat \<Rightarrow> nat \<Rightarrow> nat" where
  "days_before_month y 0 = 0"
| "days_before_month y (Suc m) = days_before_month y m + (if m = 0 then 0 else days_in_month y m)"

definition to_ordinal :: "pydate \<Rightarrow> nat" where
  "to_ordinal d = days_before_year (d_year d) + days_before_month (d_year d) (d_month d) + d_day d"

function split_years :: "nat \<Rightarrow> nat \<Rightarrow> nat \<times> nat" where
  "split_years y n = (if year_length y < n then split_years (y + 1) (n - year_length y) else (y, n))"
  by pat_completeness auto
termination by (relation "measure snd") (auto simp: year_length_def)

function split_months :: "nat \<Rightarrow> nat \<Rightarrow> nat \<Rightarrow> nat \<times> nat" where
  "split_months y m n =
     (if days_in_month y m < n then split_months y (m + 1) (n - days_in_month y m) else (m, n))"
  by pat_completeness auto
termination by (relation "measure (\<lambda>(y, m, n). n)") (auto simp: days_in_month_def)

declare split_years.simps [simp del] split_months.simps [simp del]

definition of_ordinal :: "nat \<Rightarrow> pydate" where
  "of_ordinal n = (case split_years 1 n of (y, k) \<Rightarrow> case split_months y 1 k of (m, d) \<Rightarrow> mk_date y m d)"

text \<open>The date of an ISO week and weekday, when the year has that week.\<close>

definition iso_week_date :: "nat \<Rightarrow> nat \<Rightarrow> nat \<Rightarrow> pydate option" where
  "iso_week_date y w d =
     (let first = (days_before_year y + 7) mod 7;
          jan1 = days_before_year y + 1;
          monday = (if first \<le> 3 then int jan1 - int first else int jan1 - int first + 7);
          n = monday + 7 * (int w - 1) + int d - 1
      in if y = 0 \<or> w = 0 \<or> 53 < w \<or> (w = 53 \<and> \<not> (first = 3 \<or> (first = 2 \<and> leap_year y))) \<or>
            d = 0 \<or> 7 < d \<or> n < 1
         then None else Some (of_ordinal (nat n)))"

section \<open>Text\<close>

definition isoformat :: "pydate \<Rightarrow> string" where
  "isoformat d = pad_digits 4 (d_year d) @ ''-'' @ pad_digits 2 (d_month d) @ ''-'' @ pad_digits 2 (d_day d)"

text \<open>The shape \<open>\d{4}-\d{2}-\d{2}\<close>.\<close>

definition date_shape :: "string \<Rightarrow> bool" where
  "date_shape s \<longleftrightarrow> length s = 10 \<and> list_all is_digit (take 4 s) \<and> s ! 4 = CHR ''-'' \<and>
     list_all is_digit (take 2 (drop 5 s)) \<and> s ! 7 = CHR ''-'' \<and> list_all is_digit (drop 8 s)"

text \<open>\<open>date.fromisoformat\<close> on that shape, the only one the service passes to it.\<close>

definition date_fromisoformat :: "string \<Rightarrow> pydate res" where
  "date_fromisoformat s =
     (let d = mk_date (read_digits (take 4 s)) (read_digits (take 2 (drop 5 s))) (read_digits (drop 8 s))
      in if date_shape s \<and> valid_date d then Ok d else Raise ValueError)"

subsection \<open>datetime.fromisoformat\<close>

definition head_or :: "char \<Rightarrow> string \<Rightarrow> char" where
  "head_or c s = (case s of [] \<Rightarrow> c | x # _ \<Rightarrow> x)"

definition NUL :: char where
  "NUL = CHR 0x00"

text \<open>Exactly \<open>n\<close> digits.\<close>

definition take_digits :: "nat \<Rightarrow> string \<Rightarrow> (nat \<times> string) option" where
  "take_digits n s =
     (if n \<le> length s \<and> list_all is_digit (take n s) then Some (read_digits (take n s), drop n s) else None)"

text \<open>Where the date ends.\<close>

definition date_end :: "string \<Rightarrow> nat option" where
  "date_end s =
     (if length s = 7 then Some 7
      else if s ! 4 = CHR ''-'' then
        (if s ! 5 = CHR ''W'' then
           (if 8 < length s \<and> s ! 8 = CHR ''-'' then
              (if length s = 9 then None
               else if 10 < length s \<and> is_digit (s ! 10) then Some 8 else Some 10)
            else Some 8)
         else Some 10)
      else if s ! 4 = CHR ''W'' then
        (let i = 7 + length (takeWhile is_digit (drop 7 s))
         in if i < 9 then Some i else if even i then Some 7 else Some 8)
      else Some 8)"

definition expect_dash :: "bool \<Rightarrow> string \<Rightarrow> string option" where
  "expect_dash sep s = (if \<not> sep then Some s else if head_or NUL s = CHR ''-'' then Some (tl s) else None)"

definition parse_week :: "nat \<Rightarrow> bool \<Rightarrow> string \<Rightarrow> pydate option" where
  "parse_week y sep s =
     Option.bind (take_digits 2 s) (\<lambda>(w, r).
       if r = [] then iso_week_date y w 1
       else Option.bind (expect_dash sep r) (\<lambda>r'.
            Option.bind (take_digits 1 r') (\<lambda>(d, r'').
              if r'' = [] then iso_week_date y w d else None)))"

definition parse_month_day :: "nat \<Rightarrow> bool \<Rightarrow> string \<Rightarrow> pydate option" where
  "parse_month_day y sep s =
     Option.bind (take_digits 2 s) (\<lambda>(m, r).
     Option.bind (expect_dash sep r) (\<lambda>r'.
     Option.bind (take_digits 2 r') (\<lambda>(d, r'').
       if r'' = [] then Some (mk_date y m d) else None)))"

definition parse_iso_date :: "string \<Rightarrow> pydate option" where
  "parse_iso_date s =
     Option.bind (take_digits 4 s) (\<lambda>(y, r).
       let sep = (head_or NUL r = CHR ''-''); r' = (if sep then tl r else r)
       in if head_or NUL r' = CHR ''W'' then parse_week y sep (tl r') else parse_month_day y sep r')"

text \<open>
  A time up to the offset sign: hours, minutes and seconds with or without colons, then a
  fraction of which six digits count. \<open>nx\<close> is the character behind the time. The last
  component says that something is left over, which the reader tolerates before an offset.
\<close>

definition parse_fraction :: "string \<Rightarrow> char \<Rightarrow> (nat \<times> bool) option" where
  "parse_fraction s nx =
     (let k = min 6 (length s) in
      map_option (\<lambda>(v, r). (v * 10 ^ (6 - k), head_or nx (dropWhile is_digit r) \<noteq> NUL)) (take_digits k s))"

fun parse_hms :: "nat \<Rightarrow> bool \<Rightarrow> string \<Rightarrow> char \<Rightarrow> (nat list \<times> nat \<times> bool) option" where
  "parse_hms 0 sep s nx = map_option (\<lambda>(us, rest). ([], us, rest)) (parse_fraction s nx)"
| "parse_hms (Suc k) sep s nx =
     Option.bind (take_digits 2 s) (\<lambda>(v, r).
       let c = head_or nx r; sep' = (if k = 2 then c = CHR '':'' else sep); r1 = tl r
       in if r1 = [] then Some ([v], 0, c \<noteq> NUL)
          else map_option (\<lambda>(vs, us, rest). (v # vs, us, rest))
            (if sep' \<and> c = CHR '':'' then parse_hms k sep' r1 nx
             else if c = CHR ''.'' \<or> c = CHR '','' then parse_hms 0 sep' r1 nx
             else if \<not> sep' then parse_hms k sep' r nx
             else None))"

definition time_at :: "nat list \<Rightarrow> nat \<Rightarrow> nat" where
  "time_at vs i = (if i < length vs then vs ! i else 0)"

definition offset_char :: "char \<Rightarrow> bool" where
  "offset_char c = (c = CHR ''+'' \<or> c = CHR ''-'' \<or> c = CHR ''Z'')"

definition offset_ok :: "string \<Rightarrow> bool" where
  "offset_ok s =
     (case parse_hms 3 False s NUL of None \<Rightarrow> False
      | Some (ts, us, rest) \<Rightarrow> \<not> rest \<and>
          ((time_at ts 0 * 60 + time_at ts 1) * 60 + time_at ts 2) * 1000000 + us < 86400000000)"

definition time_ok :: "string \<Rightarrow> bool" where
  "time_ok t =
     (let pre = takeWhile (\<lambda>c. \<not> offset_char c) t; post = dropWhile (\<lambda>c. \<not> offset_char c) t in
      case parse_hms 3 False pre (head_or NUL post) of None \<Rightarrow> False
      | Some (ts, us, rest) \<Rightarrow>
          time_at ts 0 < 24 \<and> time_at ts 1 < 60 \<and> time_at ts 2 < 60 \<and>
          (case post of [] \<Rightarrow> \<not> rest
           | c # r \<Rightarrow> if c = CHR ''Z'' then head_or NUL r = NUL else offset_ok r))"

text \<open>The reader works on the UTF-8 bytes of the time.\<close>

definition utf8_text :: "string \<Rightarrow> string" where
  "utf8_text s = map char_of (py_encode_utf8 s)"

definition datetime_fromisoformat_date :: "string \<Rightarrow> pydate option" where
  "datetime_fromisoformat_date s =
     (if length s < 7 then None
      else Option.bind (date_end s) (\<lambda>l.
           Option.bind (parse_iso_date (take l s)) (\<lambda>d.
             if valid_date d \<and> (length s \<le> l \<or> time_ok (utf8_text (drop (l + 1) s))) then Some d else None)))"

section \<open>Successor days\<close>

lemma mk_date_sel [simp]: "d_year (mk_date y m d) = y" "d_month (mk_date y m d) = m" "d_day (mk_date y m d) = d"
  by (simp_all add: mk_date_def)

lemma days_in_month_bounds: "28 \<le> days_in_month y m" "days_in_month y m \<le> 31"
  by (simp_all add: days_in_month_def)

lemma leap_count:
  "year_length y + (if y mod 100 = 0 then 1 else 0) =
     365 + (if y mod 4 = 0 then 1 else 0) + (if y mod 400 = 0 then 1 else 0)"
proof -
  have "100 dvd y \<Longrightarrow> 4 dvd y" by (rule dvd_trans [of 4 100]) simp_all
  moreover have "400 dvd y \<Longrightarrow> 100 dvd y" by (rule dvd_trans [of 100 400]) simp_all
  ultimately show ?thesis unfolding year_length_def leap_year_def mod_eq_0_iff_dvd by auto
qed

lemma div_pred: "1 \<le> y \<Longrightarrow> 0 < d \<Longrightarrow> y div d = (y - 1) div d + (if y mod d = 0 then 1 else 0)" for y d :: nat
  by (cases y) (auto simp: div_Suc)

lemma days_before_year_Suc:
  assumes "1 \<le> y"
  shows "days_before_year (Suc y) = days_before_year y + year_length y"
proof -
  define a b c :: nat where "a = (if y mod 4 = 0 then 1 else 0)"
    and "b = (if y mod 100 = 0 then 1 else 0)" and "c = (if y mod 400 = 0 then 1 else 0)"
  define k where "k = y - 1"
  have "y div 4 = k div 4 + a" "y div 100 = k div 100 + b" "y div 400 = k div 400 + c"
    using div_pred [OF assms] by (simp_all add: a_def b_def c_def k_def)
  moreover have "year_length y + b = 365 + a + c" using leap_count [of y] by (simp add: a_def b_def c_def)
  moreover have "365 * y = 365 * k + 365" using assms by (cases y) (auto simp: k_def)
  moreover have "k div 100 \<le> k div 4" by (simp add: div_le_mono2)
  moreover have "Y + b = 365 + a + c \<Longrightarrow> B \<le> A \<Longrightarrow> K = 365 * k + 365 \<Longrightarrow>
      K + (A + a) + (C + c) - (B + b) = 365 * k + A + C - B + Y" for A B C K Y by arith
  ultimately show ?thesis
    unfolding days_before_year_def Let_def diff_Suc_1 k_def [symmetric] by simp
qed

lemma days_before_month_numeral:
  "days_before_month y (numeral n) = days_before_month y (pred_numeral n) +
     (if pred_numeral n = 0 then 0 else days_in_month y (pred_numeral n))"
  by (simp add: numeral_eq_Suc)

lemma year_length_months: "days_before_month y 13 = year_length y"
  by (simp add: year_length_def days_in_month_def days_before_month_numeral)

lemma year_length_last: "days_before_month y 12 + 31 = year_length y"
  by (simp add: year_length_def days_in_month_def days_before_month_numeral)

lemma next_day_step:
  assumes "valid_date d" "next_day d = Inr d'"
  shows "valid_date d' \<and> to_ordinal d' = Suc (to_ordinal d)"
proof -
  from assms(1) have v: "1 \<le> d_year d" "1 \<le> d_month d" "d_month d \<le> 12"
    "d_day d \<le> days_in_month (d_year d) (d_month d)" by (auto simp: valid_date_def)
  consider (day) "d_day d < days_in_month (d_year d) (d_month d)"
    | (month) "d_day d = days_in_month (d_year d) (d_month d)" "d_month d < 12"
    | (year) "d_day d = days_in_month (d_year d) (d_month d)" "d_month d = 12" "d_year d < 9999"
    using assms v by (fastforce simp: next_day_def split: if_splits)
  then show ?thesis
  proof cases
    case day
    with assms show ?thesis by (auto simp: next_day_def valid_date_def to_ordinal_def)
  next
    case month
    with assms v show ?thesis
      using days_in_month_bounds [of "d_year d" "Suc (d_month d)"]
      by (auto simp: next_day_def valid_date_def to_ordinal_def)
  next
    case year
    have "days_in_month (d_year d) 12 = 31" by (simp add: days_in_month_def)
    with year assms v show ?thesis
      using year_length_last [of "d_year d"] days_before_year_Suc [of "d_year d"]
      by (auto simp: next_day_def valid_date_def to_ordinal_def days_in_month_def)
  qed
qed

definition max_ordinal :: nat where
  "max_ordinal = 3652059"

lemma next_day_Raise:
  assumes "valid_date d" "next_day d = Inl e"
  shows "e = OverflowError \<and> to_ordinal d = max_ordinal"
proof -
  have d: "d_year d = 9999" "d_month d = 12" "d_day d = 31"
    using assms by (auto simp: next_day_def valid_date_def days_in_month_def split: if_splits)
  have "days_before_month 9999 12 = 334"
    by (simp add: days_in_month_def leap_year_def days_before_month_numeral)
  then have "to_ordinal d = max_ordinal"
    by (simp add: to_ordinal_def d days_before_year_def max_ordinal_def)
  with assms show ?thesis by (auto simp: next_day_def split: if_splits)
qed

lemma add_days_step:
  assumes "valid_date d" "add_days n d = Inr d'"
  shows "valid_date d' \<and> to_ordinal d' = to_ordinal d + n"
  using assms
proof (induction n arbitrary: d)
  case (Suc n)
  then obtain e where e: "next_day d = Inr e" "add_days n e = Inr d'" by (auto simp: bindR_Ok_iff)
  with Suc.prems(1) have "valid_date e" "to_ordinal e = Suc (to_ordinal d)" using next_day_step by blast+
  with Suc.IH [of e] e show ?case by simp
qed simp

lemma days_before_year_mono: "1 \<le> x \<Longrightarrow> x \<le> y \<Longrightarrow> days_before_year x \<le> days_before_year y"
proof (induction y)
  case (Suc y)
  then show ?case by (cases "x = Suc y") (auto simp: days_before_year_Suc)
qed simp

lemma days_before_month_mono: "m \<le> n \<Longrightarrow> days_before_month y m \<le> days_before_month y n"
  by (induction n) (auto simp: le_Suc_eq)

lemma days_before_month_le: "m \<le> 12 \<Longrightarrow> 1 \<le> m \<Longrightarrow> days_before_month y m + days_in_month y m \<le> year_length y"
  using days_before_month_mono [of "Suc m" 13 y] year_length_months [of y] by simp

lemma to_ordinal_le_max: "valid_date d \<Longrightarrow> to_ordinal d \<le> max_ordinal"
proof -
  assume v: "valid_date d"
  then have "to_ordinal d \<le> days_before_year (d_year d) + year_length (d_year d)"
    using days_before_month_le [of "d_month d" "d_year d"] by (auto simp: to_ordinal_def valid_date_def)
  also have "\<dots> = days_before_year (Suc (d_year d))" using v by (simp add: days_before_year_Suc valid_date_def)
  also have "\<dots> \<le> days_before_year 10000" using v by (intro days_before_year_mono) (auto simp: valid_date_def)
  also have "\<dots> = max_ordinal" by (simp add: days_before_year_def max_ordinal_def)
  finally show ?thesis .
qed

lemma add_days_total:
  assumes "valid_date d"
  shows "max_ordinal < to_ordinal d + n \<Longrightarrow> add_days n d = Inl OverflowError"
    and "to_ordinal d + n \<le> max_ordinal \<Longrightarrow> \<exists>d'. add_days n d = Inr d'"
proof -
  have "(to_ordinal d + n \<le> max_ordinal \<longrightarrow> (\<exists>d'. add_days n d = Inr d')) \<and>
      (max_ordinal < to_ordinal d + n \<longrightarrow> add_days n d = Inl OverflowError)"
    using assms
  proof (induction n arbitrary: d)
    case 0
    then show ?case using to_ordinal_le_max [of d] by auto
  next
    case (Suc n)
    then show ?case
    proof (cases "next_day d")
      case (Inl e)
      with Suc.prems next_day_Raise show ?thesis by fastforce
    next
      case (Inr d')
      with Suc.prems next_day_step have "valid_date d'" "to_ordinal d' = Suc (to_ordinal d)" by auto
      with Suc.IH [of d'] Inr show ?thesis by simp
    qed
  qed
  then show "max_ordinal < to_ordinal d + n \<Longrightarrow> add_days n d = Inl OverflowError"
    and "to_ordinal d + n \<le> max_ordinal \<Longrightarrow> \<exists>d'. add_days n d = Inr d'" by auto
qed

section \<open>Day numbers identify dates\<close>

definition date_tuple :: "pydate \<Rightarrow> nat \<times> nat \<times> nat" where
  "date_tuple d = (d_year d, d_month d, d_day d)"

lemma date_tuple_inject: "date_tuple d = date_tuple d' \<longleftrightarrow> d = d'"
  by (cases d; cases d') (simp add: date_tuple_def)

lemma date_tuple_less:
  "date_tuple d < date_tuple d' \<longleftrightarrow> d_year d < d_year d' \<or> d_year d = d_year d' \<and>
     (d_month d < d_month d' \<or> d_month d = d_month d' \<and> d_day d < d_day d')"
  by (auto simp: date_tuple_def order_le_less)

lemma to_ordinal_less:
  assumes "valid_date d" "valid_date d'" "date_tuple d < date_tuple d'"
  shows "to_ordinal d < to_ordinal d'"
proof -
  have v: "1 \<le> d_year d" "1 \<le> d_month d" "d_month d \<le> 12" "d_day d \<le> days_in_month (d_year d) (d_month d)"
    "1 \<le> d_day d'" using assms(1,2) by (auto simp: valid_date_def)
  consider (y) "d_year d < d_year d'" | (m) "d_year d = d_year d'" "d_month d < d_month d'"
    | (d) "d_year d = d_year d'" "d_month d = d_month d'" "d_day d < d_day d'"
    using assms(3) by (auto simp: date_tuple_less)
  then show ?thesis
  proof cases
    case y
    have "to_ordinal d \<le> days_before_year (d_year d) + year_length (d_year d)"
      using v days_before_month_le [of "d_month d" "d_year d"] by (simp add: to_ordinal_def)
    also have "\<dots> = days_before_year (Suc (d_year d))" using v by (simp add: days_before_year_Suc)
    also have "\<dots> \<le> days_before_year (d_year d')" using y by (intro days_before_year_mono) auto
    also have "\<dots> < to_ordinal d'" using v by (simp add: to_ordinal_def)
    finally show ?thesis .
  next
    case m
    have "days_before_month (d_year d) (d_month d) + days_in_month (d_year d) (d_month d) =
        days_before_month (d_year d) (Suc (d_month d))" using v by simp
    also have "\<dots> \<le> days_before_month (d_year d) (d_month d')" using m by (intro days_before_month_mono) auto
    finally show ?thesis using m v by (simp add: to_ordinal_def)
  next
    case d
    then show ?thesis by (simp add: to_ordinal_def)
  qed
qed

lemma to_ordinal_less_iff:
  assumes "valid_date d" "valid_date d'"
  shows "to_ordinal d < to_ordinal d' \<longleftrightarrow> date_tuple d < date_tuple d'"
  using to_ordinal_less [OF assms] to_ordinal_less [OF assms(2,1)] date_tuple_inject [of d d']
  by (metis linorder_neq_iff order_less_asym order_less_irrefl)

lemma to_ordinal_inject: "valid_date d \<Longrightarrow> valid_date d' \<Longrightarrow> to_ordinal d = to_ordinal d' \<longleftrightarrow> d = d'"
  using to_ordinal_less_iff [of d d'] to_ordinal_less_iff [of d' d] date_tuple_inject [of d d'] by auto

section \<open>Text of a date\<close>

lemma date_shape_join:
  assumes "length a = 4" "length b = 2" "length c = 2" "list_all is_digit a" "list_all is_digit b" "list_all is_digit c"
  shows "date_shape (a @ ''-'' @ b @ ''-'' @ c)"
  using assms by (simp add: date_shape_def nth_append)

lemma isoformat_shape: "date_shape (isoformat d)"
  unfolding isoformat_def by (rule date_shape_join) (simp_all add: pad_digits_digits)

lemma isoformat_fields:
  "take 4 (isoformat d) = pad_digits 4 (d_year d)" "take 2 (drop 5 (isoformat d)) = pad_digits 2 (d_month d)"
  "drop 8 (isoformat d) = pad_digits 2 (d_day d)"
  by (simp_all add: isoformat_def)

lemma date_fromisoformat_isoformat:
  assumes "valid_date d"
  shows "date_fromisoformat (isoformat d) = Inr d"
proof -
  have "d_year d < 10 ^ 4" "d_month d < 10 ^ 2" "d_day d < 10 ^ 2"
    using assms days_in_month_bounds [of "d_year d" "d_month d"] by (auto simp: valid_date_def)
  then have "mk_date (read_digits (pad_digits 4 (d_year d))) (read_digits (pad_digits 2 (d_month d)))
      (read_digits (pad_digits 2 (d_day d))) = d"
    by (simp add: read_pad_digits mk_date_def)
  then show ?thesis using assms
    by (simp add: date_fromisoformat_def isoformat_fields isoformat_shape)
qed

lemma digit_char_val: "is_digit c \<Longrightarrow> digit_char (digit_val c) = c"
  using code_point_digit [of "digit_val c"]
  by (intro code_point_inj) (auto simp: is_digit_def digit_val_def Let_def)

lemma pad_read_digits: "list_all is_digit ds \<Longrightarrow> pad_digits (length ds) (read_digits ds) = ds"
proof (induction ds rule: rev_induct)
  case (snoc c ds)
  then have "digit_val c < 10" by (auto simp: is_digit_def digit_val_def Let_def)
  with snoc show ?case by (simp add: read_digits_snoc digit_char_val)
qed simp

lemma date_shape_parts:
  assumes "date_shape s"
  obtains a b c where "s = a @ ''-'' @ b @ ''-'' @ c" "length a = 4" "length b = 2" "length c = 2"
    "list_all is_digit a" "list_all is_digit b" "list_all is_digit c"
proof
  have l: "length s = 10" using assms by (simp add: date_shape_def)
  have "drop 4 s = s ! 4 # drop 5 s" "drop 7 s = s ! 7 # drop 8 s"
    using l Cons_nth_drop_Suc [of 4 s] Cons_nth_drop_Suc [of 7 s] by auto
  then have "s = take 4 s @ s ! 4 # take 2 (drop 5 s) @ s ! 7 # drop 8 s"
    using append_take_drop_id [of 4 s] append_take_drop_id [of 2 "drop 5 s"] by simp
  then show "s = take 4 s @ ''-'' @ take 2 (drop 5 s) @ ''-'' @ drop 8 s"
    using assms by (auto simp: date_shape_def)
qed (use assms in \<open>auto simp: date_shape_def\<close>)

lemma isoformat_date_fromisoformat:
  assumes "date_fromisoformat s = Inr d"
  shows "isoformat d = s \<and> valid_date d"
proof -
  have sh: "date_shape s" "valid_date d"
    and d: "d = mk_date (read_digits (take 4 s)) (read_digits (take 2 (drop 5 s))) (read_digits (drop 8 s))"
    using assms by (auto simp: date_fromisoformat_def Let_def split: if_splits)
  obtain a b c where s: "s = a @ ''-'' @ b @ ''-'' @ c" "length a = 4" "length b = 2" "length c = 2"
    and dig: "list_all is_digit a" "list_all is_digit b" "list_all is_digit c"
    by (rule date_shape_parts [OF sh(1)])
  have "d = mk_date (read_digits a) (read_digits b) (read_digits c)" using d s by simp
  then show ?thesis
    using pad_read_digits [OF dig(1)] pad_read_digits [OF dig(2)] pad_read_digits [OF dig(3)] s sh(2)
    by (simp add: isoformat_def)
qed

subsection \<open>Text order is date order\<close>

lemma list_less_append_same: "xs @ ys < xs @ zs \<longleftrightarrow> ys < (zs :: 'a::linorder list)"
  by (induction xs) auto

lemma list_less_append_left:
  "length xs = length ys \<Longrightarrow> xs < ys \<Longrightarrow> xs @ us < ys @ (vs :: 'a::linorder list)"
  by (induction xs ys rule: list_induct2) auto

lemma digit_char_less: "m < 10 \<Longrightarrow> digit_char n < digit_char m \<longleftrightarrow> n < m" if "n < 10"
  using that code_point_digit [of n] code_point_digit [of m] by (simp add: less_char_def code_point_def)

lemma pad_digits_less: "n < m \<Longrightarrow> m < 10 ^ w \<Longrightarrow> pad_digits w n < pad_digits w m"
proof (induction w arbitrary: n m)
  case (Suc w)
  show ?case
  proof (cases "n div 10 < m div 10")
    case True
    moreover have "m div 10 < 10 ^ w" using Suc.prems by (simp add: less_mult_imp_div_less mult.commute)
    ultimately show ?thesis using Suc.IH by (simp add: list_less_append_left)
  next
    case False
    then have "n div 10 = m div 10" using Suc.prems by (simp add: div_le_mono antisym not_less)
    moreover from this have "n mod 10 < m mod 10" using Suc.prems by (metis add_less_cancel_left div_mult_mod_eq)
    ultimately show ?thesis by (simp add: list_less_append_same digit_char_less)
  qed
qed simp

lemma isoformat_less:
  assumes "valid_date d" "valid_date d'" "date_tuple d < date_tuple d'"
  shows "isoformat d < isoformat d'"
proof -
  have b: "d_year d' < 10 ^ 4" "d_month d' < 10 ^ 2" "d_day d' < 10 ^ 2"
    using assms(2) days_in_month_bounds [of "d_year d'" "d_month d'"] by (auto simp: valid_date_def)
  consider "d_year d < d_year d'" | "d_year d = d_year d'" "d_month d < d_month d'"
    | "d_year d = d_year d'" "d_month d = d_month d'" "d_day d < d_day d'"
    using assms(3) by (auto simp: date_tuple_less)
  then show ?thesis
    by cases (simp_all add: isoformat_def list_less_append_same list_less_append_left
      pad_digits_less [OF _ b(1)] pad_digits_less [OF _ b(2)] pad_digits_less [OF _ b(3)])
qed

end
