(* ===== verification/Listener.thy ===== *)
theory Listener
  imports Dispatcher Calendar Settings
begin

text \<open>
  \<open>src/celine/grid/services/pipeline_listener.py\<close>: a completed run of the grid pipeline
  evaluates the forecast horizon for one network or for every network with an active rule.
  The clock's date, the validation of the event payload and the two service clients are
  parameters.
\<close>

section \<open>The forecast horizon\<close>

definition parse_datetime :: "pyval \<Rightarrow> pydate option" where
  "parse_datetime v =
     (case v of
        VStr s \<Rightarrow>
          (let raw = py_strip s in
           if raw = [] then None
           else datetime_fromisoformat_date (if py_endswith raw ''Z'' then butlast raw @ ''+00:00'' else raw))
      | _ \<Rightarrow> None)"

definition normalise_period :: "pyval \<Rightarrow> string option" where
  "normalise_period v =
     (case v of
        VStr s \<Rightarrow> if date_shape (py_strip s) then Some (py_strip s) else map_option isoformat (parse_datetime v)
      | _ \<Rightarrow> map_option isoformat (parse_datetime v))"

definition horizon_dates :: "pydate \<Rightarrow> pyval \<Rightarrow> int \<Rightarrow> string list res" where
  "horizon_dates today timestamp days =
     bindR (case normalise_period timestamp of
              Some p \<Rightarrow> if p \<noteq> [] then date_fromisoformat p else Ok today
            | None \<Rightarrow> Ok today) (\<lambda>start.
     mapR (\<lambda>i. bindR (add_days i start) (\<lambda>d. Ok (isoformat d))) [0..<nat (max days 1)])"

section \<open>Which networks\<close>

definition is_pipeline_namespace :: "listener_settings \<Rightarrow> string \<Rightarrow> bool" where
  "is_pipeline_namespace st ns =
     (let own = s_grid_pipeline_namespace st in ns = own \<or> py_endswith ns (''.'' @ own))"

definition networks_with_active_rules :: "db \<Rightarrow> string list" where
  "networks_with_active_rules session =
     sort (remdups (map ar_network_id
       (filter (\<lambda>r. ar_active r = Some True \<and> ar_network_id r \<noteq> []) (db_rules session))))"

section \<open>The handler\<close>

record pipeline_event =
  ev_status :: string
  ev_flow :: string
  ev_namespace :: string
  ev_timestamp :: pyval

text \<open>The loop over the networks: an exception of one dispatch ends the run.\<close>

fun dispatch_networks ::
  "dispatch_env \<Rightarrow> db \<Rightarrow> string list \<Rightarrow> string list \<Rightarrow> dispatch_log \<Rightarrow> unit res \<times> dispatch_log" where
  "dispatch_networks env session dates [] lg = (Ok (), lg)"
| "dispatch_networks env session dates (n # ns) lg =
     (case dispatch_grid_alerts env session n dates lg of
        (Inl e, lg') \<Rightarrow> (Raise e, lg')
      | (Inr cnt, lg') \<Rightarrow> dispatch_networks env session dates ns lg')"

text \<open>\<open>clients\<close>: \<open>create_broker\<close> has made both service clients (\<open>_dt_client\<close> and
  \<open>_nudging_client\<close> are not \<open>None\<close>).\<close>

definition on_pipeline_run ::
  "listener_settings \<Rightarrow> pydate \<Rightarrow> bool \<Rightarrow> ('m \<Rightarrow> pipeline_event option) \<Rightarrow> dispatch_env \<Rightarrow> db \<Rightarrow> 'm \<Rightarrow>
   dispatch_log \<Rightarrow> unit res \<times> dispatch_log" where
  "on_pipeline_run st today clients model_validate env session msg lg =
     (case model_validate msg of
        None \<Rightarrow> (Ok (), lg)
      | Some event \<Rightarrow>
          if ev_status event \<noteq> ''completed'' then (Ok (), lg)
          else if ev_flow event \<noteq> s_grid_pipeline_flow st then (Ok (), lg)
          else if \<not> s_grid_alerts_enabled st then (Ok (), lg)
          else case horizon_dates today (ev_timestamp event) (s_grid_alert_horizon_days st) of
            Inl e \<Rightarrow> (Raise e, lg)
          | Inr dates \<Rightarrow>
              if \<not> clients then (Ok (), lg)
              else dispatch_networks env session dates
                     (if is_pipeline_namespace st (ev_namespace event)
                      then networks_with_active_rules session else [ev_namespace event]) lg)"

section \<open>The horizon: lemmas\<close>

lemma normalise_period_shape: "normalise_period v = Some p \<Longrightarrow> date_shape p"
  by (cases v) (auto simp: normalise_period_def isoformat_shape split: if_splits)

lemma date_shape_nonempty: "date_shape p \<Longrightarrow> p \<noteq> []"
  by (auto simp: date_shape_def)

lemma datetime_date_valid: "datetime_fromisoformat_date s = Some d \<Longrightarrow> valid_date d"
  by (auto simp: datetime_fromisoformat_date_def bind_eq_Some_conv split: if_splits)

definition horizon_start :: "pydate \<Rightarrow> pyval \<Rightarrow> pydate res" where
  "horizon_start today timestamp =
     (case normalise_period timestamp of Some p \<Rightarrow> date_fromisoformat p | None \<Rightarrow> Ok today)"

lemma horizon_dates_start:
  "horizon_dates today timestamp days = bindR (horizon_start today timestamp) (\<lambda>start.
     mapR (\<lambda>i. bindR (add_days i start) (\<lambda>d. Ok (isoformat d))) [0..<nat (max days 1)])"
proof (cases "normalise_period timestamp")
  case (Some p)
  then have "p \<noteq> []" using normalise_period_shape date_shape_nonempty by blast
  with Some show ?thesis by (simp add: horizon_dates_def horizon_start_def)
qed (simp add: horizon_dates_def horizon_start_def)

lemma horizon_start_valid: "valid_date today \<Longrightarrow> horizon_start today ts = Inr d \<Longrightarrow> valid_date d"
  by (auto simp: horizon_start_def dest: isoformat_date_fromisoformat split: option.splits)

lemma horizon_start_Raise:
  assumes "horizon_start today ts = Inl e"
  shows "e = ValueError \<and> (\<exists>s. ts = VStr s \<and> date_shape (py_strip s) \<and> (\<forall>d. valid_date d \<longrightarrow> isoformat d \<noteq> py_strip s))"
proof -
  obtain p where p: "normalise_period ts = Some p" "date_fromisoformat p = Inl e"
    using assms by (auto simp: horizon_start_def split: option.splits)
  have e: "e = ValueError" using p(2) by (auto simp: date_fromisoformat_def Let_def split: if_splits)
  have not_iso: "isoformat d \<noteq> p" if "valid_date d" for d
    using date_fromisoformat_isoformat [OF that] p(2) by auto
  obtain s where s: "ts = VStr s" using p(1) by (cases ts) (auto simp: normalise_period_def parse_datetime_def)
  have "date_shape (py_strip s) \<and> p = py_strip s"
  proof (rule ccontr)
    assume "\<not> ?thesis"
    with p(1) s obtain d where "parse_datetime ts = Some d" "p = isoformat d"
      by (auto simp: normalise_period_def split: if_splits)
    then have "valid_date d" "p = isoformat d"
      by (auto simp: parse_datetime_def s Let_def dest: datetime_date_valid split: if_splits)
    with not_iso show False by blast
  qed
  with e s not_iso show ?thesis by auto
qed

lemma mapR_nth: "mapR f xs = Inr ys \<Longrightarrow> i < length xs \<Longrightarrow> f (xs ! i) = Inr (ys ! i)"
  by (auto simp: mapR_Ok_iff list_all2_conv_all_nth)

section \<open>The handler: lemmas\<close>

lemma dispatch_calls:
  assumes "dispatch_grid_alerts env session n dates lg = (r, lg')"
  shows "l_calls lg' = l_calls lg @
    (if dates \<noteq> [] \<and> n \<noteq> [] \<and> active_rules session n \<noteq> [] then [risk_km_call n dates] else [])"
  using assms
proof (cases rule: dispatch_cases)
  case (sent rows ts)
  have "l_calls lg' = l_calls (lg\<lparr>l_calls := l_calls lg @ [risk_km_call n dates]\<rparr>)"
    using send_groups_calls [of env n rows dates "merge_by_recipients ts" 0
        "lg\<lparr>l_calls := l_calls lg @ [risk_km_call n dates]\<rparr>", unfolded sent(6)] by simp
  with sent show ?thesis by simp
qed auto

definition asked :: "dispatch_log \<Rightarrow> string list" where
  "asked lg = map vc_network_id (l_calls lg)"

lemma dispatch_networks_asked:
  assumes "dates \<noteq> []" "dispatch_networks env session dates ns lg = (r, lg')"
  shows "\<exists>done. prefix done ns \<and> (\<forall>u. r = Inr u \<longrightarrow> done = ns) \<and>
    asked lg' = asked lg @ filter (\<lambda>n. n \<noteq> [] \<and> active_rules session n \<noteq> []) done"
  using assms(2)
proof (induction ns arbitrary: lg)
  case (Cons n ns)
  obtain c lg1 where d: "dispatch_grid_alerts env session n dates lg = (c, lg1)" by force
  have a: "asked lg1 = asked lg @ filter (\<lambda>n. n \<noteq> [] \<and> active_rules session n \<noteq> []) [n]"
    using dispatch_calls [OF d] assms(1) by (simp add: asked_def risk_km_call_def)
  show ?case
  proof (cases c)
    case (Inl e)
    with Cons.prems d have "r = Inl e" "lg' = lg1" by auto
    with a show ?thesis by (intro exI [of _ "[n]"]) auto
  next
    case (Inr k)
    with Cons.prems d have "dispatch_networks env session dates ns lg1 = (r, lg')" by simp
    from Cons.IH [OF this] obtain done' where "prefix done' ns" "\<forall>u. r = Inr u \<longrightarrow> done' = ns"
      "asked lg' = asked lg1 @ filter (\<lambda>n. n \<noteq> [] \<and> active_rules session n \<noteq> []) done'" by blast
    with a show ?thesis by (intro exI [of _ "n # done'"]) auto
  qed
qed auto

lemma networks_member:
  "n \<in> set (networks_with_active_rules session) \<longleftrightarrow> n \<noteq> [] \<and> active_rules session n \<noteq> []"
  by (auto simp: networks_with_active_rules_def active_rules_def filter_empty_conv)

lemma horizon_nonempty: "horizon_dates today ts days = Inr ds \<Longrightarrow> ds \<noteq> []"
  by (auto simp: horizon_dates_start bindR_Ok_iff dest!: mapR_length)

text \<open>A loop over networks that returns has dispatched each of them.\<close>

lemma dispatch_networks_grow:
  "dispatch_networks env session dates ns lg = (r, lg') \<Longrightarrow> prefix (l_attempts lg) (l_attempts lg')"
proof (induction ns arbitrary: lg)
  case (Cons n ns)
  obtain c lg1 where d: "dispatch_grid_alerts env session n dates lg = (c, lg1)" by force
  note g = dispatch_attempts_grow [OF d]
  show ?case
  proof (cases c)
    case (Inl e)
    with Cons.prems d g show ?thesis by simp
  next
    case (Inr m)
    with Cons.prems d have "dispatch_networks env session dates ns lg1 = (r, lg')" by simp
    from Cons.IH [OF this] g show ?thesis by (rule prefix_order.trans [rotated])
  qed
qed simp

lemma dispatch_networks_covers:
  assumes "dispatch_networks env session dates ns lg = (Inr (), lg')" "n \<in> set ns"
  shows "\<exists>lg1 m lg2. dispatch_grid_alerts env session n dates lg1 = (Inr m, lg2) \<and>
    prefix (l_attempts lg) (l_attempts lg1) \<and> prefix (l_attempts lg2) (l_attempts lg')"
  using assms
proof (induction ns arbitrary: lg)
  case (Cons k ns)
  obtain c lg1 where d: "dispatch_grid_alerts env session k dates lg = (c, lg1)" by force
  with Cons.prems(1) obtain m where c: "c = Inr m" by (cases c) auto
  with Cons.prems(1) d have rest: "dispatch_networks env session dates ns lg1 = (Inr (), lg')" by simp
  show ?case
  proof (cases "n = k")
    case True
    with d c dispatch_networks_grow [OF rest] show ?thesis by blast
  next
    case False
    with Cons.prems(2) have "n \<in> set ns" by simp
    from Cons.IH [OF rest this] obtain lg2 m' lg3 where
      "dispatch_grid_alerts env session n dates lg2 = (Inr m', lg3)"
      "prefix (l_attempts lg1) (l_attempts lg2)" "prefix (l_attempts lg3) (l_attempts lg')" by blast
    with dispatch_attempts_grow [OF d] show ?thesis by (meson prefix_order.trans)
  qed
qed simp

text \<open>What the handler of an enabled, completed run comes down to.\<close>

lemma run_dispatches:
  assumes "model_validate msg = Some event" "ev_status event = ''completed''"
    and "ev_flow event = s_grid_pipeline_flow st" "s_grid_alerts_enabled st"
    and "horizon_dates today (ev_timestamp event) (s_grid_alert_horizon_days st) = Inr dates"
  shows "on_pipeline_run st today True model_validate env session msg lg =
    dispatch_networks env session dates (if is_pipeline_namespace st (ev_namespace event)
      then networks_with_active_rules session else [ev_namespace event]) lg"
  using assms by (simp add: on_pipeline_run_def)

section \<open>Properties\<close>

text \<open>
  C25: the horizon is never empty: it holds \<open>days\<close> consecutive calendar days (at least one)
  in ascending order, from the date of the timestamp, or from today when the timestamp
  cannot be read.
\<close>

theorem horizon_dates_correct:
  assumes "valid_date today" "horizon_dates today timestamp days = Inr ds"
  shows "length ds = nat (max days 1) \<and> sorted_wrt (<) ds \<and>
    (\<exists>start. valid_date start \<and> hd ds = isoformat start \<and>
      (case normalise_period timestamp of Some p \<Rightarrow> isoformat start = p | None \<Rightarrow> start = today) \<and>
      (\<forall>i < length ds. \<exists>d. valid_date d \<and> ds ! i = isoformat d \<and> to_ordinal d = to_ordinal start + i))"
proof -
  let ?f = "\<lambda>start i. bindR (add_days i start) (\<lambda>d. Ok (isoformat d))"
  from assms(2) obtain start where st: "horizon_start today timestamp = Inr start"
    and m: "mapR (?f start) [0..<nat (max days 1)] = Inr ds" by (auto simp: horizon_dates_start bindR_Ok_iff)
  have v: "valid_date start" using horizon_start_valid [OF assms(1) st] .
  have len: "length ds = nat (max days 1)" using mapR_length [OF m] by simp
  have each: "\<exists>d. valid_date d \<and> ds ! i = isoformat d \<and> to_ordinal d = to_ordinal start + i" if "i < length ds" for i
  proof -
    have "?f start i = Inr (ds ! i)" using mapR_nth [OF m, of i] that len by simp
    then obtain d where "add_days i start = Inr d" "ds ! i = isoformat d" by (auto simp: bindR_Ok_iff)
    with add_days_step [OF v] show ?thesis by blast
  qed
  have "ds ! i < ds ! j" if ij: "i < j" "j < length ds" for i j
  proof -
    from ij have "i < length ds" by simp
    then obtain d where d: "valid_date d" "ds ! i = isoformat d" "to_ordinal d = to_ordinal start + i"
      using each by blast
    obtain d' where d': "valid_date d'" "ds ! j = isoformat d'" "to_ordinal d' = to_ordinal start + j"
      using each ij(2) by blast
    show ?thesis
      using ij(1) d d' to_ordinal_less_iff [of d d'] isoformat_less [of d d'] by simp
  qed
  then have "sorted_wrt (<) ds" by (simp add: sorted_wrt_iff_nth_less)
  moreover have "hd ds = isoformat start"
    using each [of 0] len to_ordinal_inject [OF _ v] by (cases ds) auto
  moreover have "case normalise_period timestamp of Some p \<Rightarrow> isoformat start = p | None \<Rightarrow> start = today"
    using st by (auto simp: horizon_start_def dest: isoformat_date_fromisoformat split: option.splits)
  ultimately show ?thesis using len v each by blast
qed

theorem horizon_dates_correct_witness:
  "\<exists>ds. horizon_dates (mk_date 2026 8 15) (VStr '' 2026-12-31 '') 2 = Inr ds \<and> length ds = 2 \<and>
     ds = [''2026-12-31'', ''2027-01-01'']"
proof -
  have p: "normalise_period (VStr '' 2026-12-31 '') = Some ''2026-12-31''" by code_simp
  have d: "date_fromisoformat ''2026-12-31'' = Inr (mk_date 2026 12 31)" by code_simp
  have i: "isoformat (mk_date 2026 12 31) = ''2026-12-31''" "isoformat (mk_date 2027 (Suc 0) (Suc 0)) = ''2027-01-01''"
    by code_simp+
  have "next_day (mk_date 2026 12 31) = Inr (mk_date 2027 1 1)" by (simp add: next_day_def days_in_month_def)
  then have "horizon_dates (mk_date 2026 8 15) (VStr '' 2026-12-31 '') 2 = Inr [''2026-12-31'', ''2027-01-01'']"
    by (simp add: horizon_dates_start horizon_start_def p d i upt_rec numeral_2_eq_2)
  moreover have "valid_date (mk_date 2026 8 15)" by code_simp
  ultimately show ?thesis using horizon_dates_correct by fastforce
qed

text \<open>
  Computing the horizon raises in two cases only: a \<open>ValueError\<close> for a timestamp that
  has the shape of a date but is no day of the calendar, and an \<open>OverflowError\<close> for a
  horizon that runs past the year 9999.
\<close>

theorem horizon_errors:
  assumes "valid_date today" "horizon_dates today timestamp days = Inl e"
  shows "e = ValueError \<and> (\<exists>s. timestamp = VStr s \<and> date_shape (py_strip s) \<and>
      (\<forall>d. valid_date d \<longrightarrow> isoformat d \<noteq> py_strip s)) \<or>
    e = OverflowError \<and> (\<exists>start. valid_date start \<and> max_ordinal < to_ordinal start + nat (max days 1))"
proof (cases "horizon_start today timestamp")
  case (Inl e')
  then have "e' = e" using assms(2) by (simp add: horizon_dates_start)
  with horizon_start_Raise [OF Inl] show ?thesis by blast
next
  case (Inr start)
  then have "mapR (\<lambda>i. bindR (add_days i start) (\<lambda>d. Ok (isoformat d))) [0..<nat (max days 1)] = Inl e"
    using assms(2) by (simp add: horizon_dates_start)
  from mapR_RaiseD [OF this] obtain i where "i \<in> set [0..<nat (max days 1)]"
    and r: "bindR (add_days i start) (\<lambda>d. Ok (isoformat d)) = Inl e" by blast
  then have i: "i < nat (max days 1)" "add_days i start = Inl e" by (auto simp: bindR_Raise_iff)
  have v: "valid_date start" by (rule horizon_start_valid [OF assms(1) Inr])
  have "e = OverflowError \<and> max_ordinal < to_ordinal start + i"
    using add_days_total [OF v, where n = i] i(2) by (cases "to_ordinal start + i \<le> max_ordinal") auto
  with i(1) v show ?thesis by auto
qed

theorem horizon_errors_witness:
  "horizon_dates (mk_date 2026 8 15) (VStr ''2026-02-30'') 3 = Inl ValueError \<and>
   (\<forall>d. valid_date d \<longrightarrow> isoformat d \<noteq> ''2026-02-30'')"
proof -
  have "normalise_period (VStr ''2026-02-30'') = Some ''2026-02-30''" by code_simp
  moreover have "date_fromisoformat ''2026-02-30'' = Inl ValueError" by code_simp
  ultimately have h: "horizon_dates (mk_date 2026 8 15) (VStr ''2026-02-30'') 3 = Inl ValueError"
    by (simp add: horizon_dates_start horizon_start_def)
  have s: "py_strip ''2026-02-30'' = ''2026-02-30''" by code_simp
  have "valid_date (mk_date 2026 8 15)" by code_simp
  from horizon_errors [OF this h] h s show ?thesis by auto
qed

text \<open>
  C7: a completed, enabled run of the grid pipeline asks the Digital Twin once for every
  network with an active rule when it is published under the pipeline's own namespace, in
  the order of their names, and for no other network; published elsewhere it asks for that
  one network at most. If a dispatch raises, the networks after it are not evaluated.
\<close>

theorem run_asks_networks:
  assumes "on_pipeline_run st today clients model_validate env session msg empty_log = (r, lg')"
    and "model_validate msg = Some event"
  defines "networks \<equiv> (if is_pipeline_namespace st (ev_namespace event) then networks_with_active_rules session
      else filter (\<lambda>n. n \<noteq> [] \<and> active_rules session n \<noteq> []) [ev_namespace event])"
  shows "prefix (map vc_network_id (l_calls lg')) networks \<and>
    (ev_status event = ''completed'' \<and> ev_flow event = s_grid_pipeline_flow st \<and> s_grid_alerts_enabled st \<and>
       clients \<and> r = Inr () \<longrightarrow> map vc_network_id (l_calls lg') = networks) \<and>
    sorted_wrt (<) (networks_with_active_rules session) \<and>
    set (networks_with_active_rules session) = {n. n \<noteq> [] \<and> active_rules session n \<noteq> []}"
proof -
  let ?P = "\<lambda>n. n \<noteq> [] \<and> active_rules session n \<noteq> []"
  let ?ns = "if is_pipeline_namespace st (ev_namespace event) then networks_with_active_rules session
    else [ev_namespace event]"
  have networks: "networks = filter ?P ?ns"
    by (auto simp: networks_def networks_member intro: filter_True [symmetric])
  have sorted: "sorted_wrt (<) (networks_with_active_rules session)"
    by (simp add: networks_with_active_rules_def strict_sorted_iff)
  have members: "set (networks_with_active_rules session) = {n. n \<noteq> [] \<and> active_rules session n \<noteq> []}"
    by (auto simp: networks_member)
  have "prefix (asked lg') networks \<and>
    (ev_status event = ''completed'' \<and> ev_flow event = s_grid_pipeline_flow st \<and> s_grid_alerts_enabled st \<and>
       clients \<and> r = Inr () \<longrightarrow> asked lg' = networks)"
  proof (cases "\<exists>dates. ev_status event = ''completed'' \<and> ev_flow event = s_grid_pipeline_flow st \<and>
      s_grid_alerts_enabled st \<and> clients \<and>
      horizon_dates today (ev_timestamp event) (s_grid_alert_horizon_days st) = Inr dates")
    case True
    then obtain dates where ev: "ev_status event = ''completed''" "ev_flow event = s_grid_pipeline_flow st"
      "s_grid_alerts_enabled st" "clients"
      "horizon_dates today (ev_timestamp event) (s_grid_alert_horizon_days st) = Inr dates" by blast
    have d: "dispatch_networks env session dates ?ns empty_log = (r, lg')"
      using assms(1,2) ev by (simp add: on_pipeline_run_def)
    from dispatch_networks_asked [OF horizon_nonempty [OF ev(5)] d] obtain ds where
      ds: "prefix ds ?ns" "r = Inr () \<longrightarrow> ds = ?ns" "asked lg' = asked empty_log @ filter ?P ds" by blast
    have a: "asked lg' = filter ?P ds" using ds(3) by (simp add: asked_def empty_log_def)
    have "prefix (asked lg') networks" unfolding networks a by (rule filter_mono_prefix [OF ds(1)])
    moreover have "asked lg' = networks" if "r = Inr ()" using ds(2) that by (simp only: networks a)
    ultimately show ?thesis by blast
  next
    case False
    then have "lg' = empty_log \<and> (ev_status event = ''completed'' \<and> ev_flow event = s_grid_pipeline_flow st \<and>
        s_grid_alerts_enabled st \<and> clients \<longrightarrow> isl r)"
      using assms(1,2) by (auto simp: on_pipeline_run_def split: if_splits sum.splits)
    then show ?thesis by (auto simp: asked_def empty_log_def)
  qed
  with sorted members show ?thesis by (simp add: asked_def)
qed

definition sample_settings :: listener_settings where
  "sample_settings = \<lparr>s_grid_alerts_enabled = True, s_grid_pipeline_flow = ''grid-resilience-flow'',
     s_grid_pipeline_namespace = ''grid'', s_grid_alert_horizon_days = 1\<rparr>"

definition sample_event :: pipeline_event where
  "sample_event = \<lparr>ev_status = ''completed'', ev_flow = ''grid-resilience-flow'', ev_namespace = ''it.grid'',
     ev_timestamp = VStr ''2026-08-15 ''\<rparr>"

lemma sample_horizon: "horizon_dates (mk_date 2026 8 14) (VStr ''2026-08-15 '') 1 = Inr [''2026-08-15'']"
proof -
  have "normalise_period (VStr ''2026-08-15 '') = Some ''2026-08-15''" by code_simp
  moreover have "date_fromisoformat ''2026-08-15'' = Inr (mk_date 2026 8 15)" by code_simp
  moreover have "isoformat (mk_date 2026 8 15) = ''2026-08-15''" by code_simp
  ultimately show ?thesis by (simp add: horizon_dates_start horizon_start_def)
qed

lemma sample_run_report:
  "\<exists>lg' p. on_pipeline_run sample_settings (mk_date 2026 8 14) True Some sample_env sample_db sample_event empty_log =
     (Inr (), lg') \<and> l_attempts lg' = [p] \<and> f_risk_types (p_facts p) = [''wind'']"
proof -
  obtain lg' p where d: "dispatch_grid_alerts sample_env sample_db ''net'' [''2026-08-15''] empty_log = (Inr 1, lg')"
    and p: "l_attempts lg' = [p]" "f_risk_types (p_facts p) = [''wind'']"
    using sample_dispatch by blast
  note h = sample_horizon
  have n: "networks_with_active_rules sample_db = [''net'']"
    by (simp add: networks_with_active_rules_def sample_db_def sample_rule_def)
  have "is_pipeline_namespace sample_settings ''it.grid''"
    by (simp add: is_pipeline_namespace_def sample_settings_def py_endswith_def suffix_def)
  with d h n p show ?thesis
    by (simp add: on_pipeline_run_def sample_event_def) (simp add: sample_settings_def)
qed

lemma sample_run:
  "\<exists>lg'. on_pipeline_run sample_settings (mk_date 2026 8 14) True Some sample_env sample_db sample_event empty_log =
     (Inr (), lg')"
  using sample_run_report by blast

theorem run_asks_networks_witness:
  "\<exists>lg'. on_pipeline_run sample_settings (mk_date 2026 8 14) True Some sample_env sample_db sample_event empty_log =
     (Inr (), lg') \<and> map vc_network_id (l_calls lg') = networks_with_active_rules sample_db"
proof -
  obtain lg' where run: "on_pipeline_run sample_settings (mk_date 2026 8 14) True Some sample_env sample_db
      sample_event empty_log = (Inr (), lg')" using sample_run by blast
  have "is_pipeline_namespace sample_settings (ev_namespace sample_event)"
    by (simp add: is_pipeline_namespace_def sample_settings_def sample_event_def py_endswith_def suffix_def)
  with run_asks_networks [OF run refl] run show ?thesis
    by (auto simp: sample_settings_def sample_event_def)
qed

text \<open>
  A run whose time stamp has the shape of a date but names no day, as 2026-02-30, ends
  in a \<open>ValueError\<close> before any network is evaluated, although an unreadable time stamp is to
  start the horizon today.
\<close>

theorem impossible_date_ends_run:
  assumes "model_validate msg = Some event" "ev_status event = ''completed''"
    and "ev_flow event = s_grid_pipeline_flow st" "s_grid_alerts_enabled st"
    and "ev_timestamp event = VStr ''2026-02-30''"
  shows "on_pipeline_run st today clients model_validate env session msg lg = (Raise ValueError, lg)"
proof -
  have "normalise_period (VStr ''2026-02-30'') = Some ''2026-02-30''" by code_simp
  moreover have "date_fromisoformat ''2026-02-30'' = Inl ValueError" by code_simp
  ultimately have "horizon_dates today (VStr ''2026-02-30'') days = Inl ValueError" for days
    by (simp add: horizon_dates_start horizon_start_def)
  with assms show ?thesis by (simp add: on_pipeline_run_def)
qed

theorem impossible_date_ends_run_witness:
  "on_pipeline_run sample_settings (mk_date 2026 8 14) True Some sample_env sample_db
     (sample_event\<lparr>ev_timestamp := VStr ''2026-02-30''\<rparr>) empty_log = (Raise ValueError, empty_log)"
  by (rule impossible_date_ends_run [where event = "sample_event\<lparr>ev_timestamp := VStr ''2026-02-30''\<rparr>"]) (simp_all add: sample_event_def sample_settings_def)

end
