(* ===== verification/Lifespan.thy ===== *)
theory Lifespan
  imports Listener Policy
begin

text \<open>
  The life of the process: \<open>src/celine/grid/security/posture.py\<close>, \<open>create_broker\<close> of
  \<open>src/celine/grid/services/pipeline_listener.py\<close> and \<open>lifespan\<close> of \<open>src/celine/grid/main.py\<close>.
  The checks of the SDK's \<open>PostureGuard\<close> are parameters, each giving the violations it adds;
  so are the answers of the database and the broker. A start is the trace of its effects.
\<close>

section \<open>Posture\<close>

datatype violation =
    DevDatabaseUrl string string
  | SecretIsClientId string
  | ImplicitOidc string
  | NoPolicyBundle string

text \<open>The SDK's checks: what each adds to the guard, and how the guard is enforced.\<close>

record posture_sdk =
  sdk_dev_database_url :: "string \<Rightarrow> string \<Rightarrow> violation list"
  sdk_secret_equal :: "string \<Rightarrow> string option \<Rightarrow> string option \<Rightarrow> violation list"
  sdk_explicit_oidc :: "oidc_settings \<Rightarrow> violation list"
  sdk_enforce :: "violation list \<Rightarrow> unit res"

definition build_guard :: "posture_sdk \<Rightarrow> settings \<Rightarrow> bool \<Rightarrow> violation list" where
  "build_guard sdk cfg loaded =
     sdk_dev_database_url sdk ''DATABASE_URL'' (st_database_url cfg) @
     sdk_secret_equal sdk ''CELINE_OIDC_CLIENT_SECRET'' (oi_client_id (st_oidc cfg)) (oi_client_secret (st_oidc cfg)) @
     sdk_explicit_oidc sdk (st_oidc cfg) @
     (if \<not> loaded then [NoPolicyBundle (st_policies_dir cfg)] else [])"

definition enforce_posture :: "posture_sdk \<Rightarrow> settings \<Rightarrow> bool \<Rightarrow> unit res" where
  "enforce_posture sdk cfg loaded = sdk_enforce sdk (build_guard sdk cfg loaded)"

section \<open>Service clients\<close>

record service_clients =
  sc_dt :: "(string \<times> oidc_provider) option"
  sc_nudging :: "(string \<times> oidc_provider) option"
  sc_broker :: "(mqtt_settings \<times> oidc_provider) option"

definition no_clients :: service_clients where
  "no_clients = \<lparr>sc_dt = None, sc_nudging = None, sc_broker = None\<rparr>"

definition create_broker :: "settings \<Rightarrow> service_clients \<Rightarrow> service_clients" where
  "create_broker st c =
     (let c1 = (if st_digital_twin_api_url st \<noteq> None \<and> st_digital_twin_api_url st \<noteq> Some []
                then c\<lparr>sc_dt := Some (the (st_digital_twin_api_url st), make_oidc_provider st (st_dt_client_scope st))\<rparr>
                else c);
          c2 = c1\<lparr>sc_nudging := Some (st_nudging_api_url st, make_oidc_provider st (st_nudging_scope st))\<rparr>
      in c2\<lparr>sc_broker := Some (st_mqtt st, make_oidc_provider st None)\<rparr>)"

definition get_broker :: "service_clients \<Rightarrow> (mqtt_settings \<times> oidc_provider) option" where
  "get_broker c = sc_broker c"

text \<open>\<open>_dt_client is None or _nudging_client is None\<close> negated: the handler's guard.\<close>

definition clients_ready :: "service_clients \<Rightarrow> bool" where
  "clients_ready c \<longleftrightarrow> sc_dt c \<noteq> None \<and> sc_nudging c \<noteq> None"

lemma broker_created: "get_broker (create_broker st c) = Some (st_mqtt st, make_oidc_provider st None)"
  by (simp add: get_broker_def create_broker_def Let_def)

section \<open>The lifespan\<close>

datatype effect = InitDb | CreateBroker | Connect | Subscribe string | Disconnect | Serve

text \<open>What the outside answers; a time-out of the connection is an exception like another.\<close>

record outside =
  ou_init_db :: "unit res"
  ou_connect :: "unit res"
  ou_subscribe :: "unit res"
  ou_disconnect :: "unit res"

definition mqtt_startup :: "outside \<Rightarrow> effect list \<times> unit res" where
  "mqtt_startup ou =
     (case ou_connect ou of
        Inl e \<Rightarrow> ([Connect, Disconnect], ou_disconnect ou)
      | Inr u \<Rightarrow> (case ou_subscribe ou of
          Inl e \<Rightarrow> ([Connect, Subscribe ''celine/pipelines/runs/+'', Disconnect], ou_disconnect ou)
        | Inr v \<Rightarrow> ([Connect, Subscribe ''celine/pipelines/runs/+''], Ok ())))"

text \<open>The trace, how the start ended, and the clients; after serving, the last disconnect is
  guarded.\<close>

definition lifespan ::
  "posture_sdk \<Rightarrow> settings \<Rightarrow> bool \<Rightarrow> outside \<Rightarrow> effect list \<times> unit res \<times> service_clients" where
  "lifespan sdk cfg loaded ou =
     (case enforce_posture sdk cfg loaded of
        Inl e \<Rightarrow> ([], Inl e, no_clients)
      | Inr _ \<Rightarrow>
          (case ou_init_db ou of
             Inl e \<Rightarrow> ([InitDb], Inl e, no_clients)
           | Inr _ \<Rightarrow>
               let clients = create_broker cfg no_clients in
               (case mqtt_startup ou of
                  (tr, Inl e) \<Rightarrow> ([InitDb, CreateBroker] @ tr, Inl e, clients)
                | (tr, Inr _) \<Rightarrow> ([InitDb, CreateBroker] @ tr @ [Serve, Disconnect], Ok (), clients))))"

section \<open>Properties\<close>

text \<open>The documented contract of the guard: outside development it raises exactly when it holds a
  violation.\<close>

definition hardened :: "posture_sdk \<Rightarrow> bool" where
  "hardened sdk \<longleftrightarrow> (\<forall>vs. sdk_enforce sdk vs = (if vs = [] then Ok () else Raise (OtherError ''InsecureConfiguration'')))"

definition forbids_equal_secret :: "posture_sdk \<Rightarrow> bool" where
  "forbids_equal_secret sdk \<longleftrightarrow> (\<forall>name c. sdk_secret_equal sdk name (Some c) (Some c) \<noteq> [])"

text \<open>
  C36: nothing happens before the posture is accepted: outside development a start with any
  violation, a policy bundle that did not load among them, raises with no database, no
  client and no broker touched, and so does a start on the shipped defaults with neither
  the client id nor the secret set in the environment.
\<close>

theorem posture_comes_first:
  assumes "hardened sdk"
  shows "(build_guard sdk cfg loaded \<noteq> [] \<longrightarrow>
      lifespan sdk cfg loaded ou = ([], Inl (OtherError ''InsecureConfiguration''), no_clients)) \<and>
    (\<not> loaded \<longrightarrow> build_guard sdk cfg loaded \<noteq> []) \<and>
    (forbids_equal_secret sdk \<and> env ''CELINE_OIDC_CLIENT_ID'' = None \<and> env ''CELINE_OIDC_CLIENT_SECRET'' = None \<longrightarrow>
      build_guard sdk (default_settings env base_url mqtt dir) loaded \<noteq> []) \<and>
    (build_guard sdk cfg loaded = [] \<longrightarrow> InitDb \<in> set (fst (lifespan sdk cfg loaded ou)))"
proof (intro conjI impI)
  show "lifespan sdk cfg loaded ou = ([], Inl (OtherError ''InsecureConfiguration''), no_clients)"
    if "build_guard sdk cfg loaded \<noteq> []"
    using assms that by (simp add: lifespan_def enforce_posture_def hardened_def)
  show "InitDb \<in> set (fst (lifespan sdk cfg loaded ou))" if "build_guard sdk cfg loaded = []"
    using assms that
    by (auto simp: lifespan_def enforce_posture_def hardened_def Let_def split: sum.splits prod.splits)
  show "build_guard sdk (default_settings env base_url mqtt dir) loaded \<noteq> []"
    if "forbids_equal_secret sdk \<and> env ''CELINE_OIDC_CLIENT_ID'' = None \<and> env ''CELINE_OIDC_CLIENT_SECRET'' = None"
    using that by (simp add: build_guard_def default_settings_def default_oidc_def getenv_or_def forbids_equal_secret_def)
qed (simp add: build_guard_def)

definition sample_sdk :: posture_sdk where
  "sample_sdk = \<lparr>sdk_dev_database_url = (\<lambda>_ _. []),
     sdk_secret_equal = (\<lambda>name c s. if s = c then [SecretIsClientId name] else []), sdk_explicit_oidc = (\<lambda>_. []),
     sdk_enforce = (\<lambda>vs. if vs = [] then Ok () else Raise (OtherError ''InsecureConfiguration''))\<rparr>"

definition sample_outside :: outside where
  "sample_outside = \<lparr>ou_init_db = Ok (), ou_connect = Raise (OtherError ''TimeoutError''), ou_subscribe = Ok (),
     ou_disconnect = Raise (OtherError ''ConnectionError'')\<rparr>"

lemma sample_sdk_contract: "hardened sample_sdk" "forbids_equal_secret sample_sdk"
  by (simp_all add: sample_sdk_def hardened_def forbids_equal_secret_def)

theorem posture_comes_first_witness:
  "lifespan sample_sdk (default_settings (\<lambda>_. None) ''http://kc'' sample_mqtt ''policies'') True sample_outside =
     ([], Inl (OtherError ''InsecureConfiguration''), no_clients)"
  using posture_comes_first [OF sample_sdk_contract(1), of "default_settings (\<lambda>_. None) ''http://kc'' sample_mqtt ''policies''" True sample_outside
      "\<lambda>_. None" "''http://kc''" sample_mqtt "''policies''"] sample_sdk_contract(2) by blast

text \<open>
  C37: a broker that cannot be reached does not stop the service, as long as the disconnect that
  follows does not raise itself: the service serves, unsubscribed. If that disconnect
  raises, the start fails. Whatever the broker does, the service clients exist exactly when
  a Digital Twin URL is set, and a subscribed service has connected.
\<close>

theorem broker_outage:
  assumes "enforce_posture sdk cfg loaded = Ok ()" "ou_init_db ou = Ok ()"
    and "lifespan sdk cfg loaded ou = (tr, r, clients)"
  shows "(Serve \<in> set tr \<longleftrightarrow> r = Ok ()) \<and>
    (r = Ok () \<longleftrightarrow> (isl (ou_connect ou) \<or> isl (ou_subscribe ou) \<longrightarrow> ou_disconnect ou = Ok ())) \<and>
    (clients_ready clients \<longleftrightarrow> st_digital_twin_api_url cfg \<noteq> None \<and> st_digital_twin_api_url cfg \<noteq> Some []) \<and>
    (Subscribe ''celine/pipelines/runs/+'' \<in> set tr \<longleftrightarrow> \<not> isl (ou_connect ou))"
proof -
  have "clients = create_broker cfg no_clients"
    using assms by (auto simp: lifespan_def Let_def split: prod.splits sum.splits)
  then have "clients_ready clients \<longleftrightarrow> st_digital_twin_api_url cfg \<noteq> None \<and> st_digital_twin_api_url cfg \<noteq> Some []"
    by (simp add: create_broker_def clients_ready_def no_clients_def Let_def)
  moreover have "(Serve \<in> set tr \<longleftrightarrow> r = Ok ()) \<and>
    (r = Ok () \<longleftrightarrow> (isl (ou_connect ou) \<or> isl (ou_subscribe ou) \<longrightarrow> ou_disconnect ou = Ok ())) \<and>
    (Subscribe ''celine/pipelines/runs/+'' \<in> set tr \<longleftrightarrow> \<not> isl (ou_connect ou))"
  proof -
    have "(case mqtt_startup ou of
        (t, Inl e) \<Rightarrow> ([InitDb, CreateBroker] @ t, Inl e, create_broker cfg no_clients)
      | (t, Inr _) \<Rightarrow> ([InitDb, CreateBroker] @ t @ [Serve, Disconnect], Ok (), create_broker cfg no_clients)) =
        (tr, r, clients)"
      using assms(3) unfolding lifespan_def Let_def assms(1,2) sum.case .
    moreover obtain i c s d where "ou = \<lparr>ou_init_db = i, ou_connect = c, ou_subscribe = s, ou_disconnect = d\<rparr>"
      by (cases ou)
    ultimately show ?thesis
      by (cases c; cases s; cases d) (auto simp: mqtt_startup_def)
  qed
  ultimately show ?thesis by blast
qed

definition sample_config :: settings where
  "sample_config = default_settings (\<lambda>n. if n = ''CELINE_OIDC_CLIENT_SECRET'' then Some ''s3cret'' else None)
     ''http://kc'' sample_mqtt ''policies''"

theorem broker_outage_witness:
  "\<exists>tr e clients. lifespan sample_sdk sample_config True sample_outside = (tr, Inl e, clients) \<and> Serve \<notin> set tr \<and>
     clients_ready clients"
proof -
  have p: "enforce_posture sample_sdk sample_config True = Ok ()"
    by (simp add: enforce_posture_def build_guard_def sample_sdk_def sample_config_def default_settings_def
        default_oidc_def getenv_or_def)
  obtain tr r clients where l: "lifespan sample_sdk sample_config True sample_outside = (tr, r, clients)"
    by (cases "lifespan sample_sdk sample_config True sample_outside") blast
  have o: "ou_init_db sample_outside = Ok ()" by (simp add: sample_outside_def)
  from broker_outage [OF p o l] l show ?thesis
    by (cases r) (auto simp: sample_outside_def sample_config_def default_settings_def)
qed

end
