(* ===== verification/Systems.thy ===== *)
theory Systems
  imports Prelude
begin

text \<open>
  Systems that take steps: an invariant that every step keeps holds in every state of every run,
  and where each step also makes a weight smaller and only final states are stuck, every run is
  bounded and can be completed.
\<close>

section \<open>Invariants\<close>

locale invariant_system =
  fixes step :: "'s \<Rightarrow> 's \<Rightarrow> bool"
    and inv :: "'s \<Rightarrow> bool"
  assumes inv_step: "inv s \<Longrightarrow> step s t \<Longrightarrow> inv t"
begin

lemma inv_steps: "step\<^sup>*\<^sup>* s t \<Longrightarrow> inv s \<Longrightarrow> inv t"
  by (induction rule: rtranclp_induct) (auto intro: inv_step)

end

section \<open>Termination\<close>

locale terminating_system = invariant_system step inv
  for step :: "'s \<Rightarrow> 's \<Rightarrow> bool" and inv :: "'s \<Rightarrow> bool" +
  fixes weight :: "'s \<Rightarrow> nat"
    and final :: "'s \<Rightarrow> bool"
  assumes weight_step: "inv s \<Longrightarrow> step s t \<Longrightarrow> weight t < weight s"
    and progress: "inv s \<Longrightarrow> \<not> final s \<Longrightarrow> \<exists>t. step s t"
begin

lemma run_bounded: "(step ^^ n) s t \<Longrightarrow> inv s \<Longrightarrow> inv t \<and> n + weight t \<le> weight s"
proof (induction n arbitrary: t)
  case (Suc n)
  then obtain u where u: "(step ^^ n) s u" "step u t" by auto
  with Suc have "inv u" "n + weight u \<le> weight s" by auto
  with u(2) weight_step [of u t] inv_step [of u t] show ?case by auto
qed simp

lemma reaches_final: "inv s \<Longrightarrow> \<exists>t. step\<^sup>*\<^sup>* s t \<and> final t"
proof (induction "weight s" arbitrary: s rule: less_induct)
  case less
  show ?case
  proof (cases "final s")
    case False
    with less.prems obtain u where u: "step s u" using progress by blast
    with less.hyps [OF weight_step [OF less.prems u]] inv_step [OF less.prems u] show ?thesis
      by (meson converse_rtranclp_into_rtranclp)
  qed blast
qed

lemma stuck_final: "inv s \<Longrightarrow> (\<And>t. \<not> step s t) \<Longrightarrow> final s"
  using progress by blast

end

end
