(* ===== verification/App.thy ===== *)
theory App
  imports AlertsSpec GridProxy UserApi Lifespan Systems
begin

text \<open>
  \<open>src/celine/grid/main.py\<close> (\<open>create_app\<close>) and \<open>src/celine/grid/routes.py\<close>: the middlewares in the
  order in which they wrap the routes, the table of routes, and the effects of one request on
  the world: the database and the calls to the Digital Twin. The CORS middleware, the pages that
  the framework serves itself (documentation, 404, 405, redirects) and the texts of ids and
  times are parameters; so is \<open>docs_urls\<close> of the SDK, which decides where the pages of the
  documentation are mounted.
\<close>

section \<open>The world and the configuration\<close>

record docs_paths =
  dp_docs :: "string option"
  dp_redoc :: "string option"
  dp_openapi :: "string option"

record world =
  w_db :: db
  w_calls :: dt_log

record app_env =
  ap_alerts :: alerts_env
  ap_settings :: settings
  ap_dt :: "dt_handle \<Rightarrow> dt_client"
  ap_json_loads :: "string \<Rightarrow> pyval option"
  ap_parse_int :: "string \<Rightarrow> int option"
  ap_uuid_text :: "nat \<Rightarrow> string"
  ap_time_text :: "nat \<Rightarrow> string"
  ap_docs_urls :: "docs_paths \<Rightarrow> docs_paths"
  ap_page :: "request \<Rightarrow> response"
  ap_framework :: "request \<Rightarrow> response"

definition app_auth :: "app_env \<Rightarrow> auth_env" where
  "app_auth env = ae_auth (ap_alerts env)"

definition app_grid :: "app_env \<Rightarrow> grid_env" where
  "app_grid env =
     \<lparr>ge_auth = app_auth env, ge_settings = ap_settings env, ge_dt = ap_dt env, ge_json_loads = ap_json_loads env,
      ge_parse_int = ap_parse_int env\<rparr>"

text \<open>What is drawn for a request, and what comes with it.\<close>

record inputs =
  in_fresh :: nat
  in_now :: nat
  in_query :: query
  in_body :: body

section \<open>Responses of the alerts routes\<close>

definition rule_json :: "app_env \<Rightarrow> rule_response \<Rightarrow> pyval" where
  "rule_json env r = VDict
     [(''id'', VStr (ap_uuid_text env (rr_id r))), (''user_id'', VStr (rr_user_id r)),
      (''network_id'', VStr (rr_network_id r)), (''risk_types'', texts (rr_risk_types r)),
      (''threshold'', VStr (rr_threshold r)), (''recipients'', opt_str (rr_recipients r)),
      (''active'', VBool (rr_active r)), (''created_at'', VStr (ap_time_text env (rr_created_at r))),
      (''updated_at'', VStr (ap_time_text env (rr_updated_at r)))]"

definition settings_json :: "app_env \<Rightarrow> settings_response \<Rightarrow> pyval" where
  "settings_json env s = VDict
     [(''user_id'', VStr (sr_user_id s)), (''email_recipients'', opt_str (sr_email_recipients s)),
      (''webhook_url'', opt_str (sr_webhook_url s)), (''updated_at'', VStr (ap_time_text env (sr_updated_at s)))]"

fun success_status :: "alerts_call \<Rightarrow> nat" where
  "success_status (CreateRule b) = 201"
| "success_status (DeleteRule i) = 204"
| "success_status _ = 200"

fun answer_json :: "app_env \<Rightarrow> alerts_answer \<Rightarrow> pyval" where
  "answer_json env (Rules rs) = VList (map (rule_json env) rs)"
| "answer_json env (OneRule r) = rule_json env r"
| "answer_json env Deleted = VNone"
| "answer_json env (Settings s) = settings_json env s"

section \<open>The table of routes\<close>

datatype route = Health | Ping | Me | Alerts alerts_call | Grid grid_route string

text \<open>\<open>/api\<close> with \<open>alert-rules\<close>, \<open>alert-rules/{rule_id}\<close> and \<open>notification-settings\<close>; a path parameter is
  one segment that is not empty.\<close>

definition alerts_route :: "string \<Rightarrow> string list \<Rightarrow> body \<Rightarrow> alerts_call option" where
  "alerts_route method segments b =
     (case segments of
        [a] \<Rightarrow>
          if a = ''alert-rules'' then
            (if method = ''GET'' then Some ListRules else if method = ''POST'' then Some (CreateRule b) else None)
          else if a = ''notification-settings'' then
            (if method = ''GET'' then Some GetSettings else if method = ''PUT'' then Some (PutSettings b) else None)
          else None
      | [a, rule_id] \<Rightarrow>
          if a = ''alert-rules'' \<and> rule_id \<noteq> [] then
            (if method = ''PATCH'' then Some (UpdateRule rule_id b)
             else if method = ''DELETE'' then Some (DeleteRule rule_id) else None)
          else None
      | _ \<Rightarrow> None)"

definition grid_paths :: "(string list \<times> grid_route) list" where
  "grid_paths =
     [([''substations'', ''map''], RSubstationsMap), ([''filters''], RFilters), ([''tile-index''], RTileIndex),
      ([''shapes''], RShapes), ([''tree-strike-spans''], RTreeStrikeSpans), ([''risks''], RRisks),
      ([''risks-now''], RRisksNow), ([''risk-km''], RRiskKm), ([''risks-8h''], RRisks8h),
      ([''trendline''], RTrendline), ([''summary''], RSummary)]"

text \<open>\<open>/api/grid/{network_id}\<close>\<close>

definition grid_path_route :: "string \<Rightarrow> string list \<Rightarrow> (grid_route \<times> string) option" where
  "grid_path_route method segments =
     (case segments of
        g # network_id # rest \<Rightarrow>
          if method = ''GET'' \<and> g = ''grid'' \<and> network_id \<noteq> []
          then map_option (\<lambda>r. (r, network_id)) (map_of grid_paths rest) else None
      | _ \<Rightarrow> None)"

text \<open>The three routers in the order in which they are included.\<close>

definition api_route :: "string \<Rightarrow> string list \<Rightarrow> body \<Rightarrow> route option" where
  "api_route method segments b =
     (if method = ''GET'' \<and> segments = [''ping''] then Some Ping
      else if method = ''GET'' \<and> segments = [''me''] then Some Me
      else case alerts_route method segments b of
        Some call \<Rightarrow> Some (Alerts call)
      | None \<Rightarrow> (case grid_path_route method segments of Some (r, n) \<Rightarrow> Some (Grid r n) | None \<Rightarrow> None))"

definition find_route :: "request \<Rightarrow> body \<Rightarrow> route option" where
  "find_route rq b =
     (if rq_method rq = ''GET'' \<and> rq_path rq = ''/health'' then Some Health
      else case py_split_char CHR ''/'' (rq_path rq) of
        e # api # segments \<Rightarrow> if e = [] \<and> api = ''api'' then api_route (rq_method rq) segments b else None
      | _ \<Rightarrow> None)"

section \<open>The application\<close>

fun run_route :: "app_env \<Rightarrow> inputs \<Rightarrow> route \<Rightarrow> world asgi" where
  "run_route env i Health rq w = (respond 200 (VDict [(''status'', VStr ''ok'')]), w)"
| "run_route env i Ping rq w = (answer (ping (app_auth env) rq), w)"
| "run_route env i Me rq w = (answer (me (app_auth env) rq), w)"
| "run_route env i (Alerts call) rq w =
     (case alerts_api (ap_alerts env) (in_fresh i) (in_now i) rq call (w_db w) of
        (Inl f, d) \<Rightarrow> (failure_response f, w\<lparr>w_db := d\<rparr>)
      | (Inr a, d) \<Rightarrow> (respond (success_status call) (answer_json env a), w\<lparr>w_db := d\<rparr>))"
| "run_route env i (Grid r n) rq w =
     (case grid_api (app_grid env) rq r n (in_query i) of
        (out, calls) \<Rightarrow> (answer out, w\<lparr>w_calls := w_calls w @ calls\<rparr>))"

text \<open>The pages of the documentation come first; without the schema neither of the two is mounted.\<close>

definition app_docs :: "app_env \<Rightarrow> docs_paths" where
  "app_docs env = ap_docs_urls env
     \<lparr>dp_docs = Some ''/api/docs'', dp_redoc = Some ''/api/redoc'', dp_openapi = Some ''/api/openapi.json''\<rparr>"

definition mounted_pages :: "docs_paths \<Rightarrow> string list" where
  "mounted_pages p = (case dp_openapi p of
     None \<Rightarrow> []
   | Some openapi \<Rightarrow> openapi # (case dp_docs p of None \<Rightarrow> [] | Some d \<Rightarrow> [d]) @ (case dp_redoc p of None \<Rightarrow> [] | Some r \<Rightarrow> [r]))"

definition api_router :: "app_env \<Rightarrow> inputs \<Rightarrow> world asgi" where
  "api_router env i rq w =
     (if (rq_method rq = ''GET'' \<or> rq_method rq = ''HEAD'') \<and> rq_path rq \<in> set (mounted_pages (app_docs env))
      then (ap_page env rq, w)
      else case find_route rq (in_body i) of
        None \<Rightarrow> (ap_framework env rq, w)
      | Some r \<Rightarrow> run_route env i r rq w)"

text \<open>\<open>add_middleware\<close> puts a middleware in front of those added before; the stack wraps the routes from
  its end.\<close>

definition add_middleware :: "('w asgi \<Rightarrow> 'w asgi) \<Rightarrow> ('w asgi \<Rightarrow> 'w asgi) list \<Rightarrow> ('w asgi \<Rightarrow> 'w asgi) list" where
  "add_middleware m stack = m # stack"

definition create_app :: "app_env \<Rightarrow> (world asgi \<Rightarrow> world asgi) \<Rightarrow> inputs \<Rightarrow> world asgi" where
  "create_app env cors i =
     foldr (\<lambda>m app. m app)
       (add_middleware (policy_middleware (a_header (app_auth env))) (add_middleware cors []))
       (api_router env i)"

section \<open>Lemmas\<close>

text \<open>The policy middleware is the outermost: the last one added.\<close>

lemma create_app_stack:
  "create_app env cors i = policy_middleware (a_header (app_auth env)) (cors (api_router env i))"
  by (simp add: create_app_def add_middleware_def)

text \<open>The CORS middleware answers by itself or passes the request on.\<close>

definition cors_harmless :: "(world asgi \<Rightarrow> world asgi) \<Rightarrow> bool" where
  "cors_harmless cors \<longleftrightarrow> (\<forall>app rq w. snd (cors app rq w) = w \<or> snd (cors app rq w) = snd (app rq w))"

lemma create_app_effects:
  assumes "cors_harmless cors" "create_app env cors i rq w = (rs, w')"
  shows "w' = w \<or> (\<exists>r. find_route rq (in_body i) = Some r \<and> w' = snd (run_route env i r rq w))"
proof -
  have "w' = w \<or> w' = snd (cors (api_router env i) rq w)"
    using assms(2) by (auto simp: create_app_stack policy_middleware_def split: if_splits)
  moreover have "snd (cors (api_router env i) rq w) = w \<or>
      snd (cors (api_router env i) rq w) = snd (api_router env i rq w)"
    using assms(1) unfolding cors_harmless_def by blast
  ultimately have "w' = w \<or> w' = snd (api_router env i rq w)" by auto
  then show ?thesis by (auto simp: api_router_def split: option.splits if_splits)
qed

text \<open>Only an alerts route touches the database and only a grid route calls the Digital Twin.\<close>

lemma run_route_effects:
  assumes "w' = snd (run_route env i route rq w)"
  obtains (none) "w' = w"
    | (alerts) call r d' where "alerts_api (ap_alerts env) (in_fresh i) (in_now i) rq call (w_db w) = (r, d')"
        "w' = w\<lparr>w_db := d'\<rparr>"
    | (grid) r n out calls where "grid_api (app_grid env) rq r n (in_query i) = (out, calls)"
        "w' = w\<lparr>w_calls := w_calls w @ calls\<rparr>"
proof (cases route)
  case (Alerts call)
  obtain r d' where a: "alerts_api (ap_alerts env) (in_fresh i) (in_now i) rq call (w_db w) = (r, d')" by force
  with assms Alerts have "w' = w\<lparr>w_db := d'\<rparr>" by (cases r) auto
  with alerts a show thesis by blast
next
  case (Grid r n)
  obtain out calls where "grid_api (app_grid env) rq r n (in_query i) = (out, calls)" by force
  with assms Grid grid show thesis by auto
qed (use assms none in auto)

lemma call_guard_token:
  assumes "call_guard env rq call = Inr user"
  shows "\<exists>t. extract_token (a_header (ae_auth env)) rq = Some t \<and> a_from_token (ae_auth env) t = Inr user"
  using assms by (cases call)
    (auto simp: require_alerts_read_def require_alerts_write_def bindR_Ok_iff enforce_Inr require_user_Inr)

text \<open>What the service may be asked to do, in a predicate: networks a caller may read.\<close>

definition may_read :: "jwt_user \<Rightarrow> string \<Rightarrow> bool" where
  "may_read user n \<longleftrightarrow>
     (if judged_service user then carries_scope user ''grid.read'' \<or> carries_scope user ''grid.admin''
      else n \<in> set (dso_networks user))"

text \<open>The service from its start on an empty database: any requests, in any order.\<close>

definition started :: world where
  "started = \<lparr>w_db = empty_db, w_calls = []\<rparr>"

lemma started_simps [simp]:
  "w_db started = empty_db" "w_calls started = []" "started\<lparr>w_db := d\<rparr> = \<lparr>w_db = d, w_calls = []\<rparr>"
  by (simp_all add: started_def)

inductive request_step :: "app_env \<Rightarrow> (world asgi \<Rightarrow> world asgi) \<Rightarrow> world \<Rightarrow> world \<Rightarrow> bool" for env cors where
  request_step: "create_app env cors i rq w = (rs, w') \<Longrightarrow> request_step env cors w w'"

inductive_cases request_stepE: "request_step env cors w w'"

definition calls_ok :: "dt_log \<Rightarrow> bool" where
  "calls_ok calls \<longleftrightarrow> (\<forall>n name payload limit. (n, DtFetchValues name payload limit) \<in> set calls \<longrightarrow>
     payload_ok name payload limit)"

definition service_ok :: "app_env \<Rightarrow> (world asgi \<Rightarrow> world asgi) \<Rightarrow> world \<Rightarrow> bool" where
  "service_ok env cors w \<longleftrightarrow> (cors_harmless cors \<longrightarrow> reachable (ap_alerts env) (w_db w) \<and> calls_ok (w_calls w))"

lemma grid_api_calls_ok:
  assumes "grid_api env rq r n q = (out, calls)"
  shows "calls_ok calls"
  using assms
proof (cases rule: grid_api_cases)
  case (body user h)
  from values_payload [OF body(3)] show ?thesis unfolding calls_ok_def by blast
qed (simp add: calls_ok_def)

lemma service_ok_step:
  assumes "service_ok env cors w" "request_step env cors w w'"
  shows "service_ok env cors w'"
  unfolding service_ok_def
proof
  assume cors: "cors_harmless cors"
  with assms(1) have ok: "reachable (ap_alerts env) (w_db w)" "calls_ok (w_calls w)" by (simp_all add: service_ok_def)
  from assms(2) obtain i rq rs where "create_app env cors i rq w = (rs, w')" by (rule request_stepE)
  from create_app_effects [OF cors this]
  show "reachable (ap_alerts env) (w_db w') \<and> calls_ok (w_calls w')"
  proof (elim disjE exE conjE)
    fix route assume "w' = snd (run_route env i route rq w)"
    then show ?thesis
    proof (cases rule: run_route_effects)
      case (alerts call r d')
      with ok reachable.request [OF ok(1) alerts(1)] show ?thesis by simp
    next
      case (grid r n out calls)
      with ok grid_api_calls_ok [OF grid(1)] show ?thesis by (auto simp: calls_ok_def)
    qed (use ok in simp)
  qed (use ok in simp)
qed

interpretation service: invariant_system "request_step env cors" "service_ok env cors" for env cors
  by unfold_locales (rule service_ok_step)

section \<open>Properties\<close>

text \<open>
  C21: nothing happens for a request without a token: outside the four public paths it is
  answered 401, whatever route it names, whatever the CORS middleware would do, with the
  database and the Digital Twin untouched. A CORS preflight, which a browser sends without
  credentials, is refused the same way.
\<close>

theorem unauthenticated_does_nothing:
  assumes "rq_path rq \<notin> public_paths" "extract_token (a_header (app_auth env)) rq = None"
  shows "create_app env cors i rq w = (missing_token, w)"
  using assms by (simp add: create_app_stack gate_refuses)

definition sample_app :: app_env where
  "sample_app = \<lparr>ap_alerts = sample_alerts_env, ap_settings = sample_dev_settings, ap_dt = ge_dt sample_grid,
     ap_json_loads = (\<lambda>s. None), ap_parse_int = ge_parse_int sample_grid, ap_uuid_text = (\<lambda>k. ''r7''),
     ap_time_text = (\<lambda>k. ''2026-08-15''),
     ap_docs_urls = (\<lambda>_. \<lparr>dp_docs = None, dp_redoc = None, dp_openapi = None\<rparr>), ap_page = (\<lambda>rq. respond 200 VNone),
     ap_framework = (\<lambda>rq. respond 404 VNone)\<rparr>"

definition sample_inputs :: inputs where
  "sample_inputs = \<lparr>in_fresh = 7, in_now = 5, in_query = sample_query, in_body = call_body sample_call\<rparr>"

definition sample_preflight :: request where
  "sample_preflight = \<lparr>rq_method = ''OPTIONS'', rq_path = ''/api/alert-rules'',
     rq_headers = [(''Origin'', ''http://localhost:3006''), (''Access-Control-Request-Method'', ''POST'')],
     rq_client = None\<rparr>"

theorem unauthenticated_does_nothing_witness:
  "create_app sample_app (\<lambda>app rq w. (respond 200 VNone, w)) sample_inputs sample_preflight started =
     (missing_token, started)"
proof (rule unauthenticated_does_nothing)
  show "rq_path sample_preflight \<notin> public_paths" by (simp add: sample_preflight_def public_paths_def)
  have "extract_token ''x-auth-request-access-token'' sample_preflight = None" by code_simp
  then show "extract_token (a_header (app_auth sample_app)) sample_preflight = None"
    by (simp add: app_auth_def sample_app_def sample_alerts_env_def sample_auth_def)
qed


text \<open>
  C5: nobody acts for somebody else. When a request changes the database or makes a call to the
  Digital Twin, it carries a token that was verified, every rule and setting of every other
  operator is as before, and the calls are about networks that the caller may read: those
  of the caller's DSO organisations, or any network for a service account with
  \<open>grid.read\<close> or \<open>grid.admin\<close>. It is a statement about a service outside development that has loaded
  the shipped policy, behind a CORS middleware that answers itself or passes the request on.
\<close>

theorem only_verified_callers_act:
  assumes "create_app env cors i rq w = (rs, w')" "w' \<noteq> w" "cors_harmless cors"
    and "db_ok (w_db w)" "in_fresh i \<notin> ar_id ` set (db_rules (w_db w))"
    and "a_engine (app_auth env) = Some rego_decision" "\<not> a_is_dev (app_auth env)"
  shows "\<exists>t user calls. extract_token (a_header (app_auth env)) rq = Some t \<and>
    a_from_token (app_auth env) t = Inr user \<and>
    (\<forall>u. u \<noteq> ju_sub user \<longrightarrow> view_of (w_db w') u = view_of (w_db w) u) \<and>
    w_calls w' = w_calls w @ calls \<and> (\<forall>(n, call) \<in> set calls. may_read user n)"
proof -
  obtain route where "w' = snd (run_route env i route rq w)"
    using create_app_effects [OF assms(3,1)] assms(2) by blast
  then show ?thesis
  proof (cases rule: run_route_effects)
    case (alerts call r d')
    from alerts(1) show ?thesis
    proof (cases rule: alerts_api_cases)
      case (run user op)
      from op_refines [OF assms(4,5) run(3)] have "\<forall>u. u \<noteq> ju_sub user \<longrightarrow> view_of d' u = view_of (w_db w) u"
        unfolding refines_def by blast
      with call_guard_token [OF run(1)] alerts(2) show ?thesis by (auto simp: app_auth_def)
    qed (use alerts(2) assms(2) in simp)
  next
    case (grid r n out calls)
    from grid(1) show ?thesis
    proof (cases rule: grid_api_cases)
      case (body user)
      have "require_network_read (app_auth env) rq n = Inr user" using body(1) by (simp add: app_grid_def)
      from network_read_cases [OF this assms(6,7)] obtain t where
        t: "extract_token (a_header (app_auth env)) rq = Some t" "a_from_token (app_auth env) t = Inr user"
        and m: "may_read user n" unfolding may_read_def by blast
      from grid_body_log [OF body(3)] obtain cs where "calls = map (Pair n) cs" by blast
      with m have "\<forall>(k, call) \<in> set calls. may_read user k" by auto
      with t grid(2) show ?thesis by auto
    qed (use grid(2) assms(2) in simp)
  qed (use assms(2) in simp)
qed

lemma sample_route: "find_route sample_request (in_body sample_inputs) = Some (Alerts sample_call)"
proof -
  have "py_split_char CHR ''/'' ''/api/alert-rules'' = [[], ''api'', ''alert-rules'']" by code_simp
  then show ?thesis
    by (simp add: find_route_def sample_request_def api_route_def alerts_route_def sample_inputs_def sample_call_def)
qed

lemma sample_post:
  "\<exists>rs. create_app sample_app (\<lambda>app. app) sample_inputs sample_request started =
     (rs, \<lparr>w_db = empty_db\<lparr>db_rules := [sample_created]\<rparr>, w_calls = []\<rparr>)"
proof -
  obtain x where x: "alerts_api sample_alerts_env 7 5 sample_request sample_call empty_db =
      (Inr (OneRule x), empty_db\<lparr>db_rules := [sample_created]\<rparr>)" using sample_api by blast
  have t: "extract_token (a_header (app_auth sample_app)) sample_request \<noteq> None"
    by (simp add: app_auth_def sample_app_def sample_alerts_env_def sample_auth_def sample_token)
  have d: "mounted_pages (app_docs sample_app) = []" by (simp add: app_docs_def mounted_pages_def sample_app_def)
  have "create_app sample_app (\<lambda>app. app) sample_inputs sample_request started =
      run_route sample_app sample_inputs (Alerts sample_call) sample_request started"
    using t by (simp add: create_app_stack gate_passes api_router_def d sample_route del: run_route.simps)
  then show ?thesis using x by (simp add: sample_app_def sample_inputs_def)
qed

theorem only_verified_callers_act_witness:
  "\<exists>rs w'. create_app sample_app (\<lambda>app. app) sample_inputs sample_request started = (rs, w') \<and>
     view_of (w_db w') ''other'' = view_of empty_db ''other'' \<and> db_rules (w_db w') = [sample_created]"
proof -
  let ?w = started
  obtain rs where p: "create_app sample_app (\<lambda>app. app) sample_inputs sample_request ?w =
      (rs, \<lparr>w_db = empty_db\<lparr>db_rules := [sample_created]\<rparr>, w_calls = []\<rparr>)" using sample_post by blast
  have h: "\<lparr>w_db = empty_db\<lparr>db_rules := [sample_created]\<rparr>, w_calls = []\<rparr> \<noteq> ?w" "cors_harmless (\<lambda>app. app)"
    "db_ok (w_db ?w)" "in_fresh sample_inputs \<notin> ar_id ` set (db_rules (w_db ?w))"
    "a_engine (app_auth sample_app) = Some rego_decision" "\<not> a_is_dev (app_auth sample_app)"
    by (simp_all add: empty_db_ok cors_harmless_def app_auth_def sample_app_def sample_alerts_env_def sample_auth_def)
      (simp_all add: empty_db_def started_def)
  from only_verified_callers_act [OF p h] obtain t user where
    u: "a_from_token (app_auth sample_app) t = Inr user" and
    v: "\<forall>u. u \<noteq> ju_sub user \<longrightarrow> view_of (empty_db\<lparr>db_rules := [sample_created]\<rparr>) u = view_of empty_db u"
    by auto
  have "ju_sub user = ''op''" using u
    by (auto simp: app_auth_def sample_app_def sample_alerts_env_def sample_auth_def split: if_splits)
  with v p show ?thesis by simp
qed

text \<open>
  C13: whatever requests the service is sent, in whatever order, its tables stay well formed and
  its rules typed, and what it has asked of the values endpoint of the Digital Twin was
  within bounds: a known fetcher with its row limit, dates, and validated filters.
\<close>

theorem service_invariant:
  assumes "(request_step env cors)\<^sup>*\<^sup>* started w" "cors_harmless cors"
  shows "db_ok (w_db w) \<and> (\<forall>x \<in> set (db_rules (w_db w)). rule_typed x) \<and>
    (\<forall>n name payload limit. (n, DtFetchValues name payload limit) \<in> set (w_calls w) \<longrightarrow> payload_ok name payload limit)"
proof -
  have "service_ok env cors started" by (simp add: service_ok_def started_def calls_ok_def reachable.empty)
  from service.inv_steps [OF assms(1) this] assms(2)
  have "reachable (ap_alerts env) (w_db w)" "calls_ok (w_calls w)" by (simp_all add: service_ok_def)
  with reachable_invariant show ?thesis unfolding calls_ok_def by blast
qed

theorem service_invariant_witness:
  "db_ok (empty_db\<lparr>db_rules := [sample_created]\<rparr>) \<and> rule_typed sample_created"
proof -
  have c: "cors_harmless (\<lambda>app. app)" by (simp add: cors_harmless_def)
  obtain rs where "create_app sample_app (\<lambda>app. app) sample_inputs sample_request started =
      (rs, \<lparr>w_db = empty_db\<lparr>db_rules := [sample_created]\<rparr>, w_calls = []\<rparr>)" using sample_post by blast
  from service_invariant [OF r_into_rtranclp [where r = "request_step sample_app (\<lambda>app. app)", OF request_step [OF this]] c] show ?thesis by simp
qed

text \<open>
  The API and the listener ask the same Digital Twin as the same client: wherever a request
  gets a Digital Twin client, it has the URL, the credentials of the service and the scope of
  the client the listener was made with, although each builds its own; and where no URL is configured, requests are answered
  503 and the listener has no client. The caller's token is never passed on.
\<close>

theorem one_digital_twin_client:
  "case get_dt_client cfg of
     Inr c \<Rightarrow> sc_dt (create_broker cfg no_clients) = Some c \<and> fst c \<noteq> [] \<and>
       snd c = deps_oidc_provider cfg (st_dt_client_scope cfg)
   | Inl f \<Rightarrow> failure_status f = 503 \<and> sc_dt (create_broker cfg no_clients) = None"
  by (auto simp: get_dt_client_def deps_oidc_provider_def make_oidc_provider_def create_broker_def no_clients_def Let_def
      split: option.splits sum.splits)

text \<open>
  The pages of the documentation are in the open and nowhere else: their three paths never ask for a token, and
  they lead to a page exactly when \<open>docs_urls\<close> left it mounted, as it is documented to do in development
  or where \<open>CELINE_PUBLIC_DOCS\<close> is set; elsewhere they are the framework's 404. The world stays as it is.
\<close>

lemma docs_are_no_routes:
  assumes "rq_path rq \<in> {''/api/docs'', ''/api/redoc'', ''/api/openapi.json''}"
  shows "find_route rq b = None"
proof -
  have "py_split_char CHR ''/'' ''/api/docs'' = [[], ''api'', ''docs'']"
    "py_split_char CHR ''/'' ''/api/redoc'' = [[], ''api'', ''redoc'']"
    "py_split_char CHR ''/'' ''/api/openapi.json'' = [[], ''api'', ''openapi.json'']" by code_simp+
  with assms show ?thesis
    by (elim insertE) (simp_all add: find_route_def api_route_def alerts_route_def grid_path_route_def)
qed

theorem docs_only_where_mounted:
  assumes "\<And>p. ap_docs_urls env p = (if open_docs then p else \<lparr>dp_docs = None, dp_redoc = None, dp_openapi = None\<rparr>)"
    and "rq_path rq \<in> {''/api/docs'', ''/api/redoc'', ''/api/openapi.json''}" "rq_method rq = ''GET''"
  shows "create_app env cors i rq w = cors (api_router env i) rq w \<and>
    api_router env i rq w = (if open_docs then ap_page env rq else ap_framework env rq, w)"
proof -
  have "rq_path rq \<in> public_paths" using assms(2) by (auto simp: public_paths_def)
  then have "create_app env cors i rq w = cors (api_router env i) rq w"
    by (simp add: create_app_stack policy_middleware_def)
  moreover have "rq_path rq \<in> set (mounted_pages (app_docs env)) \<longleftrightarrow> open_docs"
    using assms(2) by (auto simp: mounted_pages_def app_docs_def assms(1))
  ultimately show ?thesis using assms(3) by (simp add: api_router_def docs_are_no_routes [OF assms(2)])
qed

theorem docs_only_where_mounted_witness:
  "create_app sample_app (\<lambda>app. app) sample_inputs
     \<lparr>rq_method = ''GET'', rq_path = ''/api/docs'', rq_headers = [], rq_client = None\<rparr> started = (respond 404 VNone, started)"
proof -
  have "\<And>p. ap_docs_urls sample_app p = (if False then p else \<lparr>dp_docs = None, dp_redoc = None, dp_openapi = None\<rparr>)"
    by (simp add: sample_app_def)
  from docs_only_where_mounted [OF this, of "\<lparr>rq_method = ''GET'', rq_path = ''/api/docs'', rq_headers = [], rq_client = None\<rparr>"
      "\<lambda>app. app" sample_inputs started]
  show ?thesis by (simp add: sample_app_def)
qed

end
