(* ===== verification/Statements.thy ===== *)
theory Statements
  imports Systems "HOL-Library.Multiset"
begin

text \<open>
  Coroutines that await a shared database. A handler runs between two awaits without
  interruption and hands the control over at each statement, so a request is a tree: it has
  returned, or it awaits a statement whose effect and result depend on the database (and the
  clock) at the moment the statement runs. Requests in flight interleave at their statements.
  The locale gives the rely-guarantee rule for any number of them, and the step relation is a
  terminating system whenever every request has a bounded number of statements.
\<close>

section \<open>Programs\<close>

datatype ('d, 'a) prog =
    Return 'a
  | Await "nat \<Rightarrow> 'd \<Rightarrow> 'd" "nat \<Rightarrow> 'd \<Rightarrow> ('d, 'a) prog"

text \<open>A statement that only reads, and one that also writes.\<close>

definition reads :: "('d \<Rightarrow> 'b) \<Rightarrow> ('b \<Rightarrow> ('d, 'a) prog) \<Rightarrow> ('d, 'a) prog" where
  "reads f k = Await (\<lambda>now d. d) (\<lambda>now d. k (f d))"

definition writes :: "(nat \<Rightarrow> 'd \<Rightarrow> 'b \<times> 'd) \<Rightarrow> ('b \<Rightarrow> ('d, 'a) prog) \<Rightarrow> ('d, 'a) prog" where
  "writes f k = Await (\<lambda>now d. snd (f now d)) (\<lambda>now d. k (fst (f now d)))"

text \<open>Alone, a program takes its statements one after the other.\<close>

primrec run_prog :: "nat \<Rightarrow> ('d, 'a) prog \<Rightarrow> 'd \<Rightarrow> 'a \<times> 'd" where
  "run_prog now (Return a) = (\<lambda>d. (a, d))"
| "run_prog now (Await e k) = (\<lambda>d. run_prog now (k now d) (e now d))"

lemma prog_tree_induct [case_names Return Await]:
  assumes "\<And>a. P (Return a)" "\<And>e k. (\<And>now d. P (k now d)) \<Longrightarrow> P (Await e k)"
  shows "P p"
proof (induction p)
  case (Await e k)
  have "P (k now d)" for now d by (rule Await) auto
  then show ?case by (rule assms(2))
qed (rule assms(1))

fun returned :: "('d, 'a) prog \<Rightarrow> 'a option" where
  "returned (Return a) = Some a"
| "returned (Await e k) = None"

lemma returned_Some: "returned p = Some a \<longleftrightarrow> p = Return a"
  by (cases p) auto

lemma run_reads [simp]: "run_prog now (reads f k) d = run_prog now (k (f d)) d"
  by (simp add: reads_def)

lemma run_writes [simp]: "run_prog now (writes f k) d = run_prog now (k (fst (f now d))) (snd (f now d))"
  by (simp add: writes_def)

section \<open>Interleaving\<close>

type_synonym ('d, 'a) system = "'d \<times> ('d, 'a) prog list"

inductive prog_step :: "('d, 'a) system \<Rightarrow> ('d, 'a) system \<Rightarrow> bool" where
  statement: "i < length ps \<Longrightarrow> ps ! i = Await e k \<Longrightarrow>
    prog_step (d, ps) (e now d, ps[i := k now d])"

inductive_cases prog_stepE: "prog_step (d, ps) s"

inductive_simps prog_step_iff: "prog_step (d, ps) (d', ps')"

lemma prog_step_length: "prog_step s t \<Longrightarrow> length (snd t) = length (snd s)"
  by (induction rule: prog_step.induct) simp

lemma prog_steps_length: "prog_step\<^sup>*\<^sup>* s t \<Longrightarrow> length (snd t) = length (snd s)"
  by (induction rule: rtranclp_induct) (auto dest: prog_step_length)

text \<open>A program that nobody interrupts computes its sequential run.\<close>

lemma uninterrupted:
  "i < length ps \<Longrightarrow> ps ! i = p \<Longrightarrow> run_prog now p d = (a, d') \<Longrightarrow> prog_step\<^sup>*\<^sup>* (d, ps) (d', ps[i := Return a])"
proof (induction p arbitrary: d ps rule: prog_tree_induct)
  case (Return b)
  then show ?case by (auto simp: list_update_same_conv [THEN iffD2])
next
  case (Await e k)
  let ?ps = "ps[i := k now d]"
  have "prog_step (d, ps) (e now d, ?ps)" using Await.prems by (auto intro: statement)
  moreover have "prog_step\<^sup>*\<^sup>* (e now d, ?ps) (d', ?ps[i := Return a])"
    using Await.prems by (intro Await.IH) auto
  ultimately show ?case by (simp add: converse_rtranclp_into_rtranclp)
qed

section \<open>Rely and guarantee\<close>

text \<open>
  \<open>ensures R G Q p d\<close>: whatever the others do to the database within \<open>R\<close>, every statement of
  \<open>p\<close> stays within \<open>G\<close>, and \<open>p\<close> returns an answer within \<open>Q\<close>.
\<close>

primrec ensures ::
  "('d \<Rightarrow> 'd \<Rightarrow> bool) \<Rightarrow> ('d \<Rightarrow> 'd \<Rightarrow> bool) \<Rightarrow> ('a \<Rightarrow> 'd \<Rightarrow> bool) \<Rightarrow> ('d, 'a) prog \<Rightarrow> 'd \<Rightarrow> bool" where
  "ensures R G Q (Return a) = (\<lambda>d. \<forall>d'. R d d' \<longrightarrow> Q a d')"
| "ensures R G Q (Await e k) =
     (\<lambda>d. \<forall>d' now. R d d' \<longrightarrow> G d' (e now d') \<and> ensures R G Q (k now d') (e now d'))"

lemma ensures_reads:
  assumes "\<And>d'. R d d' \<Longrightarrow> G d' d'" "\<And>d'. R d d' \<Longrightarrow> ensures R G Q (k (f d')) d'"
  shows "ensures R G Q (reads f k) d"
  using assms by (simp add: reads_def)

lemma ensures_writes:
  assumes "\<And>d' now x d''. R d d' \<Longrightarrow> f now d' = (x, d'') \<Longrightarrow> G d' d'' \<and> ensures R G Q (k x) d''"
  shows "ensures R G Q (writes f k) d"
  using assms by (auto simp: writes_def) (metis prod.collapse)+

lemma ensures_mono:
  assumes "ensures R G Q p d" "\<And>x y. G x y \<Longrightarrow> G' x y" "\<And>a x. Q a x \<Longrightarrow> Q' a x"
  shows "ensures R G' Q' p d"
  using assms(1)
proof (induction p arbitrary: d rule: prog_tree_induct)
  case (Return a)
  with assms(3) show ?case by simp
next
  case (Await e k)
  with assms(2) show ?case by auto
qed

lemma ensures_relies:
  assumes "ensures R G Q p d" "\<And>x y. R' x y \<Longrightarrow> R x y"
  shows "ensures R' G Q p d"
  using assms(1)
proof (induction p arbitrary: d rule: prog_tree_induct)
  case (Return a)
  with assms(2) show ?case by simp
next
  case (Await e k)
  with assms(2) show ?case by auto
qed

lemma ensures_both:
  assumes "ensures R G Q p d" "ensures R G' Q' p d"
  shows "ensures R G (\<lambda>a x. Q a x \<and> Q' a x) p d"
  using assms
proof (induction p arbitrary: d rule: prog_tree_induct)
  case (Await e k)
  then show ?case by auto
qed simp

lemma ensures_map: "ensures R G Q (map_prog f p) d \<longleftrightarrow> ensures R G (\<lambda>a. Q (f a)) p d"
proof (induction p arbitrary: d rule: prog_tree_induct)
  case (Await e k)
  then show ?case by simp
qed simp

locale rely_guarantee =
  fixes rely guar :: "nat \<Rightarrow> 'd \<Rightarrow> 'd \<Rightarrow> bool"
  assumes rely_refl: "rely i d d"
    and rely_trans: "rely i d d' \<Longrightarrow> rely i d' d'' \<Longrightarrow> rely i d d''"
    and guar_rely: "guar i d d' \<Longrightarrow> i \<noteq> j \<Longrightarrow> rely j d d'"
begin

definition all_ensure :: "(nat \<Rightarrow> 'a \<Rightarrow> 'd \<Rightarrow> bool) \<Rightarrow> ('d, 'a) system \<Rightarrow> bool" where
  "all_ensure Q s \<longleftrightarrow> (\<forall>i < length (snd s). ensures (rely i) (guar i) (Q i) (snd s ! i) (fst s))"

lemma ensures_stable: "ensures (rely i) (guar i) Q p d \<Longrightarrow> rely i d d' \<Longrightarrow> ensures (rely i) (guar i) Q p d'"
  by (cases p) (auto intro: rely_trans)

lemma all_ensure_step:
  assumes "prog_step s t" "all_ensure Q s"
  shows "all_ensure Q t \<and> (\<exists>i. guar i (fst s) (fst t))"
  using assms
proof (induction rule: prog_step.induct)
  case (statement i ps e k d now)
  have at: "ensures (rely j) (guar j) (Q j) (ps ! j) d" if "j < length ps" for j
    using statement.prems that by (simp add: all_ensure_def)
  from at [OF statement.hyps(1)] statement.hyps(2) rely_refl
  have i: "guar i d (e now d)" "ensures (rely i) (guar i) (Q i) (k now d) (e now d)" by auto
  have "ensures (rely j) (guar j) (Q j) (ps ! j) (e now d)" if "j < length ps" "j \<noteq> i" for j
    using ensures_stable [OF at [OF that(1)] guar_rely [OF i(1)]] that(2) by simp
  with i statement.hyps(1) show ?case by (auto simp: all_ensure_def nth_list_update)
qed

lemma all_ensure_steps: "prog_step\<^sup>*\<^sup>* s t \<Longrightarrow> all_ensure Q s \<Longrightarrow> all_ensure Q t"
  by (induction rule: rtranclp_induct) (auto dest: all_ensure_step)

text \<open>What every guarantee keeps holds at every moment.\<close>

lemma always:
  assumes "prog_step\<^sup>*\<^sup>* s t" "all_ensure Q s" "I (fst s)" "\<And>i d d'. guar i d d' \<Longrightarrow> I d \<Longrightarrow> I d'"
  shows "I (fst t)"
  using assms(1)
proof (induction rule: rtranclp_induct)
  case (step t u)
  from all_ensure_steps [OF step.hyps(1) assms(2)] step.hyps(2) obtain i where "guar i (fst t) (fst u)"
    using all_ensure_step by blast
  with step.IH assms(4) show ?case by blast
qed (rule assms(3))

text \<open>The rule: programs that ensure their part side by side answer within their part.\<close>

lemma answers:
  assumes "all_ensure Q (d, ps)" "prog_step\<^sup>*\<^sup>* (d, ps) (d', ps')" "i < length ps" "ps' ! i = Return a"
  shows "Q i a d'"
proof -
  have "all_ensure Q (d', ps')" by (rule all_ensure_steps [OF assms(2,1)])
  moreover have "i < length ps'" using prog_steps_length [OF assms(2)] assms(3) by simp
  ultimately have "ensures (rely i) (guar i) (Q i) (ps' ! i) d'" by (simp add: all_ensure_def)
  with assms(4) rely_refl show ?thesis by simp
qed

end

text \<open>
  A program sees only databases that there were: what it answers for whatever it may see of
  those, it answers in this run. Nothing is asked of the other programs.
\<close>

lemma ensures_seen: "ensures (\<lambda>_. D) G Q p d \<Longrightarrow> ensures (\<lambda>_. D) G Q p d'"
  by (cases p) auto

lemma seen_answer:
  assumes "prog_step\<^sup>*\<^sup>* s t" "i < length (snd s)" "ensures (\<lambda>_. D) G Q (snd s ! i) (fst s)"
    and seen: "\<And>u. prog_step\<^sup>*\<^sup>* s u \<Longrightarrow> prog_step\<^sup>*\<^sup>* u t \<Longrightarrow> D (fst u)"
    and "snd t ! i = Return a"
  shows "Q a (fst t)"
proof -
  have "ensures (\<lambda>_. D) G Q (snd t ! i) (fst t)"
    using assms(1) seen
  proof (induction rule: rtranclp_induct)
    case (step u w)
    have "D (fst u)" using step by blast
    have ih: "ensures (\<lambda>_. D) G Q (snd u ! i) (fst u)"
      using step.prems step.hyps(2) by (intro step.IH) (meson rtranclp.rtrancl_into_rtrancl)
    from step.hyps(2) show ?case
    proof (cases rule: prog_step.cases)
      case (statement j ps e k d now)
      then show ?thesis
        using ih \<open>D (fst u)\<close> by (cases "j = i") (auto intro: ensures_seen)
    qed
  qed (rule assms(3))
  with assms(5) seen [OF assms(1) rtranclp.rtrancl_refl] show ?thesis by simp
qed

section \<open>Effects\<close>

text \<open>What every statement of a program does, whatever the database.\<close>

primrec all_effects :: "('d \<Rightarrow> 'd \<Rightarrow> bool) \<Rightarrow> ('d, 'a) prog \<Rightarrow> bool" where
  "all_effects T (Return a) \<longleftrightarrow> True"
| "all_effects T (Await e k) \<longleftrightarrow> (\<forall>now d. T d (e now d) \<and> all_effects T (k now d))"

lemma all_effects_reads: "(\<And>d. T d d) \<Longrightarrow> (\<And>d. all_effects T (k (f d))) \<Longrightarrow> all_effects T (reads f k)"
  by (simp add: reads_def)

lemma all_effects_writes:
  assumes "\<And>now d x d'. f now d = (x, d') \<Longrightarrow> T d d'" "\<And>x. all_effects T (k x)"
  shows "all_effects T (writes f k)"
  unfolding writes_def using assms(1) [OF surjective_pairing] assms(2) by simp

lemma ensures_effects:
  "ensures R G Q p d \<Longrightarrow> all_effects T p \<Longrightarrow> ensures R (\<lambda>x y. G x y \<and> T x y) Q p d"
  by (induction p arbitrary: d rule: prog_tree_induct) auto

lemma effects_ensure: "all_effects T p \<Longrightarrow> ensures R T (\<lambda>_ _. True) p d"
  by (induction p arbitrary: d rule: prog_tree_induct) auto

section \<open>Two programs\<close>

text \<open>Steps of a given schedule.\<close>

lemma left_reads: "p = reads f k \<Longrightarrow> k (f d) = p' \<Longrightarrow> prog_step (d, [p, q]) (d, [p', q])"
  using statement [of 0 "[p, q]" "\<lambda>now d. d" "\<lambda>now d. k (f d)" d] by (simp add: reads_def)

lemma right_reads: "p = reads f k \<Longrightarrow> k (f d) = p' \<Longrightarrow> prog_step (d, [q, p]) (d, [q, p'])"
  using statement [of 1 "[q, p]" "\<lambda>now d. d" "\<lambda>now d. k (f d)" d] by (simp add: reads_def)

lemma left_writes: "p = writes f k \<Longrightarrow> f now d = (x, d') \<Longrightarrow> k x = p' \<Longrightarrow> prog_step (d, [p, q]) (d', [p', q])"
  using statement [of 0 "[p, q]" _ _ d now] by (simp add: writes_def)

lemma right_writes: "p = writes f k \<Longrightarrow> f now d = (x, d') \<Longrightarrow> k x = p' \<Longrightarrow> prog_step (d, [q, p]) (d', [q, p'])"
  using statement [of 1 "[q, p]" _ _ d now] by (simp add: writes_def)

section \<open>Bounded programs\<close>

text \<open>\<open>ends_within p n\<close>: the program takes at most \<open>n\<close> statements, whatever they see.\<close>

primrec ends_within :: "('d, 'a) prog \<Rightarrow> nat \<Rightarrow> bool" where
  "ends_within (Return a) = (\<lambda>n. True)"
| "ends_within (Await e k) = (\<lambda>n. 0 < n \<and> (\<forall>now d. ends_within (k now d) (n - 1)))"

lemma ends_within_mono: "ends_within p n \<Longrightarrow> n \<le> m \<Longrightarrow> ends_within p m"
proof (induction p arbitrary: n m rule: prog_tree_induct)
  case (Await e k)
  from Await.prems have n: "0 < n" "\<And>now d. ends_within (k now d) (n - 1)" "0 < m" "n - 1 \<le> m - 1" by auto
  then show ?case using Await.IH [OF n(2,4)] by simp
qed simp

lemma ends_within_reads [simp]: "ends_within (reads f k) n \<longleftrightarrow> 0 < n \<and> (\<forall>d. ends_within (k (f d)) (n - 1))"
  by (auto simp: reads_def)

lemma ends_within_writes: "(\<And>x. ends_within (k x) (n - 1)) \<Longrightarrow> 0 < n \<Longrightarrow> ends_within (writes f k) n"
  by (auto simp: writes_def)

definition statements_left :: "('d, 'a) prog \<Rightarrow> nat" where
  "statements_left p = (LEAST n. ends_within p n)"

definition all_bounded :: "('d, 'a) system \<Rightarrow> bool" where
  "all_bounded s \<longleftrightarrow> (\<forall>p \<in> set (snd s). \<exists>n. ends_within p n)"

definition total_left :: "('d, 'a) system \<Rightarrow> nat" where
  "total_left s = sum_list (map statements_left (snd s))"

definition all_returned :: "('d, 'a) system \<Rightarrow> bool" where
  "all_returned s \<longleftrightarrow> (\<forall>p \<in> set (snd s). returned p \<noteq> None)"

lemma step_unless_returned:
  assumes "\<not> all_returned s"
  shows "\<exists>t. prog_step s t"
proof -
  obtain d ps where s: "s = (d, ps)" by (cases s)
  with assms obtain i where "i < length ps" "returned (ps ! i) = None"
    by (auto simp: all_returned_def in_set_conv_nth)
  then show ?thesis unfolding s by (cases "ps ! i") (auto intro: statement)
qed

lemma statements_left_least: "ends_within p n \<Longrightarrow> ends_within p (statements_left p) \<and> statements_left p \<le> n"
  unfolding statements_left_def by (metis LeastI Least_le)

lemma statements_left_Await:
  assumes "ends_within (Await e k) n"
  shows "statements_left (k now d) < statements_left (Await e k)"
proof -
  from statements_left_least [OF assms]
  have "0 < statements_left (Await e k)" "ends_within (k now d) (statements_left (Await e k) - 1)" by auto
  with statements_left_least [OF this(2)] show ?thesis by linarith
qed

lemma bounded_step:
  assumes "prog_step s t" "all_bounded s"
  shows "all_bounded t \<and> total_left t < total_left s"
  using assms
proof (induction rule: prog_step.induct)
  case (statement i ps e k d now)
  then have "Await e k \<in> set ps" by (metis nth_mem)
  with statement.prems obtain n where n: "ends_within (Await e k) n" by (auto simp: all_bounded_def)
  let ?ws = "map statements_left ps"
  have i: "i < length ?ws" "?ws ! i = statements_left (Await e k)" using statement.hyps by auto
  have less: "statements_left (k now d) < ?ws ! i" using statements_left_Await [OF n] i(2) by simp
  have "?ws ! i \<le> sum_list ?ws" using elem_le_sum_list [OF i(1)] .
  with less i(1) have "sum_list (?ws[i := statements_left (k now d)]) < sum_list ?ws"
    by (simp add: sum_list_update)
  moreover from n have "ends_within (k now d) (n - 1)" by simp
  then have "all_bounded (e now d, ps[i := k now d])"
    using statement.prems by (auto simp: all_bounded_def dest!: set_update_subset_insert [THEN subsetD])
  ultimately show ?case by (simp add: total_left_def map_update)
qed

interpretation programs: terminating_system prog_step all_bounded total_left all_returned
proof unfold_locales
  show "all_bounded t" if "all_bounded s" "prog_step s t"  for s t :: "('x, 'y) system"
    using bounded_step [OF that(2,1)] by simp
  show "total_left t < total_left s" if "all_bounded s" "prog_step s t"  for s t :: "('x, 'y) system"
    using bounded_step [OF that(2,1)] by simp
  show "\<exists>t. prog_step s t" if "all_bounded s" "\<not> all_returned s"  for s :: "('x, 'y) system"
    using step_unless_returned [OF that(2)] .
qed

lemma total_left_le:
  assumes "\<And>p. p \<in> set ps \<Longrightarrow> ends_within p n"
  shows "total_left (d, ps) \<le> n * length ps"
  using assms
proof (induction ps)
  case (Cons p ps)
  then have "statements_left p \<le> n" "total_left (d, ps) \<le> n * length ps"
    using statements_left_least by fastforce+
  then show ?case by (simp add: total_left_def)
qed (simp add: total_left_def)

section \<open>Every run ends\<close>

text \<open>
  Without a bound on its statements, a program still has no endless run: it is a tree of finite
  paths. A step replaces one of the programs by one of its subtrees, so systems descend in the
  multiset extension of that order.
\<close>

definition later :: "(('d, 'a) prog \<times> ('d, 'a) prog) set" where
  "later = {(p, q). \<exists>e k now d. q = Await e k \<and> p = k now d}"

lemma wf_later: "wf (later :: (('d, 'a) prog \<times> ('d, 'a) prog) set)"
proof (rule wfUNIVI)
  fix P :: "('d, 'a) prog \<Rightarrow> bool" and p :: "('d, 'a) prog"
  assume ind: "\<forall>p. (\<forall>q. (q, p) \<in> later \<longrightarrow> P q) \<longrightarrow> P p"
  show "P p"
  proof (induction p rule: prog_tree_induct)
    case (Return a)
    have "(q, Return a) \<notin> later" for q by (simp add: later_def)
    with ind show ?case by blast
  next
    case (Await e k)
    have "P q" if "(q, Await e k) \<in> later" for q using that Await by (auto simp: later_def)
    with ind show ?case by blast
  qed
qed

lemma step_descends: "prog_step s t \<Longrightarrow> (mset (snd t), mset (snd s)) \<in> mult later"
proof (induction rule: prog_step.induct)
  case (statement i ps e k d now)
  let ?rest = "mset ps - {#Await e k#}"
  have "(k now d, Await e k) \<in> later" by (auto simp: later_def)
  then have "(?rest + {#k now d#}, ?rest + {#Await e k#}) \<in> mult later"
    by (intro one_step_implies_mult) auto
  moreover have "Await e k \<in># mset ps" using statement by (metis nth_mem set_mset_mset)
  ultimately show ?case using statement by (simp add: mset_update)
qed

lemma no_endless_run: "\<not> (\<forall>n. prog_step (run n) (run (Suc n)))"
proof
  assume "\<forall>n. prog_step (run n) (run (Suc n))"
  then have "\<forall>n. (mset (snd (run (Suc n))), mset (snd (run n))) \<in> mult later" by (blast intro: step_descends)
  moreover have "wf (mult (later :: (('x, 'y) prog \<times> ('x, 'y) prog) set))" by (rule wf_mult [OF wf_later])
  ultimately show False by (auto simp: wf_iff_no_infinite_down_chain)
qed

lemma run_completes: "\<exists>t. prog_step\<^sup>*\<^sup>* s t \<and> all_returned t"
proof (induction "mset (snd s)" arbitrary: s rule: wf_induct_rule [OF wf_mult [OF wf_later]])
  case 1
  show ?case
  proof (cases "all_returned s")
    case False
    then obtain t where t: "prog_step s t" using step_unless_returned by blast
    from 1 [OF step_descends [OF t]] t show ?thesis by (meson converse_rtranclp_into_rtranclp)
  qed blast
qed

end
