(* ===== verification/Interleaving.thy ===== *)
theory Interleaving
  imports AlertsSpec Statements
begin

text \<open>
  The handlers of \<open>src/celine/grid/api/alerts.py\<close> statement by statement: each \<open>await db...\<close> is
  one statement of a program of \<open>Statements\<close>, and requests in flight interleave there. A commit
  writes the row that the handler selected earlier: an UPDATE sets the columns whose value
  differs from the selected one, and an UPDATE or a refresh of a row that is gone by then
  fails. Run alone, a program is the handler of \<open>AlertsApi\<close>.
\<close>

section \<open>Statements of the handlers\<close>

definition StaleDataError :: py_error where
  "StaleDataError = OtherError ''StaleDataError''"

definition InvalidRequestError :: py_error where
  "InvalidRequestError = OtherError ''InvalidRequestError''"

type_synonym handler_prog = "(db, failure + alerts_answer) prog"

text \<open>\<open>await db.refresh(rule)\<close> and \<open>await db.refresh(ns)\<close> read the row again by its primary key.\<close>

definition refresh_rule :: "nat \<Rightarrow> handler_prog" where
  "refresh_rule k =
     reads (\<lambda>d. lookup_row ar_id (db_rules d) k) (\<lambda>row. Return (case row of
       None \<Rightarrow> Inl (Crash InvalidRequestError)
     | Some r \<Rightarrow> crash (bindR (rule_response_of r) (\<lambda>x. Ok (OneRule x)))))"

definition refresh_settings :: "nat \<Rightarrow> handler_prog" where
  "refresh_settings k =
     reads (\<lambda>d. lookup_row ns_id (db_settings d) k) (\<lambda>row. Return (case row of
       None \<Rightarrow> Inl (Crash InvalidRequestError)
     | Some s \<Rightarrow> Inr (Settings (settings_response_of s))))"

text \<open>\<open>await db.commit()\<close> flushes the INSERT, UPDATE or DELETE of the session; the answer is the error, if any.\<close>

definition commit_new_rule ::
  "nat \<Rightarrow> string \<Rightarrow> string \<Rightarrow> rule_create \<Rightarrow> nat \<Rightarrow> db \<Rightarrow> unit res \<times> db" where
  "commit_new_rule fresh sub network_id b now d =
     (case insert_row ar_id check_rule (new_rule fresh now sub network_id b) (db_rules d) of
        Inl e \<Rightarrow> (Inl e, d)
      | Inr rows \<Rightarrow> (Inr (), d\<lparr>db_rules := rows\<rparr>))"

text \<open>The UPDATE statement sets the columns whose value differs from the one selected.\<close>

definition changed :: "'a field_update \<Rightarrow> 'a option \<Rightarrow> 'a field_update" where
  "changed f old = (if upd f old = old then Unset else f)"

definition changed_rule :: "rule_update \<Rightarrow> alert_rule \<Rightarrow> rule_update" where
  "changed_rule b snap =
     \<lparr>ru_risk_types = changed (ru_risk_types b) (ar_risk_types snap),
      ru_threshold = changed (ru_threshold b) (ar_threshold snap),
      ru_recipients = changed (ru_recipients b) (ar_recipients snap),
      ru_active = changed (ru_active b) (ar_active snap)\<rparr>"

definition changed_settings :: "settings_update \<Rightarrow> notification_settings \<Rightarrow> settings_update" where
  "changed_settings b snap =
     \<lparr>su_email_recipients = changed (su_email_recipients b) (ns_email_recipients snap),
      su_webhook_url = changed (su_webhook_url b) (ns_webhook_url snap)\<rparr>"

definition no_rule_update :: rule_update where
  "no_rule_update = \<lparr>ru_risk_types = Unset, ru_threshold = Unset, ru_recipients = Unset, ru_active = Unset\<rparr>"

definition commit_rule_update :: "rule_update \<Rightarrow> alert_rule \<Rightarrow> nat \<Rightarrow> db \<Rightarrow> unit res \<times> db" where
  "commit_rule_update b snap now d =
     (let c = changed_rule b snap in
      if c = no_rule_update then (Inr (), d)
      else case lookup_row ar_id (db_rules d) (ar_id snap) of
        None \<Rightarrow> (Inl StaleDataError, d)
      | Some cur \<Rightarrow>
          (case replace_row ar_id check_rule ((update_rule c cur)\<lparr>ar_updated_at := now\<rparr>) (db_rules d) of
             Inl e \<Rightarrow> (Inl e, d)
           | Inr rows \<Rightarrow> (Inr (), d\<lparr>db_rules := rows\<rparr>)))"

text \<open>A DELETE that finds no row is a warning only.\<close>

definition commit_rule_delete :: "nat \<Rightarrow> nat \<Rightarrow> db \<Rightarrow> unit \<times> db" where
  "commit_rule_delete k now d = ((), d\<lparr>db_rules := delete_row ar_id k (db_rules d)\<rparr>)"

definition commit_new_settings :: "settings_update \<Rightarrow> string \<Rightarrow> nat \<Rightarrow> db \<Rightarrow> nat res \<times> db" where
  "commit_new_settings b sub now d =
     (let s = update_settings b (new_settings now sub d) in
      case insert_settings s d of
        Inl e \<Rightarrow> (Inl e, d)
      | Inr d' \<Rightarrow> (Inr (ns_id s), d'))"

definition commit_settings_update ::
  "settings_update \<Rightarrow> notification_settings \<Rightarrow> nat \<Rightarrow> db \<Rightarrow> nat res \<times> db" where
  "commit_settings_update b snap now d =
     (let c = changed_settings b snap in
      if c = no_update then (Inr (ns_id snap), d)
      else case lookup_row ns_id (db_settings d) (ns_id snap) of
        None \<Rightarrow> (Inl StaleDataError, d)
      | Some cur \<Rightarrow>
          (case replace_row ns_user_id check_settings
              ((update_settings c cur)\<lparr>ns_updated_at := now\<rparr>) (db_settings d) of
             Inl e \<Rightarrow> (Inl e, d)
           | Inr rows \<Rightarrow> (Inr (ns_id snap), d\<lparr>db_settings := rows\<rparr>)))"

text \<open>The caller's row, or 404: the SELECT with which PATCH and DELETE begin.\<close>

definition with_own_rule :: "nat \<Rightarrow> jwt_user \<Rightarrow> (alert_rule \<Rightarrow> handler_prog) \<Rightarrow> handler_prog" where
  "with_own_rule k user f = reads (own_rule k user) (\<lambda>r. case r of
       Inl e \<Rightarrow> Return (Inl (Crash e))
     | Inr None \<Rightarrow> Return (Inl (HttpError 404 ''Alert rule not found''))
     | Inr (Some rule) \<Rightarrow> f rule)"

definition then_refresh :: "('b \<Rightarrow> handler_prog) \<Rightarrow> 'b res \<Rightarrow> handler_prog" where
  "then_refresh f r = (case r of Inl e \<Rightarrow> Return (Inl (Crash e)) | Inr x \<Rightarrow> f x)"

definition list_program :: "jwt_user \<Rightarrow> handler_prog" where
  "list_program user = reads (\<lambda>d. fst (list_alert_rules user d)) (\<lambda>r. Return (bindR r (\<lambda>rs. Ok (Rules rs))))"

definition create_program :: "nat \<Rightarrow> rule_create \<Rightarrow> jwt_user \<Rightarrow> handler_prog" where
  "create_program fresh b user =
     (case resolve_dso_network user of
        Inl f \<Rightarrow> Return (Inl f)
      | Inr network_id \<Rightarrow>
          writes (commit_new_rule fresh (ju_sub user) network_id b) (then_refresh (\<lambda>_. refresh_rule fresh)))"

definition update_program :: "nat \<Rightarrow> rule_update \<Rightarrow> jwt_user \<Rightarrow> handler_prog" where
  "update_program k b user = with_own_rule k user (\<lambda>rule.
     writes (commit_rule_update b rule) (then_refresh (\<lambda>_. refresh_rule (ar_id rule))))"

definition delete_program :: "nat \<Rightarrow> jwt_user \<Rightarrow> handler_prog" where
  "delete_program k user = with_own_rule k user (\<lambda>rule.
     writes (commit_rule_delete (ar_id rule)) (\<lambda>_. Return (Inr Deleted)))"

definition get_settings_program :: "jwt_user \<Rightarrow> handler_prog" where
  "get_settings_program user = reads (own_settings user) (\<lambda>r. case r of
       Inl e \<Rightarrow> Return (Inl (Crash e))
     | Inr (Some s) \<Rightarrow> Return (Inr (Settings (settings_response_of s)))
     | Inr None \<Rightarrow> writes (commit_new_settings no_update (ju_sub user)) (then_refresh refresh_settings))"

definition put_settings_program :: "settings_update \<Rightarrow> jwt_user \<Rightarrow> handler_prog" where
  "put_settings_program b user = reads (own_settings user) (\<lambda>r. case r of
       Inl e \<Rightarrow> Return (Inl (Crash e))
     | Inr (Some s) \<Rightarrow> writes (commit_settings_update b s) (then_refresh refresh_settings)
     | Inr None \<Rightarrow> writes (commit_new_settings b (ju_sub user)) (then_refresh refresh_settings))"

fun op_program :: "nat \<Rightarrow> jwt_user \<Rightarrow> alerts_op \<Rightarrow> handler_prog" where
  "op_program fresh user OpList = list_program user"
| "op_program fresh user (OpCreate b) = create_program fresh b user"
| "op_program fresh user (OpUpdate k b) = update_program k b user"
| "op_program fresh user (OpDelete k) = delete_program k user"
| "op_program fresh user OpGet = get_settings_program user"
| "op_program fresh user (OpPut b) = put_settings_program b user"

text \<open>A request is refused by its guard or its validation before any statement.\<close>

definition request_program :: "alerts_env \<Rightarrow> nat \<Rightarrow> request \<Rightarrow> alerts_call \<Rightarrow> handler_prog" where
  "request_program env fresh rq call =
     (if call_body call = BadJson then Return (Inl Unprocessable)
      else case bindR (call_guard env rq call) (\<lambda>user. bindR (parse_call env call) (\<lambda>op. Inr (user, op))) of
        Inl f \<Rightarrow> Return (Inl f)
      | Inr (user, op) \<Rightarrow> op_program fresh user op)"

section \<open>Alone\<close>

lemma upd_changed [simp]: "upd (changed f old) old = upd f old"
  by (simp add: changed_def upd_def)

lemma changed_Unset: "changed f old = Unset \<longleftrightarrow> upd f old = old"
  by (auto simp: changed_def upd_def split: field_update.splits)

lemma update_changed_rule: "update_rule (changed_rule b r) r = update_rule b r"
  by (simp add: update_rule_def changed_rule_def)

lemma changed_rule_none: "changed_rule b r = no_rule_update \<longleftrightarrow> update_rule b r = r"
  by (cases r) (simp add: changed_rule_def no_rule_update_def changed_Unset update_rule_def)

lemma update_changed_settings: "update_settings (changed_settings b s) s = update_settings b s"
  by (simp add: update_settings_def changed_settings_def)

lemma changed_settings_none: "changed_settings b s = no_update \<longleftrightarrow> update_settings b s = s"
  by (cases s) (simp add: changed_settings_def no_update_def changed_Unset update_settings_def)

lemma lookup_member:
  assumes "db_ok d" "r \<in> set (db_rules d)"
  shows "lookup_row ar_id (db_rules d) (ar_id r) = Some r"
  using lookup_row_distinct [OF db_ok_distinct(1) [OF assms(1)] assms(2)] .

lemma lookup_settings_id:
  assumes "db_ok d" "s \<in> set (db_settings d)"
  shows "lookup_row ns_id (db_settings d) (ns_id s) = Some s"
  by (rule lookup_row_distinct [OF _ assms(2)]) (use assms(1) in \<open>simp add: db_ok_def\<close>)

lemma row_checked: "db_ok d \<Longrightarrow> r \<in> set (db_rules d) \<Longrightarrow> check_rule r = None"
  by (simp add: db_ok_def table_ok_def)

lemma settings_checked: "db_ok d \<Longrightarrow> s \<in> set (db_settings d) \<Longrightarrow> check_settings s = None"
  by (simp add: db_ok_def table_ok_def)

lemma replace_same:
  assumes "distinct (map key rows)" "r \<in> set rows"
  shows "map (\<lambda>x. if key x = key r then r else x) rows = rows"
  by (rule map_idI) (use assms in \<open>auto simp: distinct_map inj_on_def\<close>)

text \<open>A commit on the row as it was selected is the handler's own write.\<close>

lemma commit_selected_rule:
  assumes "db_ok d" "rule \<in> set (db_rules d)"
  shows "commit_rule_update b rule now d =
    (case replace_row ar_id check_rule (touch_rule now rule (update_rule b rule)) (db_rules d) of
       Inl e \<Rightarrow> (Inl e, d)
     | Inr rows \<Rightarrow> (Inr (), d\<lparr>db_rules := rows\<rparr>))"
proof (cases "update_rule b rule = rule")
  case True
  then have "changed_rule b rule = no_rule_update" by (simp add: changed_rule_none)
  moreover have "replace_row ar_id check_rule rule (db_rules d) = Inr (db_rules d)"
    using row_checked [OF assms] replace_same [OF db_ok_distinct(1) [OF assms(1)] assms(2)] by (simp add: replace_row_Ok)
  ultimately show ?thesis using True by (simp add: commit_rule_update_def Let_def touch_rule_def)
next
  case False
  then have "changed_rule b rule \<noteq> no_rule_update" by (simp add: changed_rule_none)
  with False show ?thesis
    by (simp add: commit_rule_update_def Let_def touch_rule_def lookup_member [OF assms] update_changed_rule)
qed

lemma commit_selected_settings:
  assumes "db_ok d" "s \<in> set (db_settings d)"
  shows "commit_settings_update b s now d =
    (case replace_row ns_user_id check_settings (touch_settings now s (update_settings b s)) (db_settings d) of
       Inl e \<Rightarrow> (Inl e, d)
     | Inr rows \<Rightarrow> (Inr (ns_id s), d\<lparr>db_settings := rows\<rparr>))"
proof (cases "update_settings b s = s")
  case True
  then have "changed_settings b s = no_update" by (simp add: changed_settings_none)
  moreover have "replace_row ns_user_id check_settings s (db_settings d) = Inr (db_settings d)"
    using settings_checked [OF assms] replace_same [OF db_ok_distinct(2) [OF assms(1)] assms(2)] by (simp add: replace_row_Ok)
  ultimately show ?thesis using True by (simp add: commit_settings_update_def Let_def touch_settings_def)
next
  case False
  then have "changed_settings b s \<noteq> no_update" by (simp add: changed_settings_none)
  with False show ?thesis
    by (simp add: commit_settings_update_def Let_def touch_settings_def lookup_settings_id [OF assms] update_changed_settings)
qed

lemma crash_one: "crash (bindR r (\<lambda>x. Ok (OneRule x))) = bindR (crash r) (\<lambda>x. Ok (OneRule x))"
  by (cases r) auto

lemma mapO_bind: "mapO g (r, d) = (bindR r (\<lambda>x. Ok (g x)), d)"
  by (cases r) (auto simp: mapO_def)

lemma run_refresh_rule:
  assumes "db_ok d" "r \<in> set (db_rules d)" "ar_id r = k"
  shows "run_prog now (refresh_rule k) d = mapO OneRule (crash (rule_response_of r), d)"
  using lookup_member [OF assms(1,2)] assms(3) by (simp add: refresh_rule_def mapO_bind crash_one)

lemma run_refresh_settings:
  assumes "db_ok d" "s \<in> set (db_settings d)" "ns_id s = k"
  shows "run_prog now (refresh_settings k) d = (Inr (Settings (settings_response_of s)), d)"
  using lookup_settings_id [OF assms(1,2)] assms(3) by (simp add: refresh_settings_def)

lemma run_list: "run_prog now (list_program user) d = mapO Rules (list_alert_rules user d)"
  by (simp add: list_program_def list_alert_rules_def mapO_bind)

lemma run_create:
  assumes "db_ok d"
  shows "run_prog now (create_program fresh b user) d = mapO OneRule (create_alert_rule fresh now b user d)"
proof (cases "resolve_dso_network user")
  case (Inl f)
  then show ?thesis by (simp add: create_program_def create_alert_rule_def mapO_def)
next
  case (Inr n)
  let ?rule = "new_rule fresh now (ju_sub user) n b"
  show ?thesis
  proof (cases "insert_row ar_id check_rule ?rule (db_rules d)")
    case (Inl e)
    with Inr show ?thesis
      by (simp add: create_program_def create_alert_rule_def commit_new_rule_def then_refresh_def mapO_def Let_def)
  next
    case rows: (Inr rows)
    then have ok: "db_ok (d\<lparr>db_rules := rows\<rparr>)"
      by (intro db_ok_rules [OF assms] rules.insert_ok [OF db_ok_parts(1) [OF assms]])
    from rows have "?rule \<in> set (db_rules (d\<lparr>db_rules := rows\<rparr>))" by (simp add: insert_row_Ok)
    from run_refresh_rule [OF ok this, of fresh] Inr rows show ?thesis
      by (simp add: create_program_def create_alert_rule_def commit_new_rule_def then_refresh_def Let_def)
        (simp add: new_rule_def)
  qed
qed

lemma run_with_own_rule:
  assumes "db_ok d"
  shows "run_prog now (with_own_rule k user f) d =
    (case find (\<lambda>r. ar_id r = k) (uv_rules (view_of d (ju_sub user))) of
       None \<Rightarrow> (Inl (HttpError 404 ''Alert rule not found''), d)
     | Some rule \<Rightarrow> run_prog now (f rule) d)"
  by (simp add: with_own_rule_def own_rule_view [OF assms] split: option.splits)

lemma run_update:
  assumes "db_ok d"
  shows "run_prog now (update_program k b user) d = mapO OneRule (update_alert_rule now k b user d)"
proof (cases "find (\<lambda>r. ar_id r = k) (uv_rules (view_of d (ju_sub user)))")
  case None
  then show ?thesis
    by (simp add: update_program_def run_with_own_rule [OF assms] update_alert_rule_def own_rule_view [OF assms] mapO_def)
next
  case (Some rule)
  then have own: "own_rule k user d = Inr (Some rule)" by (simp add: own_rule_view [OF assms])
  note mem = own_rule_Some [OF assms own]
  then have rule: "rule \<in> set (db_rules d)" by simp
  let ?rule = "touch_rule now rule (update_rule b rule)"
  show ?thesis
  proof (cases "replace_row ar_id check_rule ?rule (db_rules d)")
    case (Inl e)
    with Some own show ?thesis
      by (simp add: update_program_def run_with_own_rule [OF assms] update_alert_rule_def commit_selected_rule [OF assms rule]
          then_refresh_def mapO_def Let_def)
  next
    case (Inr rows)
    then have ok: "db_ok (d\<lparr>db_rules := rows\<rparr>)"
      by (intro db_ok_rules [OF assms] rules.replace_ok [OF db_ok_parts(1) [OF assms]])
    have "?rule \<in> set (db_rules (d\<lparr>db_rules := rows\<rparr>))"
      using Inr rule by (force simp: replace_row_Ok)
    from run_refresh_rule [OF ok this, of "ar_id rule"] Some own Inr show ?thesis
      by (simp add: update_program_def run_with_own_rule [OF assms] update_alert_rule_def commit_selected_rule [OF assms rule]
          then_refresh_def Let_def)
  qed
qed

lemma run_delete:
  assumes "db_ok d"
  shows "run_prog now (delete_program k user) d = mapO (\<lambda>_. Deleted) (delete_alert_rule k user d)"
  by (simp add: delete_program_def run_with_own_rule [OF assms] delete_alert_rule_def own_rule_view [OF assms]
      commit_rule_delete_def mapO_def split: option.splits)

lemma run_new_settings:
  assumes "db_ok d" "s = update_settings b (new_settings now u d)"
  shows "run_prog now (writes (commit_new_settings b u) (then_refresh refresh_settings)) d =
    (case insert_settings s d of
       Inl e \<Rightarrow> (Inl (Crash e), d)
     | Inr d' \<Rightarrow> (Inr (Settings (settings_response_of s)), d'))"
proof (cases "insert_settings s d")
  case (Inl e)
  then show ?thesis by (simp add: commit_new_settings_def then_refresh_def Let_def assms(2))
next
  case (Inr d')
  have ok: "db_ok d'" by (rule db_ok_insert_settings [OF assms(1) Inr]) (simp add: assms(2))
  from Inr have "s \<in> set (db_settings d')" by (simp add: insert_settings_Inr)
  from run_refresh_settings [OF ok this refl] Inr show ?thesis
    by (simp add: commit_new_settings_def then_refresh_def Let_def assms(2))
qed

lemma run_get_settings:
  assumes "db_ok d"
  shows "run_prog now (get_settings_program user) d = mapO Settings (get_notification_settings now user d)"
  by (simp add: get_settings_program_def get_notification_settings_def own_settings_view [OF assms]
      run_new_settings [OF assms refl] update_settings_none mapO_def Let_def del: run_writes
      split: option.splits sum.splits)

lemma run_put_settings:
  assumes "db_ok d"
  shows "run_prog now (put_settings_program b user) d = mapO Settings (update_notification_settings now b user d)"
proof (cases "lookup_row ns_user_id (db_settings d) (ju_sub user)")
  case None
  then show ?thesis
    by (simp add: put_settings_program_def update_notification_settings_def own_settings_view [OF assms]
        run_new_settings [OF assms refl] mapO_def Let_def del: run_writes split: sum.splits)
next
  case (Some s)
  then have s: "s \<in> set (db_settings d)" by (auto dest: lookup_row_Some)
  let ?s = "touch_settings now s (update_settings b s)"
  let ?rows = "map (\<lambda>x. if ns_user_id x = ns_user_id ?s then ?s else x) (db_settings d)"
  have rep: "replace_row ns_user_id check_settings ?s (db_settings d) = Inr ?rows"
    using settings_checked [OF assms s] by (simp add: replace_row_Ok check_settings_def)
  have look: "lookup_row ns_user_id (db_settings d) (ns_user_id ?s) = Some s"
    using Some own_settings_short [OF assms Some] by simp
  have ok: "db_ok (d\<lparr>db_settings := ?rows\<rparr>)"
    by (rule db_ok_replace_settings [OF assms rep look]) simp
  have "?s \<in> set (db_settings (d\<lparr>db_settings := ?rows\<rparr>))" using s by force
  from run_refresh_settings [OF ok this, of "ns_id s"] Some rep show ?thesis
    by (simp add: put_settings_program_def update_notification_settings_def own_settings_view [OF assms]
        commit_selected_settings [OF assms s] then_refresh_def mapO_def Let_def)
qed

lemma run_op_program:
  assumes "db_ok d"
  shows "run_prog now (op_program fresh user op) d = run_op fresh now user op d"
  by (cases op) (simp_all add: run_list run_create run_update run_delete run_get_settings run_put_settings assms)


section \<open>Rely and guarantee of a user\<close>

text \<open>
  \<open>own\<close> says whose a rule id is: every id is drawn by \<open>uuid4\<close> for one rule, so it is one user's
  for good. A statement of user \<open>u\<close> keeps the tables well formed, the rules their owners' and
  every settings row, and leaves the view of every other user alone.
\<close>

definition owned :: "(nat \<Rightarrow> string) \<Rightarrow> db \<Rightarrow> bool" where
  "owned own d \<longleftrightarrow> (\<forall>r \<in> set (db_rules d). ar_user_id r = own (ar_id r))"

definition sane :: "(nat \<Rightarrow> string) \<Rightarrow> db \<Rightarrow> bool" where
  "sane own d \<longleftrightarrow> db_ok d \<and> owned own d"

definition keeps_settings :: "db \<Rightarrow> db \<Rightarrow> bool" where
  "keeps_settings d d' \<longleftrightarrow> (\<forall>s \<in> set (db_settings d). \<exists>s' \<in> set (db_settings d').
     ns_id s' = ns_id s \<and> ns_user_id s' = ns_user_id s)"

definition anyone :: "(nat \<Rightarrow> string) \<Rightarrow> db \<Rightarrow> db \<Rightarrow> bool" where
  "anyone own d d' \<longleftrightarrow> (sane own d \<longrightarrow> sane own d' \<and> keeps_settings d d')"

definition others :: "(nat \<Rightarrow> string) \<Rightarrow> string \<Rightarrow> db \<Rightarrow> db \<Rightarrow> bool" where
  "others own u d d' \<longleftrightarrow> anyone own d d' \<and> (sane own d \<longrightarrow> view_of d' u = view_of d u)"

definition stays :: "(nat \<Rightarrow> string) \<Rightarrow> string \<Rightarrow> db \<Rightarrow> db \<Rightarrow> bool" where
  "stays own u d d' \<longleftrightarrow> sane own d' \<and> keeps_settings d d' \<and> (\<forall>v. v \<noteq> u \<longrightarrow> view_of d' v = view_of d v)"

definition only :: "(nat \<Rightarrow> string) \<Rightarrow> string \<Rightarrow> db \<Rightarrow> db \<Rightarrow> bool" where
  "only own u d d' \<longleftrightarrow> (sane own d \<longrightarrow> stays own u d d')"

lemma keeps_settings_refl [simp]: "keeps_settings d d"
  by (auto simp: keeps_settings_def)

lemma keeps_settings_trans: "keeps_settings d d' \<Longrightarrow> keeps_settings d' d'' \<Longrightarrow> keeps_settings d d''"
  unfolding keeps_settings_def by metis

lemma keeps_settings_rules [simp]: "keeps_settings d (d\<lparr>db_rules := rs\<rparr>)"
  by (auto simp: keeps_settings_def)

lemma stays_refl: "sane own d \<Longrightarrow> stays own u d d"
  by (simp add: stays_def)

lemma stays_rules:
  assumes "db_ok (d\<lparr>db_rules := rs\<rparr>)" "\<And>r. r \<in> set rs \<Longrightarrow> ar_user_id r = own (ar_id r)"
    and "\<And>v. v \<noteq> u \<Longrightarrow> view_of (d\<lparr>db_rules := rs\<rparr>) v = view_of d v"
  shows "stays own u d (d\<lparr>db_rules := rs\<rparr>)"
  using assms by (simp add: stays_def sane_def owned_def)

text \<open>Whatever the request selected earlier, its commit stays with its user.\<close>

lemma new_rule_stays:
  assumes "sane own d" "own fresh = u" "commit_new_rule fresh u n b now d = (x, d')"
  shows "stays own u d d' \<and> (\<forall>e. x = Inl e \<longrightarrow> e \<in> {IntegrityError, DataError})"
proof (cases "insert_row ar_id check_rule (new_rule fresh now u n b) (db_rules d)")
  case (Inl e)
  then have "e \<in> {IntegrityError, DataError}"
    by (auto simp: insert_row_def check_rule_def split: if_splits option.splits)
  with Inl assms show ?thesis by (auto simp: commit_new_rule_def stays_refl)
next
  case (Inr rows)
  let ?rule = "new_rule fresh now u n b"
  from Inr have rows: "rows = db_rules d @ [?rule]" by (simp add: insert_row_Ok)
  have "stays own u d (d\<lparr>db_rules := rows\<rparr>)"
  proof (rule stays_rules)
    show "db_ok (d\<lparr>db_rules := rows\<rparr>)"
      using assms(1) Inr by (auto simp: sane_def intro: db_ok_rules rules.insert_ok db_ok_parts)
    show "ar_user_id r = own (ar_id r)" if "r \<in> set rows" for r
      using that assms(1,2) by (auto simp: rows sane_def owned_def new_rule_def)
    show "view_of (d\<lparr>db_rules := rows\<rparr>) v = view_of d v" if "v \<noteq> u" for v
      unfolding rows view_insert_rule using that by (simp add: new_rule_def)
  qed
  with Inr assms(3) show ?thesis by (auto simp: commit_new_rule_def)
qed

lemma rule_update_stays:
  assumes "sane own d" "own (ar_id snap) = u" "commit_rule_update b snap now d = (x, d')"
  shows "stays own u d d' \<and> (\<forall>e. x = Inl e \<longrightarrow> e \<in> {IntegrityError, DataError, StaleDataError})"
proof (cases "changed_rule b snap = no_rule_update \<or> lookup_row ar_id (db_rules d) (ar_id snap) = None")
  case True
  with assms show ?thesis
    by (auto simp: commit_rule_update_def Let_def stays_refl split: if_splits)
next
  case False
  then obtain cur where cur: "lookup_row ar_id (db_rules d) (ar_id snap) = Some cur" by auto
  from lookup_row_Some [OF cur] have mem: "cur \<in> set (db_rules d)" "ar_id cur = ar_id snap" by simp_all
  have u: "ar_user_id cur = u" using assms(1,2) mem by (auto simp: sane_def owned_def)
  let ?rule = "(update_rule (changed_rule b snap) cur)\<lparr>ar_updated_at := now\<rparr>"
  have key: "ar_id ?rule = ar_id cur" "ar_user_id ?rule = ar_user_id cur" by (simp_all add: update_rule_def)
  show ?thesis
  proof (cases "replace_row ar_id check_rule ?rule (db_rules d)")
    case (Inl e)
    then have "e \<in> {IntegrityError, DataError}"
      by (auto simp: replace_row_def check_rule_def split: if_splits option.splits)
    with Inl False cur assms show ?thesis by (auto simp: commit_rule_update_def Let_def stays_refl)
  next
    case (Inr rows)
    then have rows: "rows = map (\<lambda>x. if ar_id x = ar_id ?rule then ?rule else x) (db_rules d)"
      by (simp add: replace_row_Ok)
    have ok: "db_ok d" using assms(1) by (simp add: sane_def)
    have "stays own u d (d\<lparr>db_rules := rows\<rparr>)"
    proof (rule stays_rules)
      show "db_ok (d\<lparr>db_rules := rows\<rparr>)"
        using ok Inr by (auto intro: db_ok_rules rules.replace_ok db_ok_parts)
      show "ar_user_id r = own (ar_id r)" if "r \<in> set rows" for r
      proof -
        from that have "r = ?rule \<or> r \<in> set (db_rules d)" by (auto simp: rows)
        with assms(1) mem(1) key show ?thesis by (auto simp: sane_def owned_def)
      qed
      show "view_of (d\<lparr>db_rules := rows\<rparr>) v = view_of d v" if "v \<noteq> u" for v
        unfolding rows view_replace_rule [OF ok mem(1) key] using that key u by simp
    qed
    with Inr False cur assms(3) show ?thesis by (auto simp: commit_rule_update_def Let_def)
  qed
qed

lemma rule_delete_stays:
  assumes "sane own d" "own k = u" "commit_rule_delete k now d = (x, d')"
  shows "stays own u d d'"
proof -
  have d': "d' = d\<lparr>db_rules := delete_row ar_id k (db_rules d)\<rparr>" using assms(3) by (simp add: commit_rule_delete_def)
  have ok: "db_ok d" using assms(1) by (simp add: sane_def)
  have gone: "filter (\<lambda>r. ar_user_id r = v) (delete_row ar_id k (db_rules d)) = filter (\<lambda>r. ar_user_id r = v) (db_rules d)"
    if "v \<noteq> u" for v
  proof -
    have "(ar_id r \<noteq> k \<and> ar_user_id r = v) = (ar_user_id r = v)" if "r \<in> set (db_rules d)" for r
      using assms(1,2) that \<open>v \<noteq> u\<close> by (auto simp: sane_def owned_def)
    then show ?thesis by (simp add: delete_row_def cong: filter_cong)
  qed
  show ?thesis unfolding d'
  proof (rule stays_rules)
    show "db_ok (d\<lparr>db_rules := delete_row ar_id k (db_rules d)\<rparr>)"
      by (rule db_ok_rules [OF ok rules.delete_ok [OF db_ok_parts(1) [OF ok]]])
    show "ar_user_id r = own (ar_id r)" if "r \<in> set (delete_row ar_id k (db_rules d))" for r
      using that assms(1) by (simp add: delete_row_def sane_def owned_def)
    show "view_of (d\<lparr>db_rules := delete_row ar_id k (db_rules d)\<rparr>) v = view_of d v" if "v \<noteq> u" for v
      using gone [OF that] by (simp add: view_of_def)
  qed
qed

definition has_settings :: "db \<Rightarrow> nat \<Rightarrow> string \<Rightarrow> bool" where
  "has_settings d k u \<longleftrightarrow> (\<exists>s \<in> set (db_settings d). ns_id s = k \<and> ns_user_id s = u)"

lemma has_settings_keeps: "has_settings d k u \<Longrightarrow> keeps_settings d d' \<Longrightarrow> has_settings d' k u"
  unfolding has_settings_def keeps_settings_def by metis

lemma has_settings_lookup:
  assumes "db_ok d" "has_settings d k u"
  obtains s where "lookup_row ns_id (db_settings d) k = Some s" "s \<in> set (db_settings d)" "ns_id s = k" "ns_user_id s = u"
  using assms lookup_settings_id by (auto simp: has_settings_def)

lemma new_settings_stays:
  assumes "sane own d" "commit_new_settings b u now d = (x, d')"
  shows "stays own u d d' \<and> (\<forall>e. x = Inl e \<longrightarrow> e \<in> {IntegrityError, DataError}) \<and> (\<forall>k. x = Inr k \<longrightarrow> has_settings d' k u)"
proof (cases "insert_settings (update_settings b (new_settings now u d)) d")
  case (Inl e)
  then have "e \<in> {IntegrityError, DataError}"
    by (auto simp: insert_settings_Inl insert_row_def check_settings_def split: if_splits option.splits)
  with Inl assms show ?thesis by (auto simp: commit_new_settings_def Let_def stays_refl)
next
  case (Inr d1)
  let ?s = "update_settings b (new_settings now u d)"
  from Inr have none: "lookup_row ns_user_id (db_settings d) (ns_user_id ?s) = None"
    and d1: "d1 = d\<lparr>db_settings := db_settings d @ [?s], db_next_settings_id := db_next_settings_id d + 1\<rparr>"
    by (simp_all add: insert_settings_Inr)
  have "db_ok d1" using assms(1) by (intro db_ok_insert_settings [OF _ Inr]) (simp_all add: sane_def)
  then have "stays own u d d1"
    using assms(1) view_insert_settings [OF none]
    by (auto simp: stays_def sane_def owned_def keeps_settings_def d1)
  moreover have "has_settings d1 (ns_id ?s) u" by (auto simp: has_settings_def d1)
  ultimately show ?thesis using Inr assms(2) by (auto simp: commit_new_settings_def Let_def)
qed

lemma settings_update_stays:
  assumes "sane own d" "has_settings d (ns_id snap) u" "commit_settings_update b snap now d = (x, d')"
  shows "stays own u d d' \<and> x = Inr (ns_id snap)"
proof (cases "changed_settings b snap = no_update")
  case True
  with assms show ?thesis by (auto simp: commit_settings_update_def stays_refl)
next
  case False
  have ok: "db_ok d" using assms(1) by (simp add: sane_def)
  from has_settings_lookup [OF ok assms(2)] obtain cur where cur: "lookup_row ns_id (db_settings d) (ns_id snap) = Some cur"
    "cur \<in> set (db_settings d)" "ns_id cur = ns_id snap" "ns_user_id cur = u" .
  let ?s = "(update_settings (changed_settings b snap) cur)\<lparr>ns_updated_at := now\<rparr>"
  let ?rows = "map (\<lambda>x. if ns_user_id x = ns_user_id ?s then ?s else x) (db_settings d)"
  have key: "ns_user_id ?s = u" "ns_id ?s = ns_id cur" using cur by (simp_all add: update_settings_def)
  have look: "lookup_row ns_user_id (db_settings d) (ns_user_id ?s) = Some cur"
    using lookup_row_distinct [OF db_ok_distinct(2) [OF ok] cur(2)] cur(4) key by simp
  have rep: "replace_row ns_user_id check_settings ?s (db_settings d) = Inr ?rows"
    using settings_checked [OF ok cur(2)] cur(4) key by (simp add: replace_row_Ok check_settings_def)
  have same: "x = cur" if "x \<in> set (db_settings d)" "ns_user_id x = u" for x
    using that cur db_ok_distinct(2) [OF ok] by (simp add: distinct_map inj_on_def)
  have "db_ok (d\<lparr>db_settings := ?rows\<rparr>)" by (rule db_ok_replace_settings [OF ok rep look key(2)])
  moreover have "keeps_settings d (d\<lparr>db_settings := ?rows\<rparr>)"
    unfolding keeps_settings_def
  proof
    fix t assume t: "t \<in> set (db_settings d)"
    let ?t = "if ns_user_id t = ns_user_id ?s then ?s else t"
    have "ns_id ?t = ns_id t \<and> ns_user_id ?t = ns_user_id t" using same [OF t] key by (cases "ns_user_id t = u") auto
    with t show "\<exists>t' \<in> set (db_settings (d\<lparr>db_settings := ?rows\<rparr>)). ns_id t' = ns_id t \<and> ns_user_id t' = ns_user_id t"
      by (intro bexI [of _ ?t]) auto
  qed
  moreover have "view_of (d\<lparr>db_settings := ?rows\<rparr>) v = view_of d v" if "v \<noteq> u" for v
    using view_replace_settings [of d ?s v] look key that by simp
  ultimately have "stays own u d (d\<lparr>db_settings := ?rows\<rparr>)"
    using assms(1) by (simp add: stays_def sane_def owned_def)
  with False cur rep assms(3) show ?thesis by (auto simp: commit_settings_update_def Let_def)
qed


section \<open>What a request may answer\<close>

fun answer_for :: "string \<Rightarrow> alerts_answer \<Rightarrow> bool" where
  "answer_for u (Rules rs) \<longleftrightarrow> (\<forall>r \<in> set rs. rr_user_id r = u)"
| "answer_for u (OneRule r) \<longleftrightarrow> rr_user_id r = u"
| "answer_for u Deleted \<longleftrightarrow> True"
| "answer_for u (Settings s) \<longleftrightarrow> sr_user_id s = u"

fun may_fail :: "alerts_op \<Rightarrow> py_error \<Rightarrow> bool" where
  "may_fail OpList e \<longleftrightarrow> e = ResponseValidationError"
| "may_fail (OpCreate b) e \<longleftrightarrow> e \<in> {IntegrityError, DataError, InvalidRequestError, ResponseValidationError}"
| "may_fail (OpUpdate k b) e \<longleftrightarrow>
     e \<in> {IntegrityError, DataError, StaleDataError, InvalidRequestError, ResponseValidationError}"
| "may_fail (OpDelete k) e \<longleftrightarrow> False"
| "may_fail OpGet e \<longleftrightarrow> e \<in> {IntegrityError, DataError}"
| "may_fail (OpPut b) e \<longleftrightarrow> e \<in> {IntegrityError, DataError}"

fun answer_ok :: "string \<Rightarrow> alerts_op \<Rightarrow> failure + alerts_answer \<Rightarrow> bool" where
  "answer_ok u op (Inr x) \<longleftrightarrow> answer_for u x"
| "answer_ok u op (Inl (Crash e)) \<longleftrightarrow> may_fail op e"
| "answer_ok u op (Inl (HttpError s x)) \<longleftrightarrow> s = 403 \<or> s = 404"
| "answer_ok u op (Inl Unprocessable) \<longleftrightarrow> False"

definition good :: "(nat \<Rightarrow> string) \<Rightarrow> string \<Rightarrow> alerts_op \<Rightarrow> failure + alerts_answer \<Rightarrow> db \<Rightarrow> bool" where
  "good own u op a d \<longleftrightarrow> sane own d \<and> answer_ok u op a"

definition safe :: "(nat \<Rightarrow> string) \<Rightarrow> string \<Rightarrow> alerts_op \<Rightarrow> handler_prog \<Rightarrow> db \<Rightarrow> bool" where
  "safe own u op = ensures (anyone own) (only own u) (good own u op)"

lemma safe_return: "sane own d \<Longrightarrow> answer_ok u op a \<Longrightarrow> safe own u op (Return a) d"
  by (simp add: safe_def good_def anyone_def)

lemma safe_reads:
  assumes "sane own d" "\<And>d'. sane own d' \<Longrightarrow> keeps_settings d d' \<Longrightarrow> safe own u op (k (f d')) d'"
  shows "safe own u op (reads f k) d"
  unfolding safe_def
  by (rule ensures_reads) (use assms in \<open>auto simp: safe_def anyone_def only_def stays_refl\<close>)

lemma safe_writes:
  assumes "sane own d"
    and "\<And>d' now x d''. sane own d' \<Longrightarrow> keeps_settings d d' \<Longrightarrow> f now d' = (x, d'') \<Longrightarrow>
      stays own u d' d'' \<and> safe own u op (k x) d''"
  shows "safe own u op (writes f k) d"
  unfolding safe_def
  by (rule ensures_writes) (use assms in \<open>auto simp: safe_def anyone_def only_def\<close>)

lemma staysD: "stays own u d d' \<Longrightarrow> sane own d'"
  by (simp add: stays_def)

lemma rule_response_user: "rule_response_of r = Inr x \<Longrightarrow> rr_user_id x = ar_user_id r"
  by (auto simp: rule_response_of_def split: option.splits)

lemma rule_response_error: "rule_response_of r = Inl e \<Longrightarrow> e = ResponseValidationError"
  by (auto simp: rule_response_of_def split: option.splits)

lemma safe_refresh_rule:
  assumes "sane own d" "own k = u" "may_fail op InvalidRequestError" "may_fail op ResponseValidationError"
  shows "safe own u op (refresh_rule k) d"
  unfolding refresh_rule_def
proof (rule safe_reads [OF assms(1)], rule safe_return)
  fix d' assume d': "sane own d'"
  show "answer_ok u op (case lookup_row ar_id (db_rules d') k of
      None \<Rightarrow> Inl (Crash InvalidRequestError)
    | Some r \<Rightarrow> crash (bindR (rule_response_of r) (\<lambda>x. Ok (OneRule x))))"
  proof (cases "lookup_row ar_id (db_rules d') k")
    case (Some r)
    with d' assms(2) have "ar_user_id r = u" by (auto simp: sane_def owned_def dest: lookup_row_Some)
    with Some assms(4) rule_response_user [of r] rule_response_error [of r] show ?thesis
      by (cases "rule_response_of r") auto
  qed (simp add: assms(3))
qed

lemma safe_refresh_settings:
  assumes "sane own d" "has_settings d k u"
  shows "safe own u op (refresh_settings k) d"
  unfolding refresh_settings_def
proof (rule safe_reads [OF assms(1)], rule safe_return)
  fix d' assume d': "sane own d'" "keeps_settings d d'"
  then have "db_ok d'" "has_settings d' k u" using assms(2) by (auto simp: sane_def intro: has_settings_keeps)
  then show "answer_ok u op (case lookup_row ns_id (db_settings d') k of
      None \<Rightarrow> Inl (Crash InvalidRequestError)
    | Some s \<Rightarrow> Inr (Settings (settings_response_of s)))"
    by (rule has_settings_lookup) (simp add: settings_response_of_def)
qed

lemma safe_list: "sane own d \<Longrightarrow> safe own (ju_sub user) OpList (list_program user) d"
  unfolding list_program_def
proof (rule safe_reads, assumption, rule safe_return)
  fix d' assume "sane own d'"
  show "answer_ok (ju_sub user) OpList (bindR (fst (list_alert_rules user d')) (\<lambda>rs. Ok (Rules rs)))"
  proof (cases "fst (list_alert_rules user d')")
    case (Inl f)
    then have "f = Crash ResponseValidationError"
      by (auto simp: list_alert_rules_def crash_Inl_iff dest!: mapR_RaiseD rule_response_error)
    with Inl show ?thesis by simp
  next
    case (Inr rs)
    then have "mapR rule_response_of (sort_key ar_created_at (filter (\<lambda>r. ar_user_id r = ju_sub user) (db_rules d'))) = Inr rs"
      by (simp add: list_alert_rules_def crash_Inr_iff)
    with Inr show ?thesis by (auto dest!: mapR_set rule_response_user)
  qed
qed

lemma safe_create:
  assumes "sane own d" "own fresh = ju_sub user"
  shows "safe own (ju_sub user) (OpCreate b) (create_program fresh b user) d"
proof (cases "resolve_dso_network user")
  case (Inl f)
  with assms show ?thesis
    by (auto simp: create_program_def resolve_dso_network_def Let_def intro!: safe_return split: if_splits)
next
  case (Inr n)
  let ?c = "commit_new_rule fresh (ju_sub user) n b"
  have "stays own (ju_sub user) d' d'' \<and>
      safe own (ju_sub user) (OpCreate b) (then_refresh (\<lambda>_. refresh_rule fresh) x) d''"
    if "sane own d'" "?c now d' = (x, d'')" for d' now x d''
  proof -
    note s = new_rule_stays [OF that(1) assms(2) that(2)]
    then have "sane own d''" by (auto dest: staysD)
    then show ?thesis
      using s assms(2) by (cases x) (auto simp: then_refresh_def intro!: safe_return safe_refresh_rule)
  qed
  with Inr assms(1) show ?thesis by (auto simp: create_program_def intro!: safe_writes)
qed

lemma safe_with_own_rule:
  assumes "sane own d"
    and "\<And>d' rule. sane own d' \<Longrightarrow> own (ar_id rule) = ju_sub user \<Longrightarrow> safe own (ju_sub user) op (f rule) d'"
  shows "safe own (ju_sub user) op (with_own_rule k user f) d"
  unfolding with_own_rule_def
proof (rule safe_reads [OF assms(1)])
  fix d' assume d': "sane own d'"
  then have ok: "db_ok d'" by (simp add: sane_def)
  show "safe own (ju_sub user) op (case own_rule k user d' of
      Inl e \<Rightarrow> Return (Inl (Crash e))
    | Inr None \<Rightarrow> Return (Inl (HttpError 404 ''Alert rule not found''))
    | Inr (Some rule) \<Rightarrow> f rule) d'"
  proof (cases "find (\<lambda>r. ar_id r = k) (uv_rules (view_of d' (ju_sub user)))")
    case None
    with d' show ?thesis by (simp add: own_rule_view [OF ok] safe_return)
  next
    case (Some rule)
    then have own: "own_rule k user d' = Inr (Some rule)" by (simp add: own_rule_view [OF ok])
    with own_rule_Some [OF ok own] d' have "own (ar_id rule) = ju_sub user" by (auto simp: sane_def owned_def)
    with own d' assms(2) show ?thesis by simp
  qed
qed

lemma safe_update:
  assumes "sane own d"
  shows "safe own (ju_sub user) (OpUpdate k b) (update_program k b user) d"
  unfolding update_program_def
proof (rule safe_with_own_rule [OF assms])
  fix d and rule :: alert_rule assume d: "sane own d" and own: "own (ar_id rule) = ju_sub user"
  show "safe own (ju_sub user) (OpUpdate k b)
      (writes (commit_rule_update b rule) (then_refresh (\<lambda>_. refresh_rule (ar_id rule)))) d"
  proof (rule safe_writes [OF d])
    fix d' now x d'' assume d': "sane own d'" and c: "commit_rule_update b rule now d' = (x, d'')"
    note s = rule_update_stays [OF d' own c]
    then have "sane own d''" by (auto dest: staysD)
    then show "stays own (ju_sub user) d' d'' \<and>
        safe own (ju_sub user) (OpUpdate k b) (then_refresh (\<lambda>_. refresh_rule (ar_id rule)) x) d''"
      using s own by (cases x) (auto simp: then_refresh_def intro!: safe_return safe_refresh_rule)
  qed
qed

lemma safe_delete:
  assumes "sane own d"
  shows "safe own (ju_sub user) (OpDelete k) (delete_program k user) d"
  unfolding delete_program_def
proof (rule safe_with_own_rule [OF assms])
  fix d and rule :: alert_rule assume d: "sane own d" and own: "own (ar_id rule) = ju_sub user"
  show "safe own (ju_sub user) (OpDelete k) (writes (commit_rule_delete (ar_id rule)) (\<lambda>_. Return (Inr Deleted))) d"
  proof (rule safe_writes [OF d])
    fix d' now x d'' assume d': "sane own d'" and c: "commit_rule_delete (ar_id rule) now d' = (x, d'')"
    note s = rule_delete_stays [OF d' own c]
    then show "stays own (ju_sub user) d' d'' \<and> safe own (ju_sub user) (OpDelete k) (Return (Inr Deleted)) d''"
      by (auto intro!: safe_return dest: staysD)
  qed
qed

lemma safe_new_settings:
  assumes "sane own d" "may_fail op IntegrityError" "may_fail op DataError"
  shows "safe own u op (writes (commit_new_settings b u) (then_refresh refresh_settings)) d"
proof (rule safe_writes [OF assms(1)])
  fix d' now x d'' assume d': "sane own d'" and c: "commit_new_settings b u now d' = (x, d'')"
  note s = new_settings_stays [OF d' c]
  then have "sane own d''" by (auto dest: staysD)
  then show "stays own u d' d'' \<and> safe own u op (then_refresh refresh_settings x) d''"
    using s assms(2,3) by (cases x) (auto simp: then_refresh_def intro!: safe_return safe_refresh_settings)
qed

lemma safe_own_settings:
  assumes "sane own d" "may_fail op IntegrityError" "may_fail op DataError"
    and "\<And>d' s. sane own d' \<Longrightarrow> has_settings d' (ns_id s) (ju_sub user) \<Longrightarrow> ns_user_id s = ju_sub user \<Longrightarrow>
      safe own (ju_sub user) op (f s) d'"
  shows "safe own (ju_sub user) op (reads (own_settings user) (\<lambda>r. case r of
       Inl e \<Rightarrow> Return (Inl (Crash e))
     | Inr (Some s) \<Rightarrow> f s
     | Inr None \<Rightarrow> writes (commit_new_settings b (ju_sub user)) (then_refresh refresh_settings))) d"
proof (rule safe_reads [OF assms(1)])
  fix d' assume d': "sane own d'"
  then have ok: "db_ok d'" by (simp add: sane_def)
  show "safe own (ju_sub user) op (case own_settings user d' of
      Inl e \<Rightarrow> Return (Inl (Crash e))
    | Inr (Some s) \<Rightarrow> f s
    | Inr None \<Rightarrow> writes (commit_new_settings b (ju_sub user)) (then_refresh refresh_settings)) d'"
  proof (cases "lookup_row ns_user_id (db_settings d') (ju_sub user)")
    case None
    with d' show ?thesis by (simp add: own_settings_view [OF ok] safe_new_settings assms(2,3))
  next
    case (Some s)
    from lookup_row_Some [OF Some] have "has_settings d' (ns_id s) (ju_sub user)" "ns_user_id s = ju_sub user"
      by (auto simp: has_settings_def)
    with Some d' assms(4) show ?thesis by (simp add: own_settings_view [OF ok])
  qed
qed

lemma safe_get_settings:
  assumes "sane own d"
  shows "safe own (ju_sub user) OpGet (get_settings_program user) d"
  unfolding get_settings_program_def
  by (rule safe_own_settings [OF assms]) (auto intro!: safe_return simp: settings_response_of_def)

lemma safe_put_settings:
  assumes "sane own d"
  shows "safe own (ju_sub user) (OpPut b) (put_settings_program b user) d"
  unfolding put_settings_program_def
proof (rule safe_own_settings [OF assms])
  fix d and s :: notification_settings assume d: "sane own d" and s: "has_settings d (ns_id s) (ju_sub user)"
  show "safe own (ju_sub user) (OpPut b) (writes (commit_settings_update b s) (then_refresh refresh_settings)) d"
  proof (rule safe_writes [OF d])
    fix d' now x d''
    assume d': "sane own d'" "keeps_settings d d'" and c: "commit_settings_update b s now d' = (x, d'')"
    have h: "has_settings d' (ns_id s) (ju_sub user)" by (rule has_settings_keeps [OF s d'(2)])
    note st = settings_update_stays [OF d'(1) h c]
    then have "sane own d''" "has_settings d'' (ns_id s) (ju_sub user)"
      using h by (auto simp: stays_def intro: has_settings_keeps)
    then show "stays own (ju_sub user) d' d'' \<and> safe own (ju_sub user) (OpPut b) (then_refresh refresh_settings x) d''"
      using st by (auto simp: then_refresh_def intro!: safe_refresh_settings)
  qed
qed simp_all

lemma safe_op:
  assumes "sane own d" "\<And>b. op = OpCreate b \<Longrightarrow> own fresh = ju_sub user"
  shows "safe own (ju_sub user) op (op_program fresh user op) d"
  using assms by (cases op)
    (simp_all add: safe_list safe_create safe_update safe_delete safe_get_settings safe_put_settings)


section \<open>A user with one request in flight\<close>

text \<open>
  While the other users' statements leave the view of a user alone, a request of that user
  does to the view what the specification says, however its statements are spread.
\<close>

definition holds :: "(nat \<Rightarrow> string) \<Rightarrow> string \<Rightarrow> user_view \<Rightarrow> db \<Rightarrow> bool" where
  "holds own u v d \<longleftrightarrow> sane own d \<and> view_of d u = v"

definition as_specified ::
  "(nat \<Rightarrow> string) \<Rightarrow> nat \<Rightarrow> jwt_user \<Rightarrow> alerts_op \<Rightarrow> user_view \<Rightarrow> failure + alerts_answer \<Rightarrow> db \<Rightarrow> bool" where
  "as_specified own fresh user op v a d \<longleftrightarrow> (\<exists>now. spec_op fresh now (ju_sub user) (resolve_dso_network user) op v =
     (a, view_of d (ju_sub user)))"

definition exact ::
  "(nat \<Rightarrow> string) \<Rightarrow> nat \<Rightarrow> jwt_user \<Rightarrow> alerts_op \<Rightarrow> user_view \<Rightarrow> handler_prog \<Rightarrow> db \<Rightarrow> bool" where
  "exact own fresh user op v =
     ensures (others own (ju_sub user)) (\<lambda>_ _. True) (as_specified own fresh user op v)"

text \<open>The id drawn for a new rule is the user's own and not one of the rules there are.\<close>

definition fresh_for :: "(nat \<Rightarrow> string) \<Rightarrow> nat \<Rightarrow> string \<Rightarrow> alerts_op \<Rightarrow> user_view \<Rightarrow> bool" where
  "fresh_for own fresh u op v \<longleftrightarrow> (case op of OpCreate b \<Rightarrow> own fresh = u \<and> fresh \<notin> ar_id ` set (uv_rules v) | _ \<Rightarrow> True)"

lemma others_holds: "others own u d d' \<Longrightarrow> holds own u v d \<Longrightarrow> holds own u v d'"
  by (simp add: others_def anyone_def holds_def)

lemma others_keeps: "holds own u v d \<Longrightarrow> others own u d d' \<Longrightarrow> keeps_settings d d'"
  by (simp add: others_def anyone_def holds_def)

lemma exact_return:
  assumes "holds own (ju_sub user) v' d"
    and "spec_op fresh now (ju_sub user) (resolve_dso_network user) op v = (a, v')"
  shows "exact own fresh user op v (Return a) d"
  using assms by (auto simp: exact_def as_specified_def holds_def dest!: others_holds [OF _ assms(1)])

lemma exact_reads:
  assumes "holds own (ju_sub user) v' d"
    and "\<And>d'. holds own (ju_sub user) v' d' \<Longrightarrow> keeps_settings d d' \<Longrightarrow> exact own fresh user op v (k (f d')) d'"
  shows "exact own fresh user op v (reads f k) d"
  unfolding exact_def
  by (rule ensures_reads) (use assms(2) others_holds [OF _ assms(1)] others_keeps [OF assms(1)] in \<open>auto simp: exact_def\<close>)

lemma exact_writes:
  assumes "holds own (ju_sub user) v' d"
    and "\<And>d' now x d''. holds own (ju_sub user) v' d' \<Longrightarrow> keeps_settings d d' \<Longrightarrow> f now d' = (x, d'') \<Longrightarrow>
      exact own fresh user op v (k x) d''"
  shows "exact own fresh user op v (writes f k) d"
  unfolding exact_def
proof (rule ensures_writes)
  fix d' now x d'' assume o: "others own (ju_sub user) d d'" and f: "f now d' = (x, d'')"
  from assms(2) [OF others_holds [OF o assms(1)] others_keeps [OF assms(1) o] f]
  show "True \<and> ensures (others own (ju_sub user)) (\<lambda>_ _. True) (as_specified own fresh user op v) (k x) d''"
    by (simp add: exact_def)
qed

lemma op_refines_fresh:
  assumes "db_ok d" "\<And>b. op = OpCreate b \<Longrightarrow> fresh \<notin> ar_id ` set (db_rules d)" "run_op fresh now user op d = (r, d')"
  shows "refines fresh now user op d r d'"
  using assms
  by (cases op) (auto intro: refines_list refines_create refines_update refines_delete refines_get refines_put
      simp del: run_op.simps)

lemma spec_at:
  assumes "holds own (ju_sub user) v d" "fresh_for own fresh (ju_sub user) op v" "run_op fresh now user op d = (r, d')"
  shows "spec_op fresh now (ju_sub user) (resolve_dso_network user) op v = (r, view_of d' (ju_sub user))"
proof -
  have "fresh \<notin> ar_id ` set (db_rules d)" if "op = OpCreate b" for b
    using assms(1,2) that by (force simp: holds_def sane_def owned_def fresh_for_def view_of_def)
  with assms(1,3) have "refines fresh now user op d r d'"
    by (intro op_refines_fresh) (auto simp: holds_def sane_def)
  with assms(1) show ?thesis by (simp add: refines_def holds_def)
qed

lemma exact_answer:
  assumes "holds own (ju_sub user) v d" "fresh_for own fresh (ju_sub user) op v" "run_op fresh now user op d = (a, d)"
  shows "exact own fresh user op v (Return a) d"
  using exact_return [OF assms(1)] spec_at [OF assms] assms(1) by (simp add: holds_def)

lemma stays_holds: "stays own u d d' \<Longrightarrow> holds own u (view_of d' u) d'"
  by (simp add: stays_def holds_def)

lemma own_row_view:
  assumes "holds own u v d" "r \<in> set (db_rules d)" "ar_user_id r = u" "holds own u v d'"
  shows "r \<in> set (db_rules d')"
proof -
  have "r \<in> set (uv_rules (view_of d u))" using assms(2,3) by (simp add: view_of_def)
  then have "r \<in> set (uv_rules (view_of d' u))" using assms(1,4) by (simp add: holds_def)
  then show ?thesis by (simp add: view_of_def)
qed

lemma exact_refresh_rule:
  assumes "stays own (ju_sub user) d0 d" "r \<in> set (db_rules d)" "ar_id r = k" "ar_user_id r = ju_sub user"
    and "spec_op fresh now (ju_sub user) (resolve_dso_network user) op v =
      (fst (run_prog now (refresh_rule k) d), view_of d (ju_sub user))"
  shows "exact own fresh user op v (refresh_rule k) d"
proof -
  note h = stays_holds [OF assms(1)]
  have row: "lookup_row ar_id (db_rules d') k = Some r" if "holds own (ju_sub user) (view_of d (ju_sub user)) d'" for d'
    using lookup_member [of d' r] own_row_view [OF h assms(2,4) that] that assms(3) by (simp add: holds_def sane_def)
  let ?a = "crash (bindR (rule_response_of r) (\<lambda>x. Ok (OneRule x)))"
  have "spec_op fresh now (ju_sub user) (resolve_dso_network user) op v = (?a, view_of d (ju_sub user))"
    using assms(5) row [OF h] by (simp add: refresh_rule_def)
  then show ?thesis
    unfolding refresh_rule_def by (intro exact_reads [OF h]) (simp add: row exact_return)
qed

lemma own_settings_shown:
  assumes "holds own u v d" "lookup_row ns_id (db_settings d) k = Some s" "ns_user_id s = u"
  shows "uv_settings v = Some (settings_response_of s)"
proof -
  have ok: "db_ok d" using assms(1) by (simp add: holds_def sane_def)
  from lookup_row_Some [OF assms(2)] have "s \<in> set (db_settings d)" by simp
  from lookup_row_distinct [OF db_ok_distinct(2) [OF ok] this] assms(1,3) show ?thesis
    by (auto simp: view_of_def holds_def)
qed

lemma exact_refresh_settings:
  assumes "stays own (ju_sub user) d0 d" "has_settings d k (ju_sub user)"
    and "spec_op fresh now (ju_sub user) (resolve_dso_network user) op v =
      (fst (run_prog now (refresh_settings k) d), view_of d (ju_sub user))"
  shows "exact own fresh user op v (refresh_settings k) d"
proof -
  note h = stays_holds [OF assms(1)]
  have row: "\<exists>s. lookup_row ns_id (db_settings d') k = Some s \<and>
      uv_settings (view_of d (ju_sub user)) = Some (settings_response_of s)"
    if "holds own (ju_sub user) (view_of d (ju_sub user)) d'" "keeps_settings d d'" for d'
  proof -
    have "db_ok d'" using that(1) by (simp add: holds_def sane_def)
    from has_settings_lookup [OF this has_settings_keeps [OF assms(2) that(2)]] obtain s where
      s: "lookup_row ns_id (db_settings d') k = Some s" "s \<in> set (db_settings d')" "ns_id s = k" "ns_user_id s = ju_sub user" .
    with own_settings_shown [OF that(1) s(1,4)] show ?thesis by auto
  qed
  from row [OF h keeps_settings_refl] obtain s where s: "lookup_row ns_id (db_settings d) k = Some s"
    "uv_settings (view_of d (ju_sub user)) = Some (settings_response_of s)" by auto
  have "spec_op fresh now (ju_sub user) (resolve_dso_network user) op v =
      (Inr (Settings (settings_response_of s)), view_of d (ju_sub user))"
    using assms(3) s(1) by (simp add: refresh_settings_def)
  moreover have "exact own fresh user op v (Return (case lookup_row ns_id (db_settings d') k of
      None \<Rightarrow> Inl (Crash InvalidRequestError)
    | Some s \<Rightarrow> Inr (Settings (settings_response_of s)))) d'"
    if d': "holds own (ju_sub user) (view_of d (ju_sub user)) d'" "keeps_settings d d'" for d'
    using row [OF d'] s(2) calculation exact_return [OF d'(1)] by auto
  ultimately show ?thesis
    unfolding refresh_settings_def by (intro exact_reads [OF h])
qed

text \<open>A commit at a database that still shows the user the same view.\<close>

lemma exact_commit_rule:
  assumes "holds own (ju_sub user) v d" "fresh_for own fresh (ju_sub user) op v" "stays own (ju_sub user) d d'"
    and "run_prog now (then_refresh (\<lambda>_. refresh_rule k) x) d' = run_op fresh now user op d"
    and "\<And>y. x = Inr y \<Longrightarrow> \<exists>r \<in> set (db_rules d'). ar_id r = k \<and> ar_user_id r = ju_sub user"
  shows "exact own fresh user op v (then_refresh (\<lambda>_. refresh_rule k) x) d'"
proof (cases x)
  case (Inl e)
  with assms(4) have "run_op fresh now user op d = (Inl (Crash e), d')" by (simp add: then_refresh_def)
  from exact_return [OF stays_holds [OF assms(3)] spec_at [OF assms(1,2) this]] Inl show ?thesis
    by (simp add: then_refresh_def)
next
  case (Inr y)
  then obtain r where r: "r \<in> set (db_rules d')" "ar_id r = k" "ar_user_id r = ju_sub user" using assms(5) by blast
  have "run_op fresh now user op d = (fst (run_prog now (refresh_rule k) d'), d')"
    unfolding assms(4) [symmetric] Inr by (simp add: then_refresh_def refresh_rule_def)
  from exact_refresh_rule [OF assms(3) r spec_at [OF assms(1,2) this]] Inr show ?thesis
    by (simp add: then_refresh_def)
qed

lemma exact_commit_settings:
  assumes "holds own (ju_sub user) v d" "fresh_for own fresh (ju_sub user) op v" "stays own (ju_sub user) d d'"
    and "run_prog now (then_refresh refresh_settings x) d' = run_op fresh now user op d"
    and "\<And>k. x = Inr k \<Longrightarrow> has_settings d' k (ju_sub user)"
  shows "exact own fresh user op v (then_refresh refresh_settings x) d'"
proof (cases x)
  case (Inl e)
  with assms(4) have "run_op fresh now user op d = (Inl (Crash e), d')" by (simp add: then_refresh_def)
  from exact_return [OF stays_holds [OF assms(3)] spec_at [OF assms(1,2) this]] Inl show ?thesis
    by (simp add: then_refresh_def)
next
  case (Inr k)
  have "run_op fresh now user op d = (fst (run_prog now (refresh_settings k) d'), d')"
    unfolding assms(4) [symmetric] Inr by (simp add: then_refresh_def refresh_settings_def)
  from exact_refresh_settings [OF assms(3) assms(5) [OF Inr] spec_at [OF assms(1,2) this]] Inr show ?thesis
    by (simp add: then_refresh_def)
qed

lemma exact_list:
  assumes "holds own (ju_sub user) v d"
  shows "exact own fresh user OpList v (list_program user) d"
  unfolding list_program_def
proof (rule exact_reads [OF assms], rule exact_answer)
  fix d' assume d': "holds own (ju_sub user) v d'"
  show "run_op fresh 0 user OpList d' = (bindR (fst (list_alert_rules user d')) (\<lambda>rs. Ok (Rules rs)), d')"
    by (simp add: list_alert_rules_def mapO_bind)
qed (simp_all add: fresh_for_def)

lemma exact_create:
  assumes "holds own (ju_sub user) v d" "fresh_for own fresh (ju_sub user) (OpCreate b) v"
  shows "exact own fresh user (OpCreate b) v (create_program fresh b user) d"
proof (cases "resolve_dso_network user")
  case (Inl f)
  then have "run_op fresh 0 user (OpCreate b) d = (Inl f, d)" by (simp add: create_alert_rule_def mapO_def)
  from exact_answer [OF assms this] Inl show ?thesis by (simp add: create_program_def)
next
  case (Inr n)
  let ?w = "writes (commit_new_rule fresh (ju_sub user) n b) (then_refresh (\<lambda>_. refresh_rule fresh))"
  have prog: "create_program fresh b user = ?w" using Inr by (simp add: create_program_def)
  show ?thesis unfolding prog
  proof (rule exact_writes [OF assms(1)])
    fix d' now x d''
    assume d': "holds own (ju_sub user) v d'" and c: "commit_new_rule fresh (ju_sub user) n b now d' = (x, d'')"
    have sane: "sane own d'" using d' by (simp add: holds_def)
    have "stays own (ju_sub user) d' d''"
      using new_rule_stays [OF sane _ c] assms(2) by (simp add: fresh_for_def)
    moreover have "run_prog now (then_refresh (\<lambda>_. refresh_rule fresh) x) d'' = run_op fresh now user (OpCreate b) d'"
      using run_op_program [of d' now fresh user "OpCreate b"] sane c by (simp add: sane_def prog)
    moreover have "\<exists>r \<in> set (db_rules d''). ar_id r = fresh \<and> ar_user_id r = ju_sub user" if "x = Inr y" for y
      using c that by (auto simp: commit_new_rule_def insert_row_Ok new_rule_def split: sum.splits)
    ultimately show "exact own fresh user (OpCreate b) v (then_refresh (\<lambda>_. refresh_rule fresh) x) d''"
      by (rule exact_commit_rule [OF d' assms(2)])
  qed
qed

lemma exact_with_own_rule:
  assumes "holds own (ju_sub user) v d" "fresh_for own fresh (ju_sub user) op v"
    and "\<And>d'. holds own (ju_sub user) v d' \<Longrightarrow> find (\<lambda>r. ar_id r = k) (uv_rules v) = None \<Longrightarrow>
      run_op fresh 0 user op d' = (Inl (HttpError 404 ''Alert rule not found''), d')"
    and "\<And>d' rule. holds own (ju_sub user) v d' \<Longrightarrow> find (\<lambda>r. ar_id r = k) (uv_rules v) = Some rule \<Longrightarrow>
      exact own fresh user op v (f rule) d'"
  shows "exact own fresh user op v (with_own_rule k user f) d"
  unfolding with_own_rule_def
proof (rule exact_reads [OF assms(1)])
  fix d' assume d': "holds own (ju_sub user) v d'"
  then have own: "own_rule k user d' = Inr (find (\<lambda>r. ar_id r = k) (uv_rules v))"
    by (auto simp: own_rule_view holds_def sane_def)
  show "exact own fresh user op v (case own_rule k user d' of
      Inl e \<Rightarrow> Return (Inl (Crash e))
    | Inr None \<Rightarrow> Return (Inl (HttpError 404 ''Alert rule not found''))
    | Inr (Some rule) \<Rightarrow> f rule) d'"
    unfolding own using exact_answer [OF d' assms(2)] assms(3,4) d' by (auto split: option.splits)
qed

lemma own_rule_holds:
  assumes "holds own (ju_sub user) v d" "find (\<lambda>r. ar_id r = k) (uv_rules v) = Some rule"
  shows "own_rule k user d = Inr (Some rule) \<and> rule \<in> set (db_rules d) \<and> ar_id rule = k \<and>
    own k = ju_sub user \<and> ar_user_id rule = ju_sub user"
proof -
  have ok: "db_ok d" "view_of d (ju_sub user) = v" using assms(1) by (simp_all add: holds_def sane_def)
  have own: "own_rule k user d = Inr (Some rule)" using assms(2) by (simp add: own_rule_view [OF ok(1)] ok(2))
  from own_rule_Some [OF ok(1) own] own assms(1) show ?thesis by (auto simp: holds_def sane_def owned_def)
qed

lemma exact_update:
  assumes "holds own (ju_sub user) v d"
  shows "exact own fresh user (OpUpdate k b) v (update_program k b user) d"
  unfolding update_program_def
proof (rule exact_with_own_rule [OF assms])
  show "fresh_for own fresh (ju_sub user) (OpUpdate k b) v" by (simp add: fresh_for_def)
  show "run_op fresh 0 user (OpUpdate k b) d' = (Inl (HttpError 404 ''Alert rule not found''), d')"
    if "holds own (ju_sub user) v d'" "find (\<lambda>r. ar_id r = k) (uv_rules v) = None" for d'
    using that by (auto simp: update_alert_rule_def own_rule_view holds_def sane_def mapO_def)
next
  fix d rule assume d: "holds own (ju_sub user) v d" and found: "find (\<lambda>r. ar_id r = k) (uv_rules v) = Some rule"
  let ?w = "writes (commit_rule_update b rule) (then_refresh (\<lambda>_. refresh_rule (ar_id rule)))"
  show "exact own fresh user (OpUpdate k b) v ?w d"
  proof (rule exact_writes [OF d])
    fix d' now x d'' assume d': "holds own (ju_sub user) v d'" and c: "commit_rule_update b rule now d' = (x, d'')"
    have sane: "sane own d'" "db_ok d'" "view_of d' (ju_sub user) = v" using d' by (simp_all add: holds_def sane_def)
    note own = own_rule_holds [OF d' found]
    have "fresh_for own fresh (ju_sub user) (OpUpdate k b) v" by (simp add: fresh_for_def)
    moreover have "stays own (ju_sub user) d' d''"
      using rule_update_stays [OF sane(1) _ c] own by simp
    moreover have "run_prog now (then_refresh (\<lambda>_. refresh_rule (ar_id rule)) x) d'' = run_op fresh now user (OpUpdate k b) d'"
      using run_op_program [OF sane(2), of now fresh user "OpUpdate k b"] c found
      by (simp add: update_program_def run_with_own_rule [OF sane(2)] sane(3))
    moreover have "\<exists>r \<in> set (db_rules d''). ar_id r = ar_id rule \<and> ar_user_id r = ju_sub user" if "x = Inr y" for y
    proof -
      let ?rule = "touch_rule now rule (update_rule b rule)"
      from c that have "?rule \<in> set (db_rules d'')"
        using own by (force simp: commit_selected_rule [OF sane(2), of rule] replace_row_Ok split: sum.splits)
      with own show ?thesis by (intro bexI [of _ ?rule]) simp_all
    qed
    ultimately show "exact own fresh user (OpUpdate k b) v (then_refresh (\<lambda>_. refresh_rule (ar_id rule)) x) d''"
      by (rule exact_commit_rule [OF d'])
  qed
qed

lemma exact_delete:
  assumes "holds own (ju_sub user) v d"
  shows "exact own fresh user (OpDelete k) v (delete_program k user) d"
  unfolding delete_program_def
proof (rule exact_with_own_rule [OF assms])
  show "fresh_for own fresh (ju_sub user) (OpDelete k) v" by (simp add: fresh_for_def)
  show "run_op fresh 0 user (OpDelete k) d' = (Inl (HttpError 404 ''Alert rule not found''), d')"
    if "holds own (ju_sub user) v d'" "find (\<lambda>r. ar_id r = k) (uv_rules v) = None" for d'
    using that by (auto simp: delete_alert_rule_def own_rule_view holds_def sane_def mapO_def)
next
  fix d rule assume d: "holds own (ju_sub user) v d" and found: "find (\<lambda>r. ar_id r = k) (uv_rules v) = Some rule"
  show "exact own fresh user (OpDelete k) v (writes (commit_rule_delete (ar_id rule)) (\<lambda>_. Return (Inr Deleted))) d"
  proof (rule exact_writes [OF d])
    fix d' now x d'' assume d': "holds own (ju_sub user) v d'" and c: "commit_rule_delete (ar_id rule) now d' = (x, d'')"
    have sane: "sane own d'" "db_ok d'" "view_of d' (ju_sub user) = v" using d' by (simp_all add: holds_def sane_def)
    note own = own_rule_holds [OF d' found]
    have stays: "stays own (ju_sub user) d' d''"
      using rule_delete_stays [OF sane(1) _ c] own by simp
    have "run_op fresh now user (OpDelete k) d' = (Inr Deleted, d'')"
      using run_op_program [OF sane(2), of now fresh user "OpDelete k"] c found
      by (simp add: delete_program_def run_with_own_rule [OF sane(2)] sane(3))
    from exact_return [OF stays_holds [OF stays] spec_at [OF d' _ this]]
    show "exact own fresh user (OpDelete k) v (Return (Inr Deleted)) d''" by (simp add: fresh_for_def)
  qed
qed


lemma exact_new_settings:
  assumes "holds own (ju_sub user) v d" "fresh_for own fresh (ju_sub user) op v"
    and "\<And>d' now. holds own (ju_sub user) v d' \<Longrightarrow>
      run_prog now (writes (commit_new_settings b (ju_sub user)) (then_refresh refresh_settings)) d' =
        run_op fresh now user op d'"
  shows "exact own fresh user op v (writes (commit_new_settings b (ju_sub user)) (then_refresh refresh_settings)) d"
proof (rule exact_writes [OF assms(1)])
  fix d' now x d'' assume d': "holds own (ju_sub user) v d'" and c: "commit_new_settings b (ju_sub user) now d' = (x, d'')"
  have sane: "sane own d'" using d' by (simp add: holds_def)
  note st = new_settings_stays [OF sane c]
  have "run_prog now (then_refresh refresh_settings x) d'' = run_op fresh now user op d'"
    using assms(3) [OF d', of now] c by simp
  with st show "exact own fresh user op v (then_refresh refresh_settings x) d''"
    by (intro exact_commit_settings [OF d' assms(2)]) auto
qed

lemma exact_own_settings:
  assumes "holds own (ju_sub user) v d" "fresh_for own fresh (ju_sub user) op v"
    and "op_program fresh user op = reads (own_settings user) (\<lambda>r. case r of
       Inl e \<Rightarrow> Return (Inl (Crash e))
     | Inr (Some s) \<Rightarrow> f s
     | Inr None \<Rightarrow> writes (commit_new_settings b (ju_sub user)) (then_refresh refresh_settings))"
    and "\<And>d s. holds own (ju_sub user) v d \<Longrightarrow> lookup_row ns_user_id (db_settings d) (ju_sub user) = Some s \<Longrightarrow>
      exact own fresh user op v (f s) d"
  shows "exact own fresh user op v (op_program fresh user op) d"
  unfolding assms(3)
proof (rule exact_reads [OF assms(1)])
  fix d' assume d': "holds own (ju_sub user) v d'"
  then have ok: "db_ok d'" "view_of d' (ju_sub user) = v" by (simp_all add: holds_def sane_def)
  let ?w = "writes (commit_new_settings b (ju_sub user)) (then_refresh refresh_settings)"
  show "exact own fresh user op v (case own_settings user d' of
      Inl e \<Rightarrow> Return (Inl (Crash e)) | Inr (Some s) \<Rightarrow> f s | Inr None \<Rightarrow> ?w) d'"
  proof (cases "lookup_row ns_user_id (db_settings d') (ju_sub user)")
    case None
    have "run_prog now ?w d1 = run_op fresh now user op d1" if "holds own (ju_sub user) v d1" for d1 now
    proof -
      have ok1: "db_ok d1" "view_of d1 (ju_sub user) = v" using that by (simp_all add: holds_def sane_def)
      have "uv_settings v = None" using None ok(2) by (auto simp: view_of_def)
      then have "lookup_row ns_user_id (db_settings d1) (ju_sub user) = None" using ok1(2) by (auto simp: view_of_def)
      with run_op_program [OF ok1(1), of now fresh user op] show ?thesis
        by (simp add: assms(3) own_settings_view [OF ok1(1)])
    qed
    with None show ?thesis by (simp add: own_settings_view [OF ok(1)] exact_new_settings [OF d' assms(2)])
  next
    case (Some s)
    with assms(4) [OF d' Some] show ?thesis by (simp add: own_settings_view [OF ok(1)])
  qed
qed

lemma exact_get_settings:
  assumes "holds own (ju_sub user) v d"
  shows "exact own fresh user OpGet v (op_program fresh user OpGet) d"
proof (rule exact_own_settings [OF assms])
  show "op_program fresh user OpGet = reads (own_settings user) (\<lambda>r. case r of
       Inl e \<Rightarrow> Return (Inl (Crash e))
     | Inr (Some s) \<Rightarrow> Return (Inr (Settings (settings_response_of s)))
     | Inr None \<Rightarrow> writes (commit_new_settings no_update (ju_sub user)) (then_refresh refresh_settings))"
    by (simp add: get_settings_program_def)
  show "exact own fresh user OpGet v (Return (Inr (Settings (settings_response_of s)))) d"
    if d: "holds own (ju_sub user) v d" and s: "lookup_row ns_user_id (db_settings d) (ju_sub user) = Some s" for d s
  proof (rule exact_answer [OF d])
    show "run_op fresh 0 user OpGet d = (Inr (Settings (settings_response_of s)), d)"
      using d s by (simp add: get_notification_settings_def own_settings_view holds_def sane_def mapO_def)
  qed (simp add: fresh_for_def)
qed (simp add: fresh_for_def)

lemma exact_put_settings:
  assumes "holds own (ju_sub user) v d"
  shows "exact own fresh user (OpPut b) v (op_program fresh user (OpPut b)) d"
proof (rule exact_own_settings [OF assms])
  show "op_program fresh user (OpPut b) = reads (own_settings user) (\<lambda>r. case r of
       Inl e \<Rightarrow> Return (Inl (Crash e))
     | Inr (Some s) \<Rightarrow> writes (commit_settings_update b s) (then_refresh refresh_settings)
     | Inr None \<Rightarrow> writes (commit_new_settings b (ju_sub user)) (then_refresh refresh_settings))"
    by (simp add: put_settings_program_def)
next
  fix d s
  assume d: "holds own (ju_sub user) v d" and s: "lookup_row ns_user_id (db_settings d) (ju_sub user) = Some s"
  from lookup_row_Some [OF s] have has: "has_settings d (ns_id s) (ju_sub user)" by (auto simp: has_settings_def)
  have v: "uv_settings v = Some (settings_response_of s)" using d s by (auto simp: holds_def view_of_def)
  show "exact own fresh user (OpPut b) v (writes (commit_settings_update b s) (then_refresh refresh_settings)) d"
  proof (rule exact_writes [OF d])
    fix d' now x d''
    assume d': "holds own (ju_sub user) v d'" and k: "keeps_settings d d'"
      and c: "commit_settings_update b s now d' = (x, d'')"
    have sane: "sane own d'" "db_ok d'" using d' by (simp_all add: holds_def sane_def)
    note has' = has_settings_keeps [OF has k]
    from has_settings_lookup [OF sane(2) has'] obtain s' where s': "lookup_row ns_id (db_settings d') (ns_id s) = Some s'"
      "s' \<in> set (db_settings d')" "ns_id s' = ns_id s" "ns_user_id s' = ju_sub user" .
    have "settings_response_of s' = settings_response_of s" using own_settings_shown [OF d' s'(1,4)] v by simp
    then have "changed_settings b s' = changed_settings b s"
      by (simp add: settings_response_of_def changed_settings_def)
    then have same: "commit_settings_update b s' = commit_settings_update b s"
      by (intro ext) (unfold commit_settings_update_def s'(3), simp)
    have "own_settings user d' = Inr (Some s')"
      using lookup_row_distinct [OF db_ok_distinct(2) [OF sane(2)] s'(2)] s'(4) by (simp add: own_settings_view [OF sane(2)])
    then have run: "run_prog now (then_refresh refresh_settings x) d'' = run_op fresh now user (OpPut b) d'"
      using run_op_program [OF sane(2), of now fresh user "OpPut b"] c by (simp add: put_settings_program_def same)
    note st = settings_update_stays [OF sane(1) has' c]
    then have "has_settings d'' (ns_id s) (ju_sub user)" using has' by (auto simp: stays_def intro: has_settings_keeps)
    with st run show "exact own fresh user (OpPut b) v (then_refresh refresh_settings x) d''"
      by (intro exact_commit_settings [OF d']) (auto simp: fresh_for_def)
  qed
qed (simp add: fresh_for_def)


lemma exact_op:
  assumes "holds own (ju_sub user) v d" "fresh_for own fresh (ju_sub user) op v"
  shows "exact own fresh user op v (op_program fresh user op) d"
proof (cases op)
  case OpGet
  with exact_get_settings [OF assms(1)] show ?thesis by simp
next
  case (OpPut b)
  with exact_put_settings [OF assms(1)] show ?thesis by simp
qed (use assms in \<open>simp_all add: exact_list exact_create exact_update exact_delete\<close>)

section \<open>Requests in flight\<close>

record flight =
  fl_fresh :: nat
  fl_user :: jwt_user
  fl_op :: alerts_op

abbreviation fl_sub :: "flight \<Rightarrow> string" where
  "fl_sub f \<equiv> ju_sub (fl_user f)"

definition flight_program :: "flight \<Rightarrow> handler_prog" where
  "flight_program f = op_program (fl_fresh f) (fl_user f) (fl_op f)"

definition in_flight :: "db \<Rightarrow> flight list \<Rightarrow> (db, failure + alerts_answer) system" where
  "in_flight d fs = (d, map flight_program fs)"

text \<open>The ids drawn for new rules.\<close>

definition fresh_ids :: "(nat \<Rightarrow> string) \<Rightarrow> db \<Rightarrow> flight \<Rightarrow> bool" where
  "fresh_ids own d f \<longleftrightarrow> (case fl_op f of
     OpCreate b \<Rightarrow> own (fl_fresh f) = fl_sub f \<and> fl_fresh f \<notin> ar_id ` set (db_rules d)
   | _ \<Rightarrow> True)"

text \<open>No other request of the same user is in flight.\<close>

definition unrivalled :: "string list \<Rightarrow> nat \<Rightarrow> bool" where
  "unrivalled us i \<longleftrightarrow> (\<forall>j < length us. j \<noteq> i \<longrightarrow> us ! j \<noteq> us ! i)"

definition flight_rely :: "(nat \<Rightarrow> string) \<Rightarrow> string list \<Rightarrow> nat \<Rightarrow> db \<Rightarrow> db \<Rightarrow> bool" where
  "flight_rely own us i = (if unrivalled us i then others own (us ! i) else anyone own)"

definition flight_guar :: "(nat \<Rightarrow> string) \<Rightarrow> string list \<Rightarrow> nat \<Rightarrow> db \<Rightarrow> db \<Rightarrow> bool" where
  "flight_guar own us i d d' \<longleftrightarrow> i < length us \<and> only own (us ! i) d d'"

lemma anyone_refl: "anyone own d d"
  by (simp add: anyone_def)

lemma anyone_trans: "anyone own d d' \<Longrightarrow> anyone own d' d'' \<Longrightarrow> anyone own d d''"
  by (auto simp: anyone_def intro: keeps_settings_trans)

lemma only_anyone: "only own u d d' \<Longrightarrow> anyone own d d'"
  by (simp add: only_def anyone_def stays_def)

interpretation flights: rely_guarantee "flight_rely own us" "flight_guar own us" for own us
proof unfold_locales
  fix i d d' d''
  show "flight_rely own us i d d" by (simp add: flight_rely_def others_def anyone_refl)
  show "flight_rely own us i d d''" if "flight_rely own us i d d'" "flight_rely own us i d' d''"
    using that by (auto simp: flight_rely_def others_def intro: anyone_trans split: if_splits) (simp_all add: anyone_def)
next
  fix i j d d' assume g: "flight_guar own us i d d'" "i \<noteq> j"
  have "view_of d' (us ! j) = view_of d (us ! j)" if "unrivalled us j" "sane own d"
    using g that by (auto simp: flight_guar_def only_def stays_def unrivalled_def)
  with g show "flight_rely own us j d d'"
    by (auto simp: flight_rely_def others_def flight_guar_def dest: only_anyone)
qed

definition flight_post :: "(nat \<Rightarrow> string) \<Rightarrow> db \<Rightarrow> flight list \<Rightarrow> nat \<Rightarrow> failure + alerts_answer \<Rightarrow> db \<Rightarrow> bool" where
  "flight_post own d0 fs i a d \<longleftrightarrow> good own (fl_sub (fs ! i)) (fl_op (fs ! i)) a d \<and>
     (unrivalled (map fl_sub fs) i \<longrightarrow>
        as_specified own (fl_fresh (fs ! i)) (fl_user (fs ! i)) (fl_op (fs ! i)) (view_of d0 (fl_sub (fs ! i))) a d)"

lemma flights_ensure:
  assumes "sane own d" "\<forall>f \<in> set fs. fresh_ids own d f"
  shows "flights.all_ensure own (map fl_sub fs) (flight_post own d fs) (in_flight d fs)"
  unfolding flights.all_ensure_def
proof (intro allI impI)
  fix i assume "i < length (snd (in_flight d fs))"
  then have i: "i < length fs" by (simp add: in_flight_def)
  let ?f = "fs ! i"
  have fresh: "fresh_ids own d ?f" using assms(2) i by simp
  have safe: "safe own (fl_sub ?f) (fl_op ?f) (flight_program ?f) d"
    unfolding flight_program_def by (rule safe_op [OF assms(1)]) (use fresh in \<open>simp add: fresh_ids_def\<close>)
  let ?R = "flight_rely own (map fl_sub fs) i" and ?G = "flight_guar own (map fl_sub fs) i"
  have "ensures (anyone own) ?G (good own (fl_sub ?f) (fl_op ?f)) (flight_program ?f) d"
    by (rule ensures_mono [OF safe [unfolded safe_def]]) (use i in \<open>auto simp: flight_guar_def\<close>)
  then have one: "ensures ?R ?G (good own (fl_sub ?f) (fl_op ?f)) (flight_program ?f) d"
    by (rule ensures_relies) (auto simp: flight_rely_def others_def split: if_splits)
  show "ensures ?R ?G (flight_post own d fs i) (snd (in_flight d fs) ! i) (fst (in_flight d fs))"
  proof (cases "unrivalled (map fl_sub fs) i")
    case False
    with one i show ?thesis by (auto simp: in_flight_def flight_post_def elim: ensures_mono)
  next
    case True
    let ?v = "view_of d (fl_sub ?f)"
    have h: "holds own (fl_sub ?f) ?v d" using assms(1) by (simp add: holds_def)
    have "fresh_for own (fl_fresh ?f) (fl_sub ?f) (fl_op ?f) ?v"
      using fresh by (auto simp: fresh_ids_def fresh_for_def view_of_def split: alerts_op.splits)
    from exact_op [OF h this]
    have "ensures ?R (\<lambda>_ _. True) (as_specified own (fl_fresh ?f) (fl_user ?f) (fl_op ?f) ?v) (flight_program ?f) d"
      using True i by (simp add: exact_def flight_program_def flight_rely_def)
    from ensures_both [OF one this] True i show ?thesis
      by (auto simp: in_flight_def flight_post_def elim: ensures_mono)
  qed
qed

lemma flights_always:
  assumes "sane own d" "\<forall>f \<in> set fs. fresh_ids own d f" "prog_step\<^sup>*\<^sup>* (in_flight d fs) (d', ps)"
  shows "sane own d' \<and> (\<forall>v. v \<notin> fl_sub ` set fs \<longrightarrow> view_of d' v = view_of d v)"
proof -
  let ?I = "\<lambda>d'. sane own d' \<and> (\<forall>v. v \<notin> fl_sub ` set fs \<longrightarrow> view_of d' v = view_of d v)"
  have "?I (fst (d', ps))"
  proof (rule flights.always [OF assms(3) flights_ensure [OF assms(1,2)]])
    show "?I (fst (in_flight d fs))" using assms(1) by (simp add: in_flight_def)
    show "?I y" if g: "flight_guar own (map fl_sub fs) i x y" and x: "?I x" for i x y
    proof -
      have "fl_sub (fs ! i) \<in> fl_sub ` set fs" using g by (auto simp: flight_guar_def)
      then have "v \<noteq> fl_sub (fs ! i)" if "v \<notin> fl_sub ` set fs" for v using that by blast
      with g x show ?thesis by (auto simp: flight_guar_def only_def stays_def)
    qed
  qed
  then show ?thesis by simp
qed

lemma flights_answer:
  assumes "sane own d" "\<forall>f \<in> set fs. fresh_ids own d f" "prog_step\<^sup>*\<^sup>* (in_flight d fs) (d', ps)"
    and "i < length fs" "ps ! i = Return a"
  shows "flight_post own d fs i a d'"
proof -
  have s: "in_flight d fs = (d, map flight_program fs)" by (simp add: in_flight_def)
  show ?thesis
    using flights.answers [OF flights_ensure [OF assms(1,2), unfolded s] assms(3) [unfolded s] _ assms(5)] assms(4)
    by simp
qed

text \<open>The errors that only a race can cause; the specification of one request knows none of them.\<close>

fun race_error :: "alerts_op \<Rightarrow> py_error \<Rightarrow> bool" where
  "race_error OpGet e \<longleftrightarrow> e \<noteq> DataError"
| "race_error (OpPut b) e \<longleftrightarrow> e \<noteq> DataError"
| "race_error op e \<longleftrightarrow> e = StaleDataError \<or> e = InvalidRequestError"

lemma check_rule_error: "check_rule r = Some e \<Longrightarrow> e = IntegrityError \<or> e = DataError"
  by (auto simp: check_rule_def split: if_splits)

lemma race_errors_differ: "StaleDataError \<notin> {IntegrityError, DataError, ResponseValidationError}"
  "InvalidRequestError \<notin> {IntegrityError, DataError, ResponseValidationError}"
  by (simp_all add: StaleDataError_def InvalidRequestError_def ResponseValidationError_def)

lemma network_failure: "resolve_dso_network user = Inl f \<Longrightarrow> \<exists>x. f = HttpError 403 x"
  by (auto simp: resolve_dso_network_def Let_def split: if_splits)

lemma spec_no_race:
  assumes "spec_op fresh now u (resolve_dso_network user) op v = (Inl (Crash e), v')"
  shows "\<not> race_error op e"
proof (cases op)
  case OpList
  with assms race_errors_differ show ?thesis by (auto simp: crash_Inl_iff bindR_Raise_iff dest!: mapR_RaiseD rule_response_error)
next
  case (OpCreate b)
  with assms race_errors_differ show ?thesis
    by (auto simp: crash_Inl_iff bindR_Raise_iff Let_def dest: network_failure check_rule_error rule_response_error
        split: sum.splits option.splits)
next
  case (OpUpdate k b)
  with assms race_errors_differ show ?thesis
    by (auto simp: crash_Inl_iff bindR_Raise_iff Let_def dest: check_rule_error rule_response_error split: option.splits)
next
  case OpGet
  with assms show ?thesis by (auto simp: spec_put_def Let_def split: option.splits if_splits)
next
  case (OpPut b)
  with assms show ?thesis by (auto simp: spec_put_def Let_def split: if_splits)
next
  case (OpDelete k)
  with assms show ?thesis by (auto split: if_splits)
qed

text \<open>
  How many statements an operation awaits: the SELECT of PATCH, DELETE and the settings, the
  commit of what it writes, and the refresh of what it shows.
\<close>

fun op_statements :: "alerts_op \<Rightarrow> nat" where
  "op_statements OpList = 1"
| "op_statements (OpCreate b) = 2"
| "op_statements (OpUpdate k b) = 3"
| "op_statements (OpDelete k) = 2"
| "op_statements OpGet = 3"
| "op_statements (OpPut b) = 3"

lemma op_ends_within: "ends_within (op_program fresh user op) (op_statements op)"
  by (cases op) (auto simp: list_program_def create_program_def update_program_def delete_program_def
      get_settings_program_def put_settings_program_def with_own_rule_def then_refresh_def refresh_rule_def
      refresh_settings_def intro!: ends_within_writes split: sum.splits option.splits)

lemma op_ends: "ends_within (op_program fresh user op) 3"
  by (rule ends_within_mono [OF op_ends_within]) (cases op; simp)

lemma in_flight_bounded: "all_bounded (in_flight d fs)"
  using op_ends_within by (fastforce simp: all_bounded_def in_flight_def flight_program_def)

lemma in_flight_total: "total_left (in_flight d fs) \<le> sum_list (map (\<lambda>f. op_statements (fl_op f)) fs)"
proof -
  have "statements_left (flight_program f) \<le> op_statements (fl_op f)" for f
    using statements_left_least [OF op_ends_within] by (simp add: flight_program_def)
  then show ?thesis by (induction fs) (simp_all add: total_left_def in_flight_def add_mono)
qed

lemma stuck_answered:
  assumes "prog_step\<^sup>*\<^sup>* (in_flight d fs) (d', ps)" "\<nexists>s. prog_step (d', ps) s" "i < length fs"
  shows "\<exists>a. ps ! i = Return a"
proof -
  have "all_bounded (d', ps)" by (rule programs.inv_steps [OF assms(1) in_flight_bounded])
  then have "all_returned (d', ps)" using programs.stuck_final assms(2) by blast
  moreover have "i < length ps" using prog_steps_length [OF assms(1)] assms(3) by (simp add: in_flight_def)
  ultimately have "returned (ps ! i) \<noteq> None" by (simp add: all_returned_def)
  then show ?thesis by (auto simp: returned_Some)
qed


section \<open>Schedules\<close>

text \<open>Writes of one rule, as the schedules below need them.\<close>

abbreviation put_rule :: "alert_rule \<Rightarrow> db \<Rightarrow> db" where
  "put_rule r d \<equiv> d\<lparr>db_rules := map (\<lambda>x. if ar_id x = ar_id r then r else x) (db_rules d)\<rparr>"

lemma lookup_put_rule:
  "lookup_row ar_id (db_rules (put_rule r d)) k =
     (if k = ar_id r \<and> lookup_row ar_id (db_rules d) k \<noteq> None then Some r else lookup_row ar_id (db_rules d) k)"
  by (simp add: lookup_row_map)

lemma commit_found:
  assumes "changed_rule b snap = c" "c \<noteq> no_rule_update" "lookup_row ar_id (db_rules d) (ar_id snap) = Some cur"
    and "(update_rule c cur)\<lparr>ar_updated_at := now\<rparr> = new" "check_rule new = None"
  shows "commit_rule_update b snap now d = (Inr (), put_rule new d)"
  using assms by (simp add: commit_rule_update_def Let_def replace_row_def)

lemmas in_turn = converse_rtranclp_into_rtranclp [of prog_step]

text \<open>Two settings requests that both find no settings: the second INSERT meets the unique key.\<close>

lemma both_insert:
  assumes "length u \<le> 255" "db_ok d" "lookup_row ns_user_id (db_settings d) u = None" "ju_sub user = u"
  shows "\<exists>d' s. prog_step\<^sup>*\<^sup>* (d, [get_settings_program user, get_settings_program user])
    (d', [Return (Inr (Settings s)), Return (Inl (Crash IntegrityError))])"
proof -
  let ?s = "new_settings 0 u d"
  let ?d = "d\<lparr>db_settings := db_settings d @ [?s], db_next_settings_id := db_next_settings_id d + 1\<rparr>"
  let ?W = "writes (commit_new_settings no_update u) (then_refresh refresh_settings)"
  let ?F = "refresh_settings (ns_id ?s)"
  let ?ok = "Return (Inr (Settings (settings_response_of ?s)))" and ?no = "Return (Inl (Crash IntegrityError))"
  have key: "ns_user_id (new_settings now u e) = u" for now e by (simp add: new_settings_def)
  have ins: "insert_settings ?s d = Inr ?d"
    using assms by (simp add: insert_settings_Inr check_settings_def key)
  have ok: "db_ok ?d" by (rule db_ok_insert_settings [OF assms(2) ins]) (simp add: new_settings_def)
  have "insert_settings (new_settings 0 u ?d) ?d = Inl IntegrityError"
    using assms(1) by (simp add: insert_settings_Inl insert_row_def check_settings_def key)
  then have second: "commit_new_settings no_update u 0 ?d = (Inl IntegrityError, ?d)"
    by (simp add: commit_new_settings_def update_settings_none)
  have first: "commit_new_settings no_update u 0 d = (Inr (ns_id ?s), ?d)"
    by (simp add: commit_new_settings_def update_settings_none ins Let_def)
  have own: "own_settings user d = Inr None" using assms(2-4) by (simp add: own_settings_view)
  have look: "lookup_row ns_id (db_settings ?d) (ns_id ?s) = Some ?s" by (rule lookup_settings_id [OF ok]) simp
  have s1: "prog_step (d, [get_settings_program user, q]) (d, [?W, q])" for q
    by (rule left_reads [OF get_settings_program_def]) (simp add: own assms(4))
  have s2: "prog_step (d, [q, get_settings_program user]) (d, [q, ?W])" for q
    by (rule right_reads [OF get_settings_program_def]) (simp add: own assms(4))
  have s3: "prog_step (d, [?W, q]) (?d, [?F, q])" for q
    by (rule left_writes [OF refl], rule first, simp add: then_refresh_def)
  have s4: "prog_step (?d, [q, ?W]) (?d, [q, ?no])" for q
    by (rule right_writes [OF refl], rule second, simp add: then_refresh_def)
  have s5: "prog_step (?d, [?F, q]) (?d, [?ok, q])" for q
    by (rule left_reads [OF refresh_settings_def]) (simp add: look [simplified])
  have "prog_step\<^sup>*\<^sup>* (d, [get_settings_program user, get_settings_program user]) (?d, [?ok, ?no])"
    by (rule in_turn, rule s1, rule in_turn, rule s2, rule in_turn, rule s3, rule in_turn, rule s4, rule in_turn, rule s5,
        rule rtranclp.rtrancl_refl)
  then show ?thesis by blast
qed

text \<open>A PATCH whose rule is deleted between its SELECT and its UPDATE.\<close>

lemma patch_meets_delete:
  assumes "db_ok d" "own_rule k user d = Inr (Some rule)" "update_rule b rule \<noteq> rule"
  shows "prog_step\<^sup>*\<^sup>* (d, [update_program k b user, delete_program k user])
    (d\<lparr>db_rules := delete_row ar_id k (db_rules d)\<rparr>, [Return (Inl (Crash StaleDataError)), Return (Inr Deleted)])"
proof -
  let ?d = "d\<lparr>db_rules := delete_row ar_id k (db_rules d)\<rparr>"
  note mem = own_rule_Some [OF assms(1,2)]
  let ?U = "writes (commit_rule_update b rule) (then_refresh (\<lambda>_. refresh_rule (ar_id rule)))"
  let ?D = "writes (commit_rule_delete (ar_id rule)) (\<lambda>_. Return (Inr Deleted))"
  have "lookup_row ar_id (delete_row ar_id k (db_rules d)) k = None" by (simp add: lookup_row_delete)
  then have stale: "commit_rule_update b rule 0 ?d = (Inl StaleDataError, ?d)"
    using assms(3) mem by (simp add: commit_rule_update_def changed_rule_none Let_def)
  have delete: "commit_rule_delete (ar_id rule) 0 d = ((), ?d)" using mem by (simp add: commit_rule_delete_def)
  have s1: "prog_step (d, [update_program k b user, q]) (d, [?U, q])" for q
    by (rule left_reads [OF update_program_def [unfolded with_own_rule_def]]) (simp add: assms(2))
  have s2: "prog_step (d, [q, delete_program k user]) (d, [q, ?D])" for q
    by (rule right_reads [OF delete_program_def [unfolded with_own_rule_def]]) (simp add: assms(2))
  have s3: "prog_step (d, [q, ?D]) (?d, [q, Return (Inr Deleted)])" for q
    by (rule right_writes [OF refl], rule delete, simp)
  have s4: "prog_step (?d, [?U, q]) (?d, [Return (Inl (Crash StaleDataError)), q])" for q
    by (rule left_writes [OF refl], rule stale, simp add: then_refresh_def)
  show ?thesis
    by (rule in_turn, rule s1, rule in_turn, rule s2, rule in_turn, rule s3, rule in_turn, rule s4, rule rtranclp.rtrancl_refl)
qed

text \<open>
  Two users ask for their settings, which neither has; both SELECTs come before either INSERT.
\<close>

definition other_user :: jwt_user where
  "other_user = (sample_user [''net''] [] False)\<lparr>ju_sub := ''other''\<rparr>"

definition two_gets :: "flight list" where
  "two_gets = [\<lparr>fl_fresh = 0, fl_user = sample_user [''net''] [] False, fl_op = OpGet\<rparr>,
     \<lparr>fl_fresh = 0, fl_user = other_user, fl_op = OpGet\<rparr>]"

lemma two_gets_users: "map fl_sub two_gets = [''op'', ''other'']"
  by (simp add: two_gets_def other_user_def)

lemma two_gets_unrivalled: "unrivalled (map fl_sub two_gets) 0" "unrivalled (map fl_sub two_gets) 1"
  unfolding two_gets_users by (simp_all add: unrivalled_def less_Suc_eq)

lemma two_gets_fresh: "\<forall>f \<in> set two_gets. fresh_ids (\<lambda>_. ''op'') empty_db f"
  by (simp add: fresh_ids_def two_gets_def)

lemma empty_db_owned: "owned own empty_db"
  by (simp add: owned_def empty_db_def)

lemma get_on_nothing:
  assumes "spec_op fresh now u n OpGet (view_of empty_db u) = (c, w)" "length u \<le> 255"
  shows "\<exists>x. c = Inr (Settings x) \<and> uv_settings w = Some x"
proof -
  have "uv_settings (view_of empty_db u) = None" by (simp add: view_of_def empty_db_def lookup_row_def)
  with assms show ?thesis by (auto simp: spec_put_def Let_def)
qed

lemma two_gets_run: "\<exists>d' a b. prog_step\<^sup>*\<^sup>* (in_flight empty_db two_gets) (d', [Return a, Return b])"
proof -
  let ?u = "sample_user [''net''] [] False" and ?d = empty_db
  let ?G = "get_settings_program ?u" and ?H = "get_settings_program other_user"
  obtain p where p: "prog_step (?d, [?G, q]) (?d, [p, q])" for q
    using left_reads [OF get_settings_program_def refl] by blast
  obtain r where r: "prog_step (?d, [q, ?H]) (?d, [q, r])" for q
    using right_reads [OF get_settings_program_def refl] by blast
  obtain b d1 where b: "run_prog 0 r ?d = (b, d1)" by (cases "run_prog 0 r ?d")
  obtain a d2 where a: "run_prog 0 p d1 = (a, d2)" by (cases "run_prog 0 p d1")
  have "prog_step\<^sup>*\<^sup>* (?d, [p, r]) (d1, [p, Return b])" using uninterrupted [OF _ _ b, of 1 "[p, r]"] by simp
  moreover have "prog_step\<^sup>*\<^sup>* (d1, [p, Return b]) (d2, [Return a, Return b])"
    using uninterrupted [OF _ _ a, of 0 "[p, Return b]"] by simp
  ultimately have "prog_step\<^sup>*\<^sup>* (?d, [p, r]) (d2, [Return a, Return b])" by (rule rtranclp_trans)
  with p [of ?H] r [of p] have "prog_step\<^sup>*\<^sup>* (?d, [?G, ?H]) (d2, [Return a, Return b])"
    by (meson converse_rtranclp_into_rtranclp)
  then show ?thesis by (auto simp: in_flight_def two_gets_def flight_program_def)
qed

section \<open>Properties\<close>

text \<open>
  C26: run without interruption, the statements of a request do exactly what its route does in
  one piece: same answer, same database, also while other requests stand still.
\<close>

theorem alone_is_the_handler:
  assumes "db_ok d" "alerts_api env fresh now rq call d = (a, d')"
    and "i < length ps" "ps ! i = request_program env fresh rq call"
  shows "run_prog now (request_program env fresh rq call) d = (a, d') \<and>
    prog_step\<^sup>*\<^sup>* (d, ps) (d', ps[i := Return a])"
proof -
  have "run_prog now (request_program env fresh rq call) d = alerts_api env fresh now rq call d"
    by (simp add: request_program_def alerts_api_def alerts_handler_run run_op_program [OF assms(1)] split: sum.splits)
  with assms(2) have run: "run_prog now (request_program env fresh rq call) d = (a, d')" by simp
  with uninterrupted [OF assms(3,4) run] show ?thesis by simp
qed

theorem alone_is_the_handler_witness:
  "\<exists>x. prog_step\<^sup>*\<^sup>* (empty_db, [request_program sample_alerts_env 7 sample_request sample_call])
     (empty_db\<lparr>db_rules := [sample_created]\<rparr>, [Return (Inr (OneRule x))])"
proof -
  obtain x where x: "alerts_api sample_alerts_env 7 5 sample_request sample_call empty_db =
      (Inr (OneRule x), empty_db\<lparr>db_rules := [sample_created]\<rparr>)"
    using sample_api by blast
  from alone_is_the_handler [OF empty_db_ok x, of 0 "[request_program sample_alerts_env 7 sample_request sample_call]"]
  show ?thesis by auto
qed

text \<open>
  C8: in every interleaving of any number of requests, whoever sends them, the tables stay well
  formed and every rule stays with its owner; an answer shows the asker's rows only; each
  operation fails only in its own ways (a DELETE never crashes), and the failures that come
  from a lost race are met only beside another request of the same user.
\<close>

theorem interleaving_invariant:
  assumes "db_ok d" "owned own d" "\<forall>f \<in> set fs. fresh_ids own d f"
    and "prog_step\<^sup>*\<^sup>* (in_flight d fs) (d', ps)"
  shows "db_ok d' \<and> owned own d' \<and>
    (\<forall>i < length fs. \<forall>a. ps ! i = Return a \<longrightarrow> answer_ok (fl_sub (fs ! i)) (fl_op (fs ! i)) a \<and>
       (\<forall>e. a = Inl (Crash e) \<and> race_error (fl_op (fs ! i)) e \<longrightarrow>
          (\<exists>j < length fs. j \<noteq> i \<and> fl_sub (fs ! j) = fl_sub (fs ! i))))"
proof -
  have sane: "sane own d" using assms(1,2) by (simp add: sane_def)
  have rival: "\<exists>j < length fs. j \<noteq> i \<and> fl_sub (fs ! j) = fl_sub (fs ! i)"
    if i: "i < length fs" and post: "flight_post own d fs i (Inl (Crash e)) d'" and race: "race_error (fl_op (fs ! i)) e" for i e
  proof (rule ccontr)
    assume "\<not> ?thesis"
    then have "unrivalled (map fl_sub fs) i" using i by (auto simp: unrivalled_def)
    with post obtain now v where "spec_op (fl_fresh (fs ! i)) now (fl_sub (fs ! i)) (resolve_dso_network (fl_user (fs ! i)))
        (fl_op (fs ! i)) v = (Inl (Crash e), view_of d' (fl_sub (fs ! i)))"
      by (auto simp: flight_post_def as_specified_def)
    from spec_no_race [OF this] race show False by simp
  qed
  have good: "answer_ok (fl_sub (fs ! i)) (fl_op (fs ! i)) a" if "flight_post own d fs i a d'" for i a
    using that by (simp add: flight_post_def good_def)
  note answer = flights_answer [OF sane assms(3,4)]
  from flights_always [OF sane assms(3,4)] show ?thesis
    by (simp add: sane_def) (blast intro: good rival answer)
qed

theorem interleaving_invariant_witness:
  "\<exists>d' ps. prog_step\<^sup>*\<^sup>* (in_flight empty_db [\<lparr>fl_fresh = 0, fl_user = sample_user [''net''] [] False, fl_op = OpGet\<rparr>,
       \<lparr>fl_fresh = 0, fl_user = sample_user [''net''] [] False, fl_op = OpGet\<rparr>]) (d', ps) \<and>
     ps ! 1 = Return (Inl (Crash IntegrityError)) \<and> db_ok d'"
proof -
  let ?user = "sample_user [''net''] [] False"
  let ?f = "\<lparr>fl_fresh = 0, fl_user = ?user, fl_op = OpGet\<rparr>"
  from both_insert [OF _ empty_db_ok, of "''op''" ?user] obtain d' s where
    run: "prog_step\<^sup>*\<^sup>* (in_flight empty_db [?f, ?f]) (d', [Return (Inr (Settings s)), Return (Inl (Crash IntegrityError))])"
    by (auto simp: empty_db_def lookup_row_def in_flight_def flight_program_def)
  note own = empty_db_owned [of "\<lambda>_. ''op''"]
  have fresh: "\<forall>f \<in> set [?f, ?f]. fresh_ids (\<lambda>_. ''op'') empty_db f" by (simp add: fresh_ids_def)
  from interleaving_invariant [OF empty_db_ok own fresh run] run show ?thesis
    by (intro exI conjI) (assumption, simp_all)
qed

text \<open>
  C9: isolation of users: a request that is its user's only one in flight is answered, and
  leaves the user's rules and settings, as the specification of the one operation says,
  whatever all the other users' requests do in between; and a user without a request in
  flight sees nothing change.
\<close>

theorem isolation:
  assumes "db_ok d" "owned own d" "\<forall>f \<in> set fs. fresh_ids own d f"
    and "prog_step\<^sup>*\<^sup>* (in_flight d fs) (d', ps)"
  shows "(\<forall>i < length fs. \<forall>a. unrivalled (map fl_sub fs) i \<and> ps ! i = Return a \<longrightarrow>
       (\<exists>now. spec_op (fl_fresh (fs ! i)) now (fl_sub (fs ! i)) (resolve_dso_network (fl_user (fs ! i))) (fl_op (fs ! i))
          (view_of d (fl_sub (fs ! i))) = (a, view_of d' (fl_sub (fs ! i))))) \<and>
    (\<forall>u. u \<notin> fl_sub ` set fs \<longrightarrow> view_of d' u = view_of d u)"
proof -
  have sane: "sane own d" using assms(1,2) by (simp add: sane_def)
  note answer = flights_answer [OF sane assms(3,4)]
  with flights_always [OF sane assms(3,4)] show ?thesis
    by (auto simp: flight_post_def as_specified_def)
qed

text \<open>Two users at once, their statements interleaved: each gets the settings that it would have got alone.\<close>

theorem isolation_witness:
  "\<exists>d' x y. prog_step\<^sup>*\<^sup>* (in_flight empty_db two_gets) (d', [Return (Inr (Settings x)), Return (Inr (Settings y))]) \<and>
     uv_settings (view_of d' ''op'') = Some x \<and> uv_settings (view_of d' ''other'') = Some y \<and>
     view_of d' ''third'' = view_of empty_db ''third''"
proof -
  from two_gets_run obtain d' a b where run: "prog_step\<^sup>*\<^sup>* (in_flight empty_db two_gets) (d', [Return a, Return b])"
    by blast
  note iso = isolation [OF empty_db_ok empty_db_owned two_gets_fresh run]
  note spec = conjunct1 [OF iso, rule_format]
  from spec [of 0 a] two_gets_unrivalled(1) have "\<exists>x. a = Inr (Settings x) \<and> uv_settings (view_of d' ''op'') = Some x"
    by (auto simp: two_gets_def other_user_def simp del: spec_op.simps dest!: get_on_nothing)
  moreover from spec [of 1 b] two_gets_unrivalled(2) have "\<exists>x. b = Inr (Settings x) \<and> uv_settings (view_of d' ''other'') = Some x"
    by (auto simp: two_gets_def other_user_def simp del: spec_op.simps dest!: get_on_nothing)
  moreover have "view_of d' ''third'' = view_of empty_db ''third''"
    using conjunct2 [OF iso] by (simp add: two_gets_def other_user_def)
  ultimately show ?thesis using run by auto
qed

text \<open>
  C27: total correctness of requests in flight: a run takes no more statements than its
  operations have, one to three each, and where it stops every request has been answered, each
  with an answer its operation may give that asker; a request that is its user's only one has
  done exactly what the specification of its operation says of the user's rules and settings as
  they were before the run.
\<close>

theorem interleavings_end:
  assumes "db_ok d" "owned own d" "\<forall>f \<in> set fs. fresh_ids own d f"
    and "(prog_step ^^ k) (in_flight d fs) (d', ps)"
  shows "k \<le> sum_list (map (\<lambda>f. op_statements (fl_op f)) fs) \<and>
    ((\<nexists>s. prog_step (d', ps) s) \<longrightarrow> (\<forall>i < length fs. \<exists>a. ps ! i = Return a \<and>
       answer_ok (fl_sub (fs ! i)) (fl_op (fs ! i)) a \<and>
       (unrivalled (map fl_sub fs) i \<longrightarrow>
          (\<exists>now. spec_op (fl_fresh (fs ! i)) now (fl_sub (fs ! i)) (resolve_dso_network (fl_user (fs ! i))) (fl_op (fs ! i))
             (view_of d (fl_sub (fs ! i))) = (a, view_of d' (fl_sub (fs ! i)))))))"
proof (intro conjI impI allI)
  have sane: "sane own d" using assms(1,2) by (simp add: sane_def)
  have run: "prog_step\<^sup>*\<^sup>* (in_flight d fs) (d', ps)" using assms(4) by (rule relpowp_imp_rtranclp)
  show "k \<le> sum_list (map (\<lambda>f. op_statements (fl_op f)) fs)"
    using programs.run_bounded [OF assms(4) in_flight_bounded] in_flight_total [of d fs] by linarith
  fix i assume stuck: "\<nexists>s. prog_step (d', ps) s" and i: "i < length fs"
  from stuck_answered [OF run stuck i] obtain a where a: "ps ! i = Return a" by blast
  with flights_answer [OF sane assms(3) run i a]
  show "\<exists>a. ps ! i = Return a \<and> answer_ok (fl_sub (fs ! i)) (fl_op (fs ! i)) a \<and>
       (unrivalled (map fl_sub fs) i \<longrightarrow>
          (\<exists>now. spec_op (fl_fresh (fs ! i)) now (fl_sub (fs ! i)) (resolve_dso_network (fl_user (fs ! i))) (fl_op (fs ! i))
             (view_of d (fl_sub (fs ! i))) = (a, view_of d' (fl_sub (fs ! i)))))"
    by (auto simp: flight_post_def good_def as_specified_def)
qed

text \<open>The two requests of that run, both ended with a row of their own within six statements.\<close>

theorem interleavings_end_witness:
  "\<exists>k d' x y. (prog_step ^^ k) (in_flight empty_db two_gets) (d', [Return (Inr (Settings x)), Return (Inr (Settings y))]) \<and>
     k \<le> 6 \<and> uv_settings (view_of d' ''op'') = Some x \<and> uv_settings (view_of d' ''other'') = Some y"
proof -
  from two_gets_run obtain k d' a b where run: "(prog_step ^^ k) (in_flight empty_db two_gets) (d', [Return a, Return b])"
    by (blast dest: rtranclp_imp_relpowp)
  note ends = interleavings_end [OF empty_db_ok empty_db_owned two_gets_fresh run]
  have stuck: "\<nexists>s. prog_step (d', [Return a, Return b]) s"
  proof (rule notI, elim exE)
    fix s assume "prog_step (d', [Return a, Return b]) s"
    then show False by (cases rule: prog_step.cases) (auto simp: less_Suc_eq nth_Cons split: nat.splits)
  qed
  note done_at = conjunct2 [OF ends, rule_format, OF stuck]
  from done_at [of 0] two_gets_unrivalled(1) have "\<exists>x. a = Inr (Settings x) \<and> uv_settings (view_of d' ''op'') = Some x"
    by (auto simp: two_gets_def other_user_def simp del: spec_op.simps dest!: get_on_nothing)
  moreover from done_at [of 1] two_gets_unrivalled(2) have "\<exists>x. b = Inr (Settings x) \<and> uv_settings (view_of d' ''other'') = Some x"
    by (auto simp: two_gets_def other_user_def simp del: spec_op.simps dest!: get_on_nothing)
  moreover from ends have "k \<le> 6" by (simp add: two_gets_def)
  ultimately show ?thesis using run by auto
qed

text \<open>
  C29: two requests of one user can lose to each other: of two that both find no settings one is
  answered 500, because the handler neither locks the row nor catches the violated unique key;
  and a PATCH that would change a rule is answered 500 when the rule is deleted between its
  SELECT and its UPDATE.
\<close>

theorem own_requests_collide:
  assumes "db_ok d" "length (ju_sub user) \<le> 255"
  shows "(lookup_row ns_user_id (db_settings d) (ju_sub user) = None \<longrightarrow>
      (\<exists>d' s e. prog_step\<^sup>*\<^sup>* (d, [get_settings_program user, get_settings_program user])
         (d', [Return (Inr (Settings s)), Return (Inl e)]) \<and> failure_status e = 500)) \<and>
    (own_rule k user d = Inr (Some rule) \<and> update_rule b rule \<noteq> rule \<longrightarrow>
      (\<exists>d' e. prog_step\<^sup>*\<^sup>* (d, [update_program k b user, delete_program k user])
         (d', [Return (Inl e), Return (Inr Deleted)]) \<and> failure_status e = 500))"
  using both_insert [OF assms(2,1) _ refl] patch_meets_delete [OF assms(1)] by fastforce

theorem own_requests_collide_witness:
  "\<exists>d' s e. prog_step\<^sup>*\<^sup>* (empty_db, [get_settings_program (sample_user [''net''] [] False), get_settings_program (sample_user [''net''] [] False)])
     (d', [Return (Inr (Settings s)), Return (Inl e)]) \<and> failure_status e = 500"
proof -
  have none: "lookup_row ns_user_id (db_settings empty_db) (ju_sub (sample_user [''net''] [] False)) = None"
    by (simp add: empty_db_def lookup_row_def)
  have "length (ju_sub (sample_user [''net''] [] False)) \<le> 255" by simp
  from own_requests_collide [OF empty_db_ok this] none show ?thesis by blast
qed

end
