(* ===== verification/InterleavedRuns.thy ===== *)
theory InterleavedRuns
  imports Interleaving Listener
begin

text \<open>
  Pipeline runs beside the requests: \<open>on_pipeline_run\<close> and \<open>dispatch_grid_alerts\<close> statement by
  statement. A run reads the networks, then the active rules of each, then the settings of the
  owners whose rules name no recipients; between two reads requests of operators are answered.
  Alone it is the run of \<open>Listener\<close>; and it writes nothing, so any number of
  runs beside any number of requests disturb none of them.
\<close>

section \<open>The statements of a run\<close>

fun trigger_program ::
  "row list \<Rightarrow> alert_rule list \<Rightarrow> trigger list \<Rightarrow> (trigger list res \<Rightarrow> (db, 'a) prog) \<Rightarrow> (db, 'a) prog" where
  "trigger_program rows [] acc k = k (Ok acc)"
| "trigger_program rows (rule # rules) acc k =
     (case triggered_vectors rows (ar_threshold rule) (rule_risk_types rule) of
        Inl e \<Rightarrow> k (Raise e)
      | Inr vectors \<Rightarrow>
          if vectors = [] then trigger_program rows rules acc k
          else if parse_recipients (ar_recipients rule) \<noteq> []
          then trigger_program rows rules (acc @ [(rule, vectors, parse_recipients (ar_recipients rule))]) k
          else reads (rule_email_recipients rule) (\<lambda>r. case r of
             Inl e \<Rightarrow> k (Raise e)
           | Inr recipients \<Rightarrow> trigger_program rows rules (acc @ [(rule, vectors, recipients)]) k))"

definition report_program ::
  "dispatch_env \<Rightarrow> string \<Rightarrow> string list \<Rightarrow> row list \<Rightarrow> dispatch_log \<Rightarrow> (nat res \<Rightarrow> dispatch_log \<Rightarrow> (db, 'a) prog) \<Rightarrow>
   trigger list res \<Rightarrow> (db, 'a) prog" where
  "report_program env n dates rows lg k t =
     (case t of
        Inl e \<Rightarrow> k (Raise e) lg
      | Inr triggered \<Rightarrow> (case send_groups env n rows dates (merge_by_recipients triggered) 0 lg of (r, lg') \<Rightarrow> k r lg'))"

definition evaluate_program ::
  "dispatch_env \<Rightarrow> string \<Rightarrow> string list \<Rightarrow> dispatch_log \<Rightarrow> (nat res \<Rightarrow> dispatch_log \<Rightarrow> (db, 'a) prog) \<Rightarrow>
   alert_rule list \<Rightarrow> (db, 'a) prog" where
  "evaluate_program env n dates lg k rules =
     (if rules = [] then k (Ok 0) lg
      else let call = risk_km_call n dates; lg1 = lg\<lparr>l_calls := l_calls lg @ [call]\<rparr> in
        case e_fetch env call of
          Inl e \<Rightarrow> k (Ok 0) lg1
        | Inr items \<Rightarrow>
            let rows = (case items of None \<Rightarrow> [] | Some rs \<Rightarrow> rs) in
            if rows = [] then k (Ok 0) lg1
            else trigger_program rows rules [] (report_program env n dates rows lg1 k))"

definition dispatch_program ::
  "dispatch_env \<Rightarrow> string \<Rightarrow> string list \<Rightarrow> dispatch_log \<Rightarrow> (nat res \<Rightarrow> dispatch_log \<Rightarrow> (db, 'a) prog) \<Rightarrow> (db, 'a) prog" where
  "dispatch_program env n dates lg k =
     (if dates = [] then k (Ok 0) lg
      else if n = [] then k (Ok 0) lg
      else reads (\<lambda>d. active_rules d n) (evaluate_program env n dates lg k))"

fun networks_program ::
  "dispatch_env \<Rightarrow> string list \<Rightarrow> string list \<Rightarrow> dispatch_log \<Rightarrow> (db, unit res \<times> dispatch_log) prog" where
  "networks_program env dates [] lg = Return (Ok (), lg)"
| "networks_program env dates (n # ns) lg =
     dispatch_program env n dates lg (\<lambda>r lg'. case r of
        Inl e \<Rightarrow> Return (Raise e, lg')
      | Inr cnt \<Rightarrow> networks_program env dates ns lg')"

definition run_program ::
  "listener_settings \<Rightarrow> pydate \<Rightarrow> bool \<Rightarrow> ('m \<Rightarrow> pipeline_event option) \<Rightarrow> dispatch_env \<Rightarrow> 'm \<Rightarrow>
   dispatch_log \<Rightarrow> (db, unit res \<times> dispatch_log) prog" where
  "run_program st today clients model_validate env msg lg =
     (case model_validate msg of
        None \<Rightarrow> Return (Ok (), lg)
      | Some event \<Rightarrow>
          if ev_status event \<noteq> ''completed'' then Return (Ok (), lg)
          else if ev_flow event \<noteq> s_grid_pipeline_flow st then Return (Ok (), lg)
          else if \<not> s_grid_alerts_enabled st then Return (Ok (), lg)
          else case horizon_dates today (ev_timestamp event) (s_grid_alert_horizon_days st) of
            Inl e \<Rightarrow> Return (Raise e, lg)
          | Inr dates \<Rightarrow>
              if \<not> clients then Return (Ok (), lg)
              else if is_pipeline_namespace st (ev_namespace event)
              then reads networks_with_active_rules (\<lambda>ns. networks_program env dates ns lg)
              else networks_program env dates [ev_namespace event] lg)"

section \<open>Alone\<close>

lemma run_trigger_program:
  "run_prog now (trigger_program rows rules acc k) d =
     run_prog now (k (bindR (triggered_rules d rows rules) (\<lambda>ts. Ok (acc @ ts)))) d"
proof (induction rules arbitrary: acc)
  case (Cons rule rules)
  have own: "rule_email_recipients rule d = Ok (parse_recipients (ar_recipients rule))"
    if "parse_recipients (ar_recipients rule) \<noteq> []"
    using that by (simp add: rule_email_recipients_def Let_def)
  show ?case
    using own by (auto simp: Cons.IH bindR_assoc split: sum.splits)
qed simp

lemma run_dispatch_program:
  "run_prog now (dispatch_program env n dates lg k) d =
     (case dispatch_grid_alerts env d n dates lg of (r, lg') \<Rightarrow> run_prog now (k r lg') d)"
  by (auto simp: dispatch_program_def evaluate_program_def report_program_def dispatch_grid_alerts_def
      run_trigger_program Let_def split: sum.splits option.splits prod.splits)

lemma run_networks_program:
  "run_prog now (networks_program env dates ns lg) d = (dispatch_networks env d dates ns lg, d)"
  by (induction ns arbitrary: lg) (auto simp: run_dispatch_program split: sum.splits prod.splits)

lemma run_run_program:
  "run_prog now (run_program st today clients model_validate env msg lg) d =
     (on_pipeline_run st today clients model_validate env d msg lg, d)"
  by (simp add: run_program_def on_pipeline_run_def run_networks_program split: option.splits sum.splits
      del: networks_program.simps dispatch_networks.simps)

section \<open>A run writes nothing\<close>

abbreviation writes_nothing :: "('d, 'a) prog \<Rightarrow> bool" where
  "writes_nothing \<equiv> all_effects (\<lambda>d d'. d' = d)"

lemma writes_nothing_reads: "writes_nothing (reads f k) \<longleftrightarrow> (\<forall>d. writes_nothing (k (f d)))"
  by (simp add: reads_def)

lemma trigger_writes_nothing: "(\<And>t. writes_nothing (k t)) \<Longrightarrow> writes_nothing (trigger_program rows rules acc k)"
  by (induction rules arbitrary: acc) (auto simp: writes_nothing_reads split: sum.splits)

lemma dispatch_writes_nothing:
  "(\<And>r lg'. writes_nothing (k r lg')) \<Longrightarrow> writes_nothing (dispatch_program env n dates lg k)"
  by (auto simp: dispatch_program_def evaluate_program_def report_program_def Let_def writes_nothing_reads
      intro!: trigger_writes_nothing split: sum.splits option.splits prod.splits)

lemma networks_write_nothing: "writes_nothing (networks_program env dates ns lg)"
  by (induction ns arbitrary: lg) (auto intro!: dispatch_writes_nothing split: sum.splits)

lemma run_writes_nothing: "writes_nothing (run_program st today clients model_validate env msg lg)"
  by (auto simp: run_program_def writes_nothing_reads networks_write_nothing split: option.splits sum.splits
      simp del: networks_program.simps)

section \<open>Runs beside requests\<close>

type_synonym run_answer = "unit res \<times> dispatch_log"

text \<open>One message of the broker, with the day it arrives and what the services answer to its run.\<close>

record 'm delivery =
  dl_today :: pydate
  dl_env :: dispatch_env
  dl_msg :: 'm

definition delivery_program ::
  "listener_settings \<Rightarrow> bool \<Rightarrow> ('m \<Rightarrow> pipeline_event option) \<Rightarrow> 'm delivery \<Rightarrow> (db, run_answer) prog" where
  "delivery_program st clients model_validate m =
     run_program st (dl_today m) clients model_validate (dl_env m) (dl_msg m) empty_log"

definition beside ::
  "db \<Rightarrow> flight list \<Rightarrow> (db, run_answer) prog list \<Rightarrow> (db, (failure + alerts_answer) + run_answer) system" where
  "beside d fs rs = (d, map (\<lambda>f. map_prog Inl (flight_program f)) fs @ map (map_prog Inr) rs)"

text \<open>A run relies on the requests touching their own users' rows only.\<close>

definition run_rely :: "(nat \<Rightarrow> string) \<Rightarrow> string list \<Rightarrow> nat \<Rightarrow> db \<Rightarrow> db \<Rightarrow> bool" where
  "run_rely own us i d d' \<longleftrightarrow> (if i < length us then flight_rely own us i d d'
     else anyone own d d' \<and> (\<forall>u. u \<notin> set us \<longrightarrow> others own u d d'))"

definition run_guar :: "(nat \<Rightarrow> string) \<Rightarrow> string list \<Rightarrow> nat \<Rightarrow> db \<Rightarrow> db \<Rightarrow> bool" where
  "run_guar own us i d d' \<longleftrightarrow> (if i < length us then flight_guar own us i d d' else d' = d)"

lemma others_trans: "others own u d d' \<Longrightarrow> others own u d' d'' \<Longrightarrow> others own u d d''"
  by (auto simp: others_def anyone_def intro: keeps_settings_trans)

lemma only_others: "only own w d d' \<Longrightarrow> u \<noteq> w \<Longrightarrow> others own u d d'"
  by (auto simp: only_def others_def anyone_def stays_def)

interpretation run_beside: rely_guarantee "run_rely own us" "run_guar own us" for own us
proof unfold_locales
  fix i d d' d''
  show "run_rely own us i d d"
    using flights.rely_refl by (simp add: run_rely_def others_def anyone_refl)
  show "run_rely own us i d d''" if "run_rely own us i d d'" "run_rely own us i d' d''"
    using that unfolding run_rely_def
    by (auto intro: anyone_trans others_trans flights.rely_trans split: if_splits)
next
  fix i j d d' assume g: "run_guar own us i d d'" "i \<noteq> j"
  show "run_rely own us j d d'"
  proof (cases "i < length us")
    case False
    with g show ?thesis
      using flights.rely_refl by (simp add: run_rely_def run_guar_def others_def anyone_refl)
  next
    case True
    with g have f: "flight_guar own us i d d'" by (simp add: run_guar_def)
    then have "others own u d d'" if "u \<notin> set us" for u
      using only_others that nth_mem by (metis flight_guar_def)
    with f g(2) show ?thesis
      using flights.guar_rely [OF f] by (auto simp: run_rely_def flight_guar_def dest: only_anyone)
  qed
qed

text \<open>\<open>Q j\<close> is what the run \<open>j\<close> is to answer.\<close>

definition beside_post ::
  "(nat \<Rightarrow> string) \<Rightarrow> db \<Rightarrow> flight list \<Rightarrow> (nat \<Rightarrow> run_answer \<Rightarrow> bool) \<Rightarrow> nat \<Rightarrow> (failure + alerts_answer) + run_answer \<Rightarrow>
   db \<Rightarrow> bool" where
  "beside_post own d0 fs Q i a d \<longleftrightarrow>
     (case a of Inl x \<Rightarrow> flight_post own d0 fs i x d | Inr y \<Rightarrow> Q (i - length fs) y)"

definition runs_ensure ::
  "(nat \<Rightarrow> string) \<Rightarrow> string list \<Rightarrow> (nat \<Rightarrow> run_answer \<Rightarrow> bool) \<Rightarrow> (db, run_answer) prog list \<Rightarrow> db \<Rightarrow> bool" where
  "runs_ensure own us Q rs d \<longleftrightarrow> (\<forall>j < length rs.
     ensures (run_rely own us (length us + j)) (\<lambda>d d'. d' = d) (\<lambda>a d. Q j a) (rs ! j) d)"

lemma beside_ensures:
  assumes "sane own d" "\<forall>f \<in> set fs. fresh_ids own d f" "runs_ensure own (map fl_sub fs) Q rs d"
  shows "run_beside.all_ensure own (map fl_sub fs) (beside_post own d fs Q) (beside d fs rs)"
  unfolding run_beside.all_ensure_def
proof (intro allI impI)
  let ?us = "map fl_sub fs"
  fix i assume i: "i < length (snd (beside d fs rs))"
  show "ensures (run_rely own ?us i) (run_guar own ?us i) (beside_post own d fs Q i) (snd (beside d fs rs) ! i)
      (fst (beside d fs rs))"
  proof (cases "i < length fs")
    case False
    then obtain j where j: "i = length fs + j" by (metis le_add_diff_inverse not_le)
    with i have lt: "j < length rs" by (simp add: beside_def)
    have "ensures (run_rely own ?us i) (run_guar own ?us i) (\<lambda>a d'. beside_post own d fs Q i (Inr a) d') (rs ! j) d"
      using assms(3) [unfolded runs_ensure_def, rule_format, OF lt] unfolding j length_map
      by (rule ensures_mono) (auto simp: run_guar_def beside_post_def)
    with j lt show ?thesis by (simp add: beside_def nth_append ensures_map)
  next
    case True
    have "ensures (flight_rely own ?us i) (flight_guar own ?us i) (flight_post own d fs i) (flight_program (fs ! i)) d"
      using flights_ensure [OF assms(1,2)] True by (simp add: flights.all_ensure_def in_flight_def)
    moreover have "run_rely own ?us i = flight_rely own ?us i" "run_guar own ?us i = flight_guar own ?us i"
      using True by (auto simp: run_rely_def run_guar_def fun_eq_iff)
    moreover have "(\<lambda>a. beside_post own d fs Q i (Inl a)) = flight_post own d fs i"
      by (simp add: beside_post_def fun_eq_iff)
    ultimately show ?thesis using True by (simp add: beside_def nth_append ensures_map)
  qed
qed

lemma beside_answers:
  assumes "sane own d" "\<forall>f \<in> set fs. fresh_ids own d f" "runs_ensure own (map fl_sub fs) Q rs d"
    and "prog_step\<^sup>*\<^sup>* (beside d fs rs) (d', ps)" "i < length fs + length rs" "ps ! i = Return a"
  shows "beside_post own d fs Q i a d'"
proof -
  obtain qs where b: "beside d fs rs = (d, qs)" "length qs = length fs + length rs" by (simp add: beside_def)
  show ?thesis
    using run_beside.answers [OF beside_ensures [OF assms(1-3), unfolded b] assms(4) [unfolded b] _ assms(6)] assms(5) b(2)
    by simp
qed

lemma quiet_runs_ensure: "\<forall>p \<in> set rs. writes_nothing p \<Longrightarrow> runs_ensure own us (\<lambda>_ _. True) rs d"
  by (simp add: runs_ensure_def effects_ensure)

lemma beside_sane:
  assumes "sane own d" "\<forall>f \<in> set fs. fresh_ids own d f" "\<forall>p \<in> set rs. writes_nothing p"
    and "prog_step\<^sup>*\<^sup>* (beside d fs rs) (d', ps)"
  shows "sane own d'"
proof -
  have e: "run_beside.all_ensure own (map fl_sub fs) (beside_post own d fs (\<lambda>_ _. True)) (beside d fs rs)"
    by (rule beside_ensures [OF assms(1,2) quiet_runs_ensure [OF assms(3)]])
  have "sane own (fst (d', ps))"
  proof (rule run_beside.always [OF assms(4) e])
    show "sane own (fst (beside d fs rs))" using assms(1) by (simp add: beside_def)
    show "sane own y" if "run_guar own (map fl_sub fs) i x y" "sane own x" for i x y
      using that by (auto simp: run_guar_def flight_guar_def only_def stays_def split: if_splits)
  qed
  then show ?thesis by simp
qed

section \<open>An example\<close>

text \<open>A request of another operator stands still while the run of one message passes.\<close>

definition bystander_request :: flight where
  "bystander_request = \<lparr>fl_fresh = 0, fl_user = (sample_user [''net''] [] False)\<lparr>ju_sub := ''bo''\<rparr>, fl_op = OpGet\<rparr>"

lemma run_prog_map: "run_prog now (map_prog f p) d = (f (fst (run_prog now p d)), snd (run_prog now p d))"
  by (induction p arbitrary: d rule: prog_tree_induct) auto

lemma sample_db_sane: "db_ok sample_db" "owned (\<lambda>_. ''op'') sample_db" "fresh_ids own sample_db bystander_request"
  by (simp_all add: sample_db_def empty_db_def db_ok_def table_ok_def owned_def fresh_ids_def bystander_request_def
      sample_rule_def check_rule_def)

definition sample_delivery :: "pipeline_event delivery" where
  "sample_delivery = \<lparr>dl_today = mk_date 2026 8 14, dl_env = sample_env, dl_msg = sample_event\<rparr>"

abbreviation sample_beside :: "(db, (failure + alerts_answer) + run_answer) system" where
  "sample_beside \<equiv> beside sample_db [bystander_request] (map (delivery_program sample_settings True Some) [sample_delivery])"

lemma sample_run_beside:
  "\<exists>ps lg' p. prog_step\<^sup>*\<^sup>* sample_beside (sample_db, ps) \<and> ps ! 1 = Return (Inr (Inr (), lg')) \<and>
     l_attempts lg' = [p] \<and> f_risk_types (p_facts p) = [''wind'']"
proof -
  let ?p = "delivery_program sample_settings True Some sample_delivery"
  obtain lg' p where "on_pipeline_run sample_settings (mk_date 2026 8 14) True Some sample_env sample_db sample_event empty_log =
      (Inr (), lg')" and p: "l_attempts lg' = [p]" "f_risk_types (p_facts p) = [''wind'']"
    using sample_run_report by blast
  then have "run_prog 0 (map_prog Inr ?p) sample_db =
      (Inr (Inr (), lg') :: (failure + alerts_answer) + run_answer, sample_db)"
    by (simp add: run_prog_map run_run_program delivery_program_def sample_delivery_def)
  from uninterrupted [of 1 "[map_prog Inl (flight_program bystander_request), map_prog Inr ?p]", OF _ _ this] p
  show ?thesis by (auto simp: beside_def)
qed

section \<open>Properties\<close>

text \<open>
  Run without interruption, the statements of a pipeline run do what the listener's handler
  does in one piece, and leave the database as it was.
\<close>

theorem run_alone:
  "run_prog now (run_program st today clients model_validate env msg lg) d =
     (on_pipeline_run st today clients model_validate env d msg lg, d)"
  by (rule run_run_program)

text \<open>
  C30: any number of pipeline runs beside any number of requests disturb none of them: the tables stay
  well formed, a request that is its user's only one is answered and leaves its user's rows as the
  specification of its operation says, and nothing goes on for ever: from every state an end is
  reached, although neither the rules nor the networks of a run are bounded.
\<close>

theorem run_disturbs_no_request:
  assumes "db_ok d" "owned own d" "\<forall>f \<in> set fs. fresh_ids own d f"
    and "prog_step\<^sup>*\<^sup>* (beside d fs (map (delivery_program st clients model_validate) ms)) (d', ps)"
  shows "db_ok d' \<and> owned own d' \<and>
    (\<forall>i < length fs. \<forall>a. unrivalled (map fl_sub fs) i \<and> ps ! i = Return (Inl a) \<longrightarrow>
       (\<exists>now. spec_op (fl_fresh (fs ! i)) now (fl_sub (fs ! i)) (resolve_dso_network (fl_user (fs ! i))) (fl_op (fs ! i))
          (view_of d (fl_sub (fs ! i))) = (a, view_of d' (fl_sub (fs ! i))))) \<and>
    (\<exists>s. prog_step\<^sup>*\<^sup>* (d', ps) s \<and> all_returned s) \<and>
    \<not> (\<exists>run. run 0 = (d', ps) \<and> (\<forall>n. prog_step (run n) (run (Suc n))))"
proof -
  let ?rs = "map (delivery_program st clients model_validate) ms"
  have sane: "sane own d" using assms(1,2) by (simp add: sane_def)
  have quiet: "\<forall>p \<in> set ?rs. writes_nothing p" by (simp add: delivery_program_def run_writes_nothing)
  have "\<exists>now. spec_op (fl_fresh (fs ! i)) now (fl_sub (fs ! i)) (resolve_dso_network (fl_user (fs ! i))) (fl_op (fs ! i))
      (view_of d (fl_sub (fs ! i))) = (a, view_of d' (fl_sub (fs ! i)))"
    if "i < length fs" "unrivalled (map fl_sub fs) i" "ps ! i = Return (Inl a)" for i a
    using beside_answers [OF sane assms(3) quiet_runs_ensure [OF quiet] assms(4) trans_less_add1 [OF that(1)] that(3)] that(2)
    by (simp add: beside_post_def flight_post_def as_specified_def)
  moreover have "sane own d'" by (rule beside_sane [OF sane assms(3) quiet assms(4)])
  ultimately show ?thesis
    using run_completes no_endless_run by (auto simp: sane_def)
qed

theorem run_disturbs_no_request_witness:
  "\<exists>ps lg' s. prog_step\<^sup>*\<^sup>* sample_beside (sample_db, ps) \<and> ps ! 1 = Return (Inr (Inr (), lg')) \<and>
     prog_step\<^sup>*\<^sup>* (sample_db, ps) s \<and> all_returned s"
proof -
  obtain ps lg' where run: "prog_step\<^sup>*\<^sup>* sample_beside (sample_db, ps)" and "ps ! 1 = Return (Inr (Inr (), lg'))"
    using sample_run_beside by blast
  have "\<forall>f \<in> set [bystander_request]. fresh_ids (\<lambda>_. ''op'') sample_db f" by (simp add: sample_db_sane)
  from run_disturbs_no_request [OF sample_db_sane(1,2) this run] run \<open>ps ! 1 = _\<close> show ?thesis by blast
qed

end
