(* ===== verification/InterleavedReports.thy ===== *)
theory InterleavedReports
  imports InterleavedRuns
begin

text \<open>
  What the reports of runs beside requests are worth. A run never sees two parts of the
  database at one moment, so its reports can be about a rule that is gone when they are sent;
  but an operator without a request in flight misses no alarm, and every report rests on a rule that
  was stored, active and addressed as it says, at some moment while the run was on its way.
\<close>

section \<open>An operator who stands still\<close>






















section \<open>Whatever a run sees\<close>

text \<open>
  \<open>seen D Q p\<close>: the answer of \<open>p\<close> is within \<open>Q\<close> if every database it meets is within \<open>D\<close>.
\<close>

definition seen :: "(db \<Rightarrow> bool) \<Rightarrow> ('a \<Rightarrow> bool) \<Rightarrow> (db, 'a) prog \<Rightarrow> bool" where
  "seen D Q p \<longleftrightarrow> (\<forall>d. ensures (\<lambda>_. D) (\<lambda>_ _. True) (\<lambda>a _. Q a) p d)"

lemma seen_return: "Q a \<Longrightarrow> seen D Q (Return a)"
  by (simp add: seen_def)

lemma seen_reads: "(\<And>d. D d \<Longrightarrow> seen D Q (k (f d))) \<Longrightarrow> seen D Q (reads f k)"
  by (simp add: seen_def reads_def)

text \<open>A trigger rests on an active rule of one moment and on the recipients of another.\<close>

definition rests :: "(db \<Rightarrow> bool) \<Rightarrow> string \<Rightarrow> row list \<Rightarrow> trigger \<Rightarrow> bool" where
  "rests D n rows t \<longleftrightarrow> (case t of (rule, vs, recipients) \<Rightarrow>
     (\<exists>d. D d \<and> rule \<in> set (active_rules d n)) \<and> (\<forall>v \<in> set vs. rule_fires rows rule v) \<and>
     (\<exists>d. D d \<and> rule_email_recipients rule d = Inr recipients))"

definition justified :: "(db \<Rightarrow> bool) \<Rightarrow> dispatch_env \<Rightarrow> string list \<Rightarrow> report_payload \<Rightarrow> bool" where
  "justified D env dates p \<longleftrightarrow> (\<forall>v \<in> set (f_risk_types (p_facts p)). \<exists>rows rule.
     e_fetch env (risk_km_call (f_network_id (p_facts p)) dates) = Inr (Some rows) \<and> rule_fires rows rule v \<and>
     (\<exists>d. D d \<and> rule \<in> set (active_rules d (f_network_id (p_facts p)))) \<and>
     (\<exists>d. D d \<and> nudge_user rule d = Inr (p_user_id p)))"

definition all_justified :: "(db \<Rightarrow> bool) \<Rightarrow> dispatch_env \<Rightarrow> string list \<Rightarrow> dispatch_log \<Rightarrow> bool" where
  "all_justified D env dates lg \<longleftrightarrow> (\<forall>p \<in> set (l_attempts lg). justified D env dates p)"

lemma sent_justified:
  assumes "send_groups env n rows dates (merge_by_recipients ts) k lg = (r, lg')"
    and "e_fetch env (risk_km_call n dates) = Inr (Some rows)" "\<forall>t \<in> set ts. rests D n rows t"
    and "all_justified D env dates lg"
  shows "all_justified D env dates lg'"
  unfolding all_justified_def
proof
  fix p assume "p \<in> set (l_attempts lg')"
  moreover have "l_attempts lg' = l_attempts lg @ drop (length (l_attempts lg)) (l_attempts lg')"
    using send_groups_attempts [of env n rows dates "merge_by_recipients ts" k lg, unfolded assms(1)] by simp
  ultimately consider (old) "p \<in> set (l_attempts lg)" | (new) "p \<in> set (drop (length (l_attempts lg)) (l_attempts lg'))"
    by (metis UnE set_append)
  then show "justified D env dates p"
  proof cases
    case old
    with assms(4) show ?thesis by (simp add: all_justified_def)
  next
    case new
    show ?thesis
      unfolding justified_def
    proof
      fix v assume "v \<in> set (f_risk_types (p_facts p))"
      with sent_sound [OF assms(1) new] obtain rule vs recipients where
        t: "(rule, vs, recipients) \<in> set ts" "v \<in> set vs"
        and p: "p_user_id p = trigger_user (rule, vs, recipients)" "f_network_id (p_facts p) = n" by blast
      from assms(3) t(1) have "rests D n rows (rule, vs, recipients)" by blast
      with t(2) p assms(2) show "\<exists>rows rule. e_fetch env (risk_km_call (f_network_id (p_facts p)) dates) = Inr (Some rows) \<and>
          rule_fires rows rule v \<and> (\<exists>d. D d \<and> rule \<in> set (active_rules d (f_network_id (p_facts p)))) \<and>
          (\<exists>d. D d \<and> nudge_user rule d = Inr (p_user_id p))"
        by (fastforce simp: rests_def nudge_user_def trigger_user_def)
    qed
  qed
qed

lemma seen_trigger:
  assumes rules: "\<forall>r \<in> set rules. \<exists>d. D d \<and> r \<in> set (active_rules d n)"
    and acc: "\<forall>t \<in> set acc. rests D n rows t"
    and k: "\<And>e. seen D Q (k (Raise e))" "\<And>ts. \<forall>t \<in> set ts. rests D n rows t \<Longrightarrow> seen D Q (k (Ok ts))"
  shows "seen D Q (trigger_program rows rules acc k)"
  using rules acc
proof (induction rules arbitrary: acc)
  case Nil
  then show ?case by (simp add: k)
next
  case (Cons r rules)
  show ?case
  proof (cases "triggered_vectors rows (ar_threshold r) (rule_risk_types r)")
    case (Inl e)
    then show ?thesis by (simp add: k)
  next
    case (Inr vectors)
    have next_rule: "seen D Q (trigger_program rows rules (acc @ [(r, vectors, rc)]) k)"
      if "D d" "rule_email_recipients r d = Inr rc" for rc d
    proof (rule Cons.IH)
      have "rests D n rows (r, vectors, rc)"
        using Cons.prems(1) that triggered_vectors_Ok [OF Inr] by (auto simp: rests_def rule_fires_def)
      with Cons.prems(2) show "\<forall>t \<in> set (acc @ [(r, vectors, rc)]). rests D n rows t" by simp
    qed (use Cons.prems(1) in simp)
    show ?thesis
    proof (cases "parse_recipients (ar_recipients r) = []")
      case True
      have "seen D Q (reads (rule_email_recipients r) (\<lambda>x. case x of Inl e \<Rightarrow> k (Raise e)
          | Inr rc \<Rightarrow> trigger_program rows rules (acc @ [(r, vectors, rc)]) k))"
        by (rule seen_reads) (auto simp: k next_rule split: sum.splits)
      with Inr True Cons show ?thesis by simp
    next
      case own: False
      from Cons.prems(1) obtain d where "D d" by auto
      from next_rule [OF this] own Inr Cons show ?thesis by (simp add: rule_email_recipients_def Let_def)
    qed
  qed
qed

lemma seen_dispatch:
  assumes lg: "all_justified D env dates lg"
    and k: "\<And>r lg'. all_justified D env dates lg' \<Longrightarrow> seen D Q (k r lg')"
  shows "seen D Q (dispatch_program env n dates lg k)"
proof -
  let ?lg1 = "lg\<lparr>l_calls := l_calls lg @ [risk_km_call n dates]\<rparr>"
  have lg1: "all_justified D env dates ?lg1" using lg by (simp add: all_justified_def)
  have trig: "seen D Q (trigger_program rows rules [] (report_program env n dates rows ?lg1 k))"
    if fetch: "e_fetch env (risk_km_call n dates) = Inr (Some rows)"
      and rules: "\<forall>r \<in> set rules. \<exists>d. D d \<and> r \<in> set (active_rules d n)" for rows rules
  proof (rule seen_trigger [OF rules])
    show "seen D Q (report_program env n dates rows ?lg1 k (Inl e))" for e
      by (simp add: report_program_def k lg1)
    show "seen D Q (report_program env n dates rows ?lg1 k (Inr ts))" if "\<forall>t \<in> set ts. rests D n rows t" for ts
      using sent_justified [OF _ fetch that lg1] by (auto simp: report_program_def k split: prod.splits)
  qed simp
  have "seen D Q (reads (\<lambda>d. active_rules d n) (evaluate_program env n dates lg k))"
  proof (rule seen_reads)
    fix d assume "D d"
    then have "\<forall>r \<in> set (active_rules d n). \<exists>d. D d \<and> r \<in> set (active_rules d n)" by blast
    from trig [OF _ this] show "seen D Q (evaluate_program env n dates lg k (active_rules d n))"
      by (auto simp: evaluate_program_def Let_def k lg lg1 split: sum.splits option.splits)
  qed
  with k [OF lg] show ?thesis by (simp add: dispatch_program_def)
qed

fun answer_justified :: "(db \<Rightarrow> bool) \<Rightarrow> dispatch_env \<Rightarrow> string list \<Rightarrow> unit res \<times> dispatch_log \<Rightarrow> bool" where
  "answer_justified D env dates (r, lg) \<longleftrightarrow> all_justified D env dates lg"

lemma seen_networks:
  "all_justified D env dates lg \<Longrightarrow> seen D (answer_justified D env dates) (networks_program env dates ns lg)"
proof (induction ns arbitrary: lg)
  case (Cons n ns)
  then show ?case by (auto intro!: seen_dispatch seen_return split: sum.splits)
qed (simp add: seen_return)

lemma seen_mono: "seen D Q p \<Longrightarrow> (\<And>a. Q a \<Longrightarrow> Q' a) \<Longrightarrow> seen D Q' p"
  unfolding seen_def by (rule allI, erule allE, erule ensures_mono) simp_all

definition run_justified ::
  "listener_settings \<Rightarrow> ('m \<Rightarrow> pipeline_event option) \<Rightarrow> (db \<Rightarrow> bool) \<Rightarrow> 'm delivery \<Rightarrow> unit res \<times> dispatch_log \<Rightarrow> bool" where
  "run_justified st model_validate D m a \<longleftrightarrow> (\<forall>p \<in> set (l_attempts (snd a)). \<exists>event dates.
     model_validate (dl_msg m) = Some event \<and>
     horizon_dates (dl_today m) (ev_timestamp event) (s_grid_alert_horizon_days st) = Inr dates \<and>
     justified D (dl_env m) dates p)"

lemma seen_run: "seen D (run_justified st model_validate D m) (delivery_program st clients model_validate m)"
proof (cases "\<exists>event dates. model_validate (dl_msg m) = Some event \<and>
    horizon_dates (dl_today m) (ev_timestamp event) (s_grid_alert_horizon_days st) = Inr dates")
  case True
  then obtain event dates where e: "model_validate (dl_msg m) = Some event"
    "horizon_dates (dl_today m) (ev_timestamp event) (s_grid_alert_horizon_days st) = Inr dates" by blast
  let ?D = "answer_justified D (dl_env m) dates"
  have lg: "all_justified D (dl_env m) dates empty_log" by (simp add: all_justified_def empty_log_def)
  have "seen D ?D (reads networks_with_active_rules (\<lambda>ns. networks_program (dl_env m) dates ns empty_log))"
    by (rule seen_reads) (rule seen_networks [OF lg])
  with e lg have "seen D ?D (delivery_program st clients model_validate m)"
    by (auto simp: delivery_program_def run_program_def seen_networks seen_return simp del: networks_program.simps)
  then show ?thesis
    by (rule seen_mono) (use e in \<open>auto simp: run_justified_def all_justified_def\<close>)
next
  case False
  then show ?thesis
    by (auto simp: delivery_program_def run_program_def run_justified_def empty_log_def intro!: seen_return
        split: option.splits sum.splits)
qed

section \<open>Properties\<close>



text \<open>
  C11: no false alarm beside requests: whatever is changed while runs are on their way, every hazard
  in a report rests on a rule that was stored, active and for that network at some moment of the
  interleaving, that watches the hazard and whose threshold some fetched row of its network reaches; and
  the report is addressed as the rule and the settings of some moment say.
\<close>

theorem run_reports_justified:
  assumes "prog_step\<^sup>*\<^sup>* (beside d fs (map (delivery_program st clients model_validate) ms)) (d', ps)"
    and "j < length ms" "ps ! (length fs + j) = Return (Inr (r, lg'))"
    and "p \<in> set (l_attempts lg')" "v \<in> set (f_risk_types (p_facts p))"
  shows "\<exists>event dates rows rule row km d0 qs0 d1 qs1.
    model_validate (dl_msg (ms ! j)) = Some event \<and>
    horizon_dates (dl_today (ms ! j)) (ev_timestamp event) (s_grid_alert_horizon_days st) = Inr dates \<and>
    e_fetch (dl_env (ms ! j)) (risk_km_call (f_network_id (p_facts p)) dates) = Inr (Some rows) \<and>
    row \<in> set rows \<and> py_get row ''risk_vector'' = VStr v \<and> km_at_or_above row (ar_threshold rule) = Inr km \<and> float_pos km \<and>
    v \<in> set (rule_risk_types rule) \<and> rule \<in> set (db_rules d0) \<and> ar_active rule = Some True \<and>
    ar_network_id rule = f_network_id (p_facts p) \<and> nudge_user rule d1 = Inr (p_user_id p) \<and>
    prog_step\<^sup>*\<^sup>* (beside d fs (map (delivery_program st clients model_validate) ms)) (d0, qs0) \<and>
    prog_step\<^sup>*\<^sup>* (d0, qs0) (d', ps) \<and>
    prog_step\<^sup>*\<^sup>* (beside d fs (map (delivery_program st clients model_validate) ms)) (d1, qs1) \<and>
    prog_step\<^sup>*\<^sup>* (d1, qs1) (d', ps)"
proof -
  let ?s = "beside d fs (map (delivery_program st clients model_validate) ms)" and ?m = "ms ! j"
  define D where "D = (\<lambda>d0. \<exists>qs. prog_step\<^sup>*\<^sup>* ?s (d0, qs) \<and> prog_step\<^sup>*\<^sup>* (d0, qs) (d', ps))"
  have i: "length fs + j < length (snd ?s)" "snd ?s ! (length fs + j) = map_prog Inr (delivery_program st clients model_validate ?m)"
    using assms(2) by (simp_all add: beside_def nth_append)
  have D: "D (fst u)" if "prog_step\<^sup>*\<^sup>* ?s u" "prog_step\<^sup>*\<^sup>* u (d', ps)" for u
    using that unfolding D_def by (metis prod.collapse)
  let ?Q = "\<lambda>a _. case a of Inl _ \<Rightarrow> True | Inr y \<Rightarrow> run_justified st model_validate D ?m y"
  have "ensures (\<lambda>_. D) (\<lambda>_ _. True) ?Q (snd ?s ! (length fs + j)) (fst ?s)"
    using seen_run [of D st model_validate ?m clients] by (simp add: i(2) ensures_map seen_def)
  from seen_answer [OF assms(1) i(1) this D, of "Inr (r, lg')"] assms(3)
  have "run_justified st model_validate D ?m (r, lg')" by simp
  with assms(4) obtain event dates where e: "model_validate (dl_msg ?m) = Some event"
    "horizon_dates (dl_today ?m) (ev_timestamp event) (s_grid_alert_horizon_days st) = Inr dates"
    and "justified D (dl_env ?m) dates p" by (auto simp: run_justified_def)
  with assms(5) show ?thesis
    unfolding justified_def D_def active_rules_def rule_fires_def row_hits_def by fastforce
qed

theorem run_reports_justified_witness:
  "\<exists>ps lg' p rule d0 qs0. prog_step\<^sup>*\<^sup>* sample_beside (sample_db, ps) \<and> ps ! 1 = Return (Inr (Inr (), lg')) \<and>
     p \<in> set (l_attempts lg') \<and> rule \<in> set (db_rules d0) \<and> ''wind'' \<in> set (rule_risk_types rule) \<and>
     prog_step\<^sup>*\<^sup>* sample_beside (d0, qs0) \<and> prog_step\<^sup>*\<^sup>* (d0, qs0) (sample_db, ps)"
proof -
  obtain ps lg' p where run: "prog_step\<^sup>*\<^sup>* sample_beside (sample_db, ps)"
    and ans: "ps ! (length [bystander_request] + 0) = Return (Inr (Inr (), lg'))"
    and p: "p \<in> set (l_attempts lg')" "''wind'' \<in> set (f_risk_types (p_facts p))" using sample_run_beside by auto
  have "0 < length [sample_delivery]" by simp
  from run_reports_justified [OF run this ans p] obtain rule d0 qs0 where
    "rule \<in> set (db_rules d0)" "''wind'' \<in> set (rule_risk_types rule)"
    "prog_step\<^sup>*\<^sup>* sample_beside (d0, qs0)" "prog_step\<^sup>*\<^sup>* (d0, qs0) (sample_db, ps)" by blast
  moreover have "ps ! 1 = Return (Inr (Inr (), lg'))" using ans by simp
  ultimately show ?thesis using run p(1) by (intro exI conjI)
qed

end
