(* ===== verification/InterleavedEdits.thy ===== *)
theory InterleavedEdits
  imports Interleaving
begin

text \<open>
  Edits of one rule by overlapping requests. A confirmed PATCH lasts beside any requests, as long as no
  other request of its user deletes the rule or names a field that it names; and where two PATCHes
  name the same fields, as the form of the page does, they can be mixed.
\<close>

section \<open>What a request does to one rule\<close>

text \<open>Two versions of a rule agree on the fields that a PATCH names, or on those it does not.\<close>

definition named :: "rule_update \<Rightarrow> alert_rule \<Rightarrow> alert_rule \<Rightarrow> bool" where
  "named b r r' \<longleftrightarrow>
     (ru_risk_types b \<noteq> Unset \<longrightarrow> ar_risk_types r' = ar_risk_types r) \<and>
     (ru_threshold b \<noteq> Unset \<longrightarrow> ar_threshold r' = ar_threshold r) \<and>
     (ru_recipients b \<noteq> Unset \<longrightarrow> ar_recipients r' = ar_recipients r) \<and>
     (ru_active b \<noteq> Unset \<longrightarrow> ar_active r' = ar_active r)"

definition unnamed :: "rule_update \<Rightarrow> alert_rule \<Rightarrow> alert_rule \<Rightarrow> bool" where
  "unnamed b r r' \<longleftrightarrow>
     (ru_risk_types b = Unset \<longrightarrow> ar_risk_types r' = ar_risk_types r) \<and>
     (ru_threshold b = Unset \<longrightarrow> ar_threshold r' = ar_threshold r) \<and>
     (ru_recipients b = Unset \<longrightarrow> ar_recipients r' = ar_recipients r) \<and>
     (ru_active b = Unset \<longrightarrow> ar_active r' = ar_active r)"

definition apart :: "rule_update \<Rightarrow> rule_update \<Rightarrow> bool" where
  "apart b b' \<longleftrightarrow>
     (ru_risk_types b = Unset \<or> ru_risk_types b' = Unset) \<and> (ru_threshold b = Unset \<or> ru_threshold b' = Unset) \<and>
     (ru_recipients b = Unset \<or> ru_recipients b' = Unset) \<and> (ru_active b = Unset \<or> ru_active b' = Unset)"

text \<open>The requests that leave the fields of a PATCH of rule \<open>k\<close> alone.\<close>

definition aside :: "nat \<Rightarrow> rule_update \<Rightarrow> alerts_op \<Rightarrow> bool" where
  "aside k b op \<longleftrightarrow> (case op of
     OpDelete k' \<Rightarrow> k' \<noteq> k
   | OpUpdate k' b' \<Rightarrow> k' \<noteq> k \<or> apart b b'
   | _ \<Rightarrow> True)"

lemma named_refl [simp]: "named b r r"
  by (simp add: named_def)

lemma named_trans: "named b r r' \<Longrightarrow> named b r' r'' \<Longrightarrow> named b r r''"
  by (auto simp: named_def)

lemma unnamed_apart: "unnamed b' r r' \<Longrightarrow> apart b b' \<Longrightarrow> named b r r'"
  by (auto simp: named_def unnamed_def apart_def)

text \<open>What a statement of an operation does to the rule \<open>k\<close> that is there.\<close>

definition touches :: "alerts_op \<Rightarrow> nat \<Rightarrow> db \<Rightarrow> db \<Rightarrow> bool" where
  "touches op k d d' \<longleftrightarrow> (\<forall>r. lookup_row ar_id (db_rules d) k = Some r \<longrightarrow>
     (case op of
        OpDelete k' \<Rightarrow> k' = k \<or> lookup_row ar_id (db_rules d') k = Some r
      | OpUpdate k' b \<Rightarrow> (\<exists>r'. lookup_row ar_id (db_rules d') k = Some r' \<and> (if k' = k then unnamed b r r' else r' = r))
      | _ \<Rightarrow> lookup_row ar_id (db_rules d') k = Some r))"

lemma touches_same: "db_rules d' = db_rules d \<Longrightarrow> touches op k d d'"
  by (auto simp: touches_def unnamed_def split: alerts_op.splits)

lemma changed_unnamed: "unnamed b r (update_rule (changed_rule b snap) r)"
  by (auto simp: unnamed_def update_rule_def changed_rule_def changed_def upd_def split: field_update.splits)

lemma replaced_lookup: "replace_row ar_id check_rule new rows = Inr rows' \<Longrightarrow> lookup_row ar_id rows' k =
    (if k = ar_id new \<and> lookup_row ar_id rows k \<noteq> None then Some new else lookup_row ar_id rows k)"
  by (simp add: replace_row_Ok lookup_row_map)

lemma commit_rule_update_touches:
  assumes "commit_rule_update b snap now d = (x, d')" "ar_id snap = k'"
  shows "touches (OpUpdate k' b) k d d'"
proof -
  let ?c = "changed_rule b snap"
  have "touches (OpUpdate k' b) k d (d\<lparr>db_rules := rows\<rparr>)"
    if cur: "lookup_row ar_id (db_rules d) k' = Some cur"
      and rows: "replace_row ar_id check_rule ((update_rule ?c cur)\<lparr>ar_updated_at := now\<rparr>) (db_rules d) = Inr rows" for cur rows
  proof -
    let ?new = "(update_rule ?c cur)\<lparr>ar_updated_at := now\<rparr>"
    have id: "ar_id ?new = k'" using lookup_row_Some [OF cur] by (simp add: update_rule_def)
    note replaced_lookup [OF rows, of k, unfolded id]
    moreover have "unnamed b cur ?new" using changed_unnamed [of b cur snap] by (simp add: unnamed_def)
    ultimately show ?thesis using cur by (auto simp: touches_def)
  qed
  with assms show ?thesis
    by (auto simp: commit_rule_update_def Let_def touches_same split: if_splits option.splits sum.splits)
qed

lemma commit_new_rule_touches: "commit_new_rule fresh sub n b' now d = (x, d') \<Longrightarrow> touches (OpCreate b) k d d'"
  by (auto simp: commit_new_rule_def touches_same insert_row_Ok touches_def lookup_row_snoc split: sum.splits)

lemma commit_settings_rules:
  "commit_new_settings b u now d = (x, d') \<Longrightarrow> db_rules d' = db_rules d"
  "commit_settings_update b s now d = (x, d') \<Longrightarrow> db_rules d' = db_rules d"
  by (auto simp: commit_new_settings_def commit_settings_update_def Let_def insert_settings_Inr
      split: sum.splits option.splits if_splits)

lemma own_rule_id: "own_rule k user d = Inr (Some rule) \<Longrightarrow> ar_id rule = k"
proof -
  let ?rows = "filter (\<lambda>r. ar_id r = k \<and> ar_user_id r = ju_sub user) (db_rules d)"
  assume "own_rule k user d = Inr (Some rule)"
  then have "?rows = [rule]" by (auto simp: own_rule_def scalar_one_or_none_def split: list.splits)
  then have "rule \<in> set ?rows" by simp
  then show ?thesis by simp
qed

lemma refreshes_touch: "all_effects (touches op k) (then_refresh (\<lambda>_. refresh_rule k') x)"
  "all_effects (touches op k) (then_refresh refresh_settings y)"
  by (auto simp: then_refresh_def refresh_rule_def refresh_settings_def touches_same
      intro!: all_effects_reads split: sum.splits)

lemma with_own_rule_effects:
  assumes "\<And>d. T d d" "\<And>rule. ar_id rule = k \<Longrightarrow> all_effects T (f rule)"
  shows "all_effects T (with_own_rule k user f)"
  unfolding with_own_rule_def
proof (rule all_effects_reads [OF assms(1)])
  fix d
  show "all_effects T (case own_rule k user d of
       Inl e \<Rightarrow> Return (Inl (Crash e))
     | Inr None \<Rightarrow> Return (Inl (HttpError 404 ''Alert rule not found''))
     | Inr (Some rule) \<Rightarrow> f rule)"
    using own_rule_id [of k user d] assms(2) by (auto split: sum.splits option.splits)
qed

lemma op_touches: "all_effects (touches op k) (op_program fresh user op)"
proof (cases op)
  case (OpUpdate k' b)
  have "all_effects (touches op k) (update_program k' b user)"
    unfolding update_program_def
  proof (rule with_own_rule_effects)
    show "all_effects (touches op k) (writes (commit_rule_update b rule) (then_refresh (\<lambda>_. refresh_rule (ar_id rule))))"
      if "ar_id rule = k'" for rule
      by (rule all_effects_writes) (auto simp: OpUpdate refreshes_touch intro: commit_rule_update_touches [OF _ that])
  qed (simp add: touches_same)
  with OpUpdate show ?thesis by simp
next
  case (OpDelete k')
  have "all_effects (touches op k) (delete_program k' user)"
    unfolding delete_program_def
    by (rule with_own_rule_effects, simp add: touches_same, rule all_effects_writes)
      (auto simp: OpDelete commit_rule_delete_def touches_def lookup_row_delete split: if_splits)
  with OpDelete show ?thesis by simp
qed (auto simp: list_program_def create_program_def get_settings_program_def put_settings_program_def touches_same
    refreshes_touch commit_settings_rules intro!: all_effects_reads all_effects_writes commit_new_rule_touches
    split: sum.splits option.splits)

section \<open>A confirmed edit lasts\<close>

definition lasting :: "nat \<Rightarrow> rule_update \<Rightarrow> db \<Rightarrow> db \<Rightarrow> bool" where
  "lasting k b d d' \<longleftrightarrow> (\<forall>r. lookup_row ar_id (db_rules d) k = Some r \<longrightarrow>
     (\<exists>r'. lookup_row ar_id (db_rules d') k = Some r' \<and> named b r r'))"

lemma lasting_refl: "lasting k b d d"
  by (simp add: lasting_def)

lemma lasting_trans: "lasting k b d d' \<Longrightarrow> lasting k b d' d'' \<Longrightarrow> lasting k b d d''"
  unfolding lasting_def by (meson named_trans)

lemma touches_lasting: "touches op k d d' \<Longrightarrow> aside k b op \<Longrightarrow> lasting k b d d'"
  by (fastforce simp: touches_def aside_def lasting_def intro: unnamed_apart split: alerts_op.splits if_splits)

lemma stays_lasting:
  assumes "stays own w d d'" "sane own d" "own k \<noteq> w"
  shows "lasting k b d d'"
  unfolding lasting_def
proof (intro allI impI)
  fix r assume look: "lookup_row ar_id (db_rules d) k = Some r"
  have r: "r \<in> set (db_rules d)" "ar_id r = k" using lookup_row_Some [OF look] by auto
  with assms have "view_of d' (ar_user_id r) = view_of d (ar_user_id r)" by (auto simp: stays_def sane_def owned_def)
  with r have "r \<in> set (db_rules d')" by (auto simp: view_of_def filter_eq_iff dest!: arg_cong [where f = set])
  then have "lookup_row ar_id (db_rules d') k = Some r"
    using lookup_member [of d' r] assms(1) r(2) by (simp add: stays_def sane_def)
  then show "\<exists>r'. lookup_row ar_id (db_rules d') k = Some r' \<and> named b r r'" by simp
qed

text \<open>The PATCH relies on the fields it names; its answer is that they have its values.\<close>

definition edit_rely :: "(nat \<Rightarrow> string) \<Rightarrow> nat \<Rightarrow> rule_update \<Rightarrow> db \<Rightarrow> db \<Rightarrow> bool" where
  "edit_rely own k b d d' \<longleftrightarrow> anyone own d d' \<and> (sane own d \<longrightarrow> lasting k b d d')"

definition edited :: "nat \<Rightarrow> rule_update \<Rightarrow> db \<Rightarrow> bool" where
  "edited k b d \<longleftrightarrow> (\<exists>r. lookup_row ar_id (db_rules d) k = Some r \<and> update_rule b r = r)"

definition edit_post :: "nat \<Rightarrow> rule_update \<Rightarrow> failure + alerts_answer \<Rightarrow> db \<Rightarrow> bool" where
  "edit_post k b a d \<longleftrightarrow> isl a \<or> edited k b d"

lemma edited_named: "update_rule b r = r \<Longrightarrow> named b r r' \<Longrightarrow> update_rule b r' = r'"
  by (cases r; cases r') (auto simp: update_rule_def named_def upd_def split: field_update.splits)

lemma edited_stable: "edited k b d \<Longrightarrow> lasting k b d d' \<Longrightarrow> edited k b d'"
  unfolding edited_def lasting_def using edited_named by blast

lemma update_rule_same: "update_rule b r = r \<longleftrightarrow>
    upd (ru_risk_types b) (ar_risk_types r) = ar_risk_types r \<and> upd (ru_threshold b) (ar_threshold r) = ar_threshold r \<and>
    upd (ru_recipients b) (ar_recipients r) = ar_recipients r \<and> upd (ru_active b) (ar_active r) = ar_active r"
  by (cases r) (auto simp: update_rule_def)

lemma upd_changed_twice: "(f \<noteq> Unset \<longrightarrow> c = old) \<Longrightarrow> upd f (upd (changed f old) c) = upd (changed f old) c"
  by (cases f) (auto simp: changed_def upd_def)

lemma changed_edits:
  assumes "named b snap cur"
  shows "update_rule b ((update_rule (changed_rule b snap) cur)\<lparr>ar_updated_at := now\<rparr>) =
    (update_rule (changed_rule b snap) cur)\<lparr>ar_updated_at := now\<rparr>"
proof -
  let ?r = "(update_rule (changed_rule b snap) cur)\<lparr>ar_updated_at := now\<rparr>"
  have "ar_risk_types ?r = upd (changed (ru_risk_types b) (ar_risk_types snap)) (ar_risk_types cur)"
    "ar_threshold ?r = upd (changed (ru_threshold b) (ar_threshold snap)) (ar_threshold cur)"
    "ar_recipients ?r = upd (changed (ru_recipients b) (ar_recipients snap)) (ar_recipients cur)"
    "ar_active ?r = upd (changed (ru_active b) (ar_active snap)) (ar_active cur)"
    by (simp_all add: update_rule_def changed_rule_def)
  with assms show ?thesis by (simp add: update_rule_same named_def upd_changed_twice)
qed

lemma commit_edits:
  assumes "named b snap cur" "lookup_row ar_id (db_rules d) (ar_id snap) = Some cur"
    and "commit_rule_update b snap now d = (Inr (), d')"
  shows "edited (ar_id snap) b d'"
proof (cases "changed_rule b snap = no_rule_update")
  case True
  then have "update_rule b snap = snap" by (simp add: changed_rule_none)
  then have "update_rule b cur = cur" by (rule edited_named [OF _ assms(1)])
  moreover have "d' = d" using True assms(3) by (simp add: commit_rule_update_def)
  ultimately show ?thesis unfolding edited_def using assms(2) by blast
next
  case False
  let ?new = "(update_rule (changed_rule b snap) cur)\<lparr>ar_updated_at := now\<rparr>"
  have id: "ar_id ?new = ar_id snap" using lookup_row_Some [OF assms(2)] by (simp add: update_rule_def)
  obtain rows where rows: "replace_row ar_id check_rule ?new (db_rules d) = Inr rows" and d': "d' = d\<lparr>db_rules := rows\<rparr>"
    using assms(2,3) False by (auto simp: commit_rule_update_def Let_def split: sum.splits)
  from replaced_lookup [OF rows, of "ar_id snap", unfolded id] assms(2)
  have "lookup_row ar_id (db_rules d') (ar_id snap) = Some ?new" by (simp add: d')
  with changed_edits [OF assms(1)] show ?thesis unfolding edited_def by blast
qed


lemma refresh_edits:
  assumes "sane own d" "edited k b d"
  shows "ensures (edit_rely own k b) (\<lambda>_ _. True) (edit_post k b) (refresh_rule k') d"
  unfolding refresh_rule_def
proof (rule ensures_reads)
  fix d' assume "edit_rely own k b d d'"
  with assms have "sane own d'" "edited k b d'" by (auto simp: edit_rely_def anyone_def intro: edited_stable)
  then show "ensures (edit_rely own k b) (\<lambda>_ _. True) (edit_post k b) (Return (case lookup_row ar_id (db_rules d') k' of
      None \<Rightarrow> Inl (Crash InvalidRequestError) | Some r \<Rightarrow> crash (bindR (rule_response_of r) (\<lambda>x. Ok (OneRule x))))) d'"
    by (auto simp: edit_rely_def edit_post_def intro: edited_stable)
qed simp

lemma patch_edits:
  assumes "sane own d"
  shows "ensures (edit_rely own k b) (\<lambda>_ _. True) (edit_post k b) (update_program k b user) d"
  unfolding update_program_def with_own_rule_def
proof (rule ensures_reads)
  let ?ens = "ensures (edit_rely own k b) (\<lambda>_ _. True) (edit_post k b)"
  fix d' assume r: "edit_rely own k b d d'"
  with assms have d': "sane own d'" by (simp add: edit_rely_def anyone_def)
  show "?ens (case own_rule k user d' of
       Inl e \<Rightarrow> Return (Inl (Crash e))
     | Inr None \<Rightarrow> Return (Inl (HttpError 404 ''Alert rule not found''))
     | Inr (Some rule) \<Rightarrow> writes (commit_rule_update b rule) (then_refresh (\<lambda>_. refresh_rule (ar_id rule)))) d'"
  proof (cases "\<exists>rule. own_rule k user d' = Inr (Some rule)")
    case False
    then show ?thesis by (auto simp: edit_post_def split: sum.splits option.splits)
  next
    case True
    then obtain rule where own: "own_rule k user d' = Inr (Some rule)" by blast
    have ok: "db_ok d'" using d' by (simp add: sane_def)
    note mem = own_rule_Some [OF ok own]
    have look: "lookup_row ar_id (db_rules d') k = Some rule" using lookup_member [OF ok] mem by auto
    have "?ens (writes (commit_rule_update b rule) (then_refresh (\<lambda>_. refresh_rule (ar_id rule)))) d'"
    proof (rule ensures_writes)
      fix d1 now x d2 assume r1: "edit_rely own k b d' d1" and c: "commit_rule_update b rule now d1 = (x, d2)"
      have d1: "sane own d1" using r1 d' by (simp add: edit_rely_def anyone_def)
      have "sane own d2" by (rule staysD [OF conjunct1 [OF rule_update_stays [OF d1 refl c]]])
      moreover obtain cur where "lookup_row ar_id (db_rules d1) k = Some cur" "named b rule cur"
        using r1 d' look by (auto simp: edit_rely_def lasting_def)
      then have "edited k b d2" if "x = Inr ()" using commit_edits [of b rule cur d1 now d2] c that mem by simp
      ultimately show "True \<and> ?ens (then_refresh (\<lambda>_. refresh_rule (ar_id rule)) x) d2"
        by (cases x) (auto simp: then_refresh_def edit_post_def intro: refresh_edits)
    qed
    with own show ?thesis by simp
  qed
qed simp

text \<open>The PATCH \<open>i\<close> among requests: the others stay with their users and off its fields.\<close>

definition beside_rely :: "(nat \<Rightarrow> string) \<Rightarrow> nat \<Rightarrow> rule_update \<Rightarrow> nat \<Rightarrow> nat \<Rightarrow> db \<Rightarrow> db \<Rightarrow> bool" where
  "beside_rely own k b i j = (if j = i then edit_rely own k b else anyone own)"

definition beside_guar :: "(nat \<Rightarrow> string) \<Rightarrow> nat \<Rightarrow> rule_update \<Rightarrow> nat \<Rightarrow> nat \<Rightarrow> db \<Rightarrow> db \<Rightarrow> bool" where
  "beside_guar own k b i j d d' \<longleftrightarrow> (if j = i then anyone own d d' else edit_rely own k b d d')"

interpretation edit_beside: rely_guarantee "beside_rely own k b i" "beside_guar own k b i" for own k b i
proof unfold_locales
  fix j d d' d''
  show "beside_rely own k b i j d d" by (simp add: beside_rely_def edit_rely_def anyone_refl lasting_refl)
  show "beside_rely own k b i j d d''" if "beside_rely own k b i j d d'" "beside_rely own k b i j d' d''"
    using that unfolding beside_rely_def edit_rely_def
    by (auto intro: anyone_trans lasting_trans split: if_splits) (simp add: anyone_def lasting_trans)
next
  fix j l d d' assume "beside_guar own k b i j d d'" "j \<noteq> l"
  then show "beside_rely own k b i l d d'"
    by (auto simp: beside_guar_def beside_rely_def edit_rely_def split: if_splits)
qed

definition beside_edit_post :: "nat \<Rightarrow> rule_update \<Rightarrow> nat \<Rightarrow> nat \<Rightarrow> failure + alerts_answer \<Rightarrow> db \<Rightarrow> bool" where
  "beside_edit_post k b i j a d \<longleftrightarrow> (j = i \<longrightarrow> edit_post k b a d)"

lemma flight_safe:
  assumes "sane own d" "fresh_ids own d f"
  shows "safe own (fl_sub f) (fl_op f) (flight_program f) d"
  unfolding flight_program_def by (rule safe_op [OF assms(1)]) (use assms(2) in \<open>simp add: fresh_ids_def\<close>)

lemma others_ensure:
  assumes "sane own d" "fresh_ids own d f" "fl_sub f = own k \<longrightarrow> aside k b (fl_op f)"
  shows "ensures (anyone own) (edit_rely own k b) (\<lambda>_ _. True) (flight_program f) d"
proof -
  have "all_effects (touches (fl_op f) k) (flight_program f)" unfolding flight_program_def by (rule op_touches)
  from ensures_effects [OF flight_safe [OF assms(1,2), unfolded safe_def] this]
  show ?thesis
  proof (rule ensures_mono)
    fix x y assume g: "only own (fl_sub f) x y \<and> touches (fl_op f) k x y"
    have "lasting k b x y" if x: "sane own x"
    proof (cases "fl_sub f = own k")
      case True
      with g assms(3) show ?thesis using touches_lasting by blast
    next
      case False
      have "stays own (fl_sub f) x y" using g x by (simp add: only_def)
      from stays_lasting [OF this x] False show ?thesis by simp
    qed
    with g show "edit_rely own k b x y" by (auto simp: edit_rely_def dest: only_anyone)
  qed simp
qed

lemma edit_all_ensure:
  assumes "sane own d" "\<forall>f \<in> set fs. fresh_ids own d f" "i < length fs" "fl_op (fs ! i) = OpUpdate k b"
    and aside: "\<And>j. j < length fs \<Longrightarrow> j \<noteq> i \<Longrightarrow> fl_sub (fs ! j) = own k \<Longrightarrow> aside k b (fl_op (fs ! j))"
  shows "edit_beside.all_ensure own k b i (beside_edit_post k b i) (in_flight d fs)"
  unfolding edit_beside.all_ensure_def
proof (intro allI impI)
  fix j assume "j < length (snd (in_flight d fs))"
  then have j: "j < length fs" "fresh_ids own d (fs ! j)" using assms(2) by (simp_all add: in_flight_def)
  have "ensures (beside_rely own k b i j) (beside_guar own k b i j) (beside_edit_post k b i j) (flight_program (fs ! j)) d"
  proof (cases "j = i")
    case False
    have "ensures (anyone own) (edit_rely own k b) (\<lambda>_ _. True) (flight_program (fs ! j)) d"
      by (rule others_ensure [OF assms(1) j(2)]) (use aside [OF j(1) False] in blast)
    then have "ensures (anyone own) (beside_guar own k b i j) (beside_edit_post k b i j) (flight_program (fs ! j)) d"
      by (rule ensures_mono) (use False in \<open>simp_all add: beside_guar_def beside_edit_post_def\<close>)
    with False show ?thesis by (simp add: beside_rely_def)
  next
    case True
    have "ensures (edit_rely own k b) (only own (fl_sub (fs ! i))) (good own (fl_sub (fs ! i)) (fl_op (fs ! i)))
        (flight_program (fs ! i)) d"
      using flight_safe [OF assms(1) j(2)] unfolding True safe_def
      by (rule ensures_relies) (simp add: edit_rely_def)
    moreover have "ensures (edit_rely own k b) (\<lambda>_ _. True) (edit_post k b) (flight_program (fs ! i)) d"
      using patch_edits [OF assms(1)] assms(4) by (simp add: flight_program_def)
    ultimately have "ensures (edit_rely own k b) (only own (fl_sub (fs ! i)))
        (\<lambda>a x. good own (fl_sub (fs ! i)) (fl_op (fs ! i)) a x \<and> edit_post k b a x) (flight_program (fs ! i)) d"
      by (rule ensures_both)
    then show ?thesis unfolding True beside_rely_def beside_guar_def
      by (auto simp: beside_edit_post_def dest: only_anyone elim!: ensures_mono)
  qed
  with j(1) show "ensures (beside_rely own k b i j) (beside_guar own k b i j) (beside_edit_post k b i j)
      (snd (in_flight d fs) ! j) (fst (in_flight d fs))" by (simp add: in_flight_def)
qed

section \<open>Two forms at once\<close>

text \<open>Two complete PATCHes of one rule: each changes one field and repeats the other.\<close>

definition form_of :: "string \<Rightarrow> bool \<Rightarrow> rule_update" where
  "form_of t a = \<lparr>ru_risk_types = Unset, ru_threshold = Value t, ru_recipients = Unset, ru_active = Value a\<rparr>"

definition shown_fields :: "db \<Rightarrow> nat \<Rightarrow> (string option \<times> bool option) option" where
  "shown_fields d k = map_option (\<lambda>r. (ar_threshold r, ar_active r)) (lookup_row ar_id (db_rules d) k)"

lemma form_applied:
  "ar_threshold (update_rule (form_of t a) r) = Some t" "ar_active (update_rule (form_of t a) r) = Some a"
  "ar_risk_types (update_rule (form_of t a) r) = ar_risk_types r"
  "ar_user_id (update_rule (form_of t a) r) = ar_user_id r" "ar_network_id (update_rule (form_of t a) r) = ar_network_id r"
  "ar_id (update_rule (form_of t a) r) = ar_id r"
  by (simp_all add: form_of_def update_rule_def upd_def)

lemma form_checked:
  assumes "check_rule r = None" "length t \<le> 20"
  shows "check_rule (touch_rule now r (update_rule (form_of t a) r)) = None"
proof -
  have "ar_threshold (touch_rule now r (update_rule (form_of t a) r)) = Some t"
    "ar_active (touch_rule now r (update_rule (form_of t a) r)) = Some a"
    by (simp_all add: patched_fields) (simp_all add: form_of_def upd_def)
  with assms show ?thesis by (auto simp: check_rule_def split: if_splits)
qed

lemma form_run:
  assumes "db_ok d" "own_rule k user d = Inr (Some rule)" "length t \<le> 20"
    and "run_op fresh now user (OpUpdate k (form_of t a)) d = (r, d')"
  shows "db_ok d' \<and> shown_fields d' k = Some (Some t, Some a) \<and> (\<exists>rule'. own_rule k user d' = Inr (Some rule'))"
proof -
  note mem = own_rule_Some [OF assms(1,2)]
  let ?new = "touch_rule now rule (update_rule (form_of t a) rule)"
  have c: "check_rule ?new = None"
    using row_checked [OF assms(1), of rule] mem form_checked [OF _ assms(3)] by simp
  then have d': "d' = put_rule ?new d"
    using assms(2,4) by (auto simp: update_alert_rule_def replace_row_def Let_def mapO_bind)
  have ok: "db_ok d'" by (rule run_op_ok [OF assms(1,4)])
  have "lookup_row ar_id (db_rules d) k = Some rule" using lookup_member [OF assms(1)] mem by auto
  then have look: "lookup_row ar_id (db_rules d') k = Some ?new"
    using lookup_put_rule [of ?new d k] mem by (simp add: d')
  have "ar_threshold ?new = Some t" "ar_active ?new = Some a"
    by (simp_all add: patched_fields) (simp_all add: form_of_def upd_def)
  moreover have "own_rule k user d' = Inr (Some ?new)"
  proof -
    have "?new \<in> set (uv_rules (view_of d' (ju_sub user)))"
      using lookup_row_Some [OF look] mem by (simp add: view_of_def)
    then have "find (\<lambda>r. ar_id r = k) (uv_rules (view_of d' (ju_sub user))) = Some ?new"
      using lookup_row_distinct [of ar_id "uv_rules (view_of d' (ju_sub user))" ?new] db_ok_distinct(1) [OF ok] mem
      by (simp add: lookup_row_def view_of_def distinct_map_filter)
    then show ?thesis by (simp add: own_rule_view [OF ok])
  qed
  ultimately show ?thesis using ok look by (auto simp: shown_fields_def)
qed

lemma two_forms:
  assumes "db_ok d" "own_rule k user d = Inr (Some rule)" "ar_risk_types rule = Some ts"
    and "ar_threshold rule = Some t0" "ar_active rule = Some a0" "t \<noteq> t0" "length t \<le> 20" "a \<noteq> a0"
  shows "\<exists>d' x y. prog_step\<^sup>*\<^sup>* (d, [update_program k (form_of t a0) user, update_program k (form_of t0 a) user])
      (d', [Return (Inr x), Return (Inr y)]) \<and> shown_fields d' k = Some (Some t, Some a)"
proof -
  note mem = own_rule_Some [OF assms(1,2)]
  have fine: "check_rule rule = None" using row_checked [OF assms(1)] mem by simp
  let ?c1 = "form_of t a0\<lparr>ru_active := Unset\<rparr>" and ?c2 = "form_of t0 a\<lparr>ru_threshold := Unset\<rparr>"
  have c1: "changed_rule (form_of t a0) rule = ?c1" "?c1 \<noteq> no_rule_update"
    and c2: "changed_rule (form_of t0 a) rule = ?c2" "?c2 \<noteq> no_rule_update"
    using assms by (simp_all add: changed_rule_def form_of_def no_rule_update_def changed_def upd_def)
  define r1 where "r1 = (update_rule ?c1 rule)\<lparr>ar_updated_at := 0\<rparr>"
  define r2 where "r2 = (update_rule ?c2 r1)\<lparr>ar_updated_at := 0\<rparr>"
  have f1: "ar_id r1 = k" "ar_threshold r1 = Some t" "ar_active r1 = Some a0" "ar_risk_types r1 = Some ts"
    "ar_user_id r1 = ar_user_id rule" "ar_network_id r1 = ar_network_id rule"
    using mem assms by (simp_all add: r1_def update_rule_def form_of_def upd_def)
  have f2: "ar_id r2 = k" "ar_threshold r2 = Some t" "ar_active r2 = Some a" "ar_risk_types r2 = Some ts"
    "ar_user_id r2 = ar_user_id rule" "ar_network_id r2 = ar_network_id rule"
    using f1 by (simp_all add: r2_def update_rule_def form_of_def upd_def)
  have ok: "check_rule r1 = None" "check_rule r2 = None"
    using fine f1 f2 assms by (auto simp: check_rule_def split: if_splits)
  let ?d1 = "put_rule r1 d" and ?d2 = "put_rule r2 (put_rule r1 d)"
  have l0: "lookup_row ar_id (db_rules d) k = Some rule" using lookup_member [OF assms(1)] mem by auto
  then have l1: "lookup_row ar_id (db_rules ?d1) k = Some r1" using lookup_put_rule [of r1 d k] f1 by simp
  then have l2: "lookup_row ar_id (db_rules ?d2) k = Some r2" using lookup_put_rule [of r2 ?d1 k] f2 by simp
  have w1: "commit_rule_update (form_of t a0) rule 0 d = (Inr (), ?d1)"
    by (rule commit_found [OF c1 _ _ ok(1)]) (use l0 mem in \<open>simp_all add: r1_def\<close>)
  have w2: "commit_rule_update (form_of t0 a) rule 0 ?d1 = (Inr (), ?d2)"
    by (rule commit_found [OF c2 _ _ ok(2)]) (use l1 mem in \<open>simp_all add: r2_def\<close>)
  obtain x where x: "rule_response_of r2 = Inr x" using f2 by (simp add: rule_response_of_def)
  let ?W = "\<lambda>b. writes (commit_rule_update b rule) (then_refresh (\<lambda>_. refresh_rule (ar_id rule)))"
  let ?F = "refresh_rule k" and ?ok = "Return (Inr (OneRule x))"
  have s1: "prog_step (d, [update_program k b user, q]) (d, [?W b, q])" for b q
    by (rule left_reads [OF update_program_def [unfolded with_own_rule_def]]) (simp add: assms(2))
  have s2: "prog_step (d, [q, update_program k b user]) (d, [q, ?W b])" for b q
    by (rule right_reads [OF update_program_def [unfolded with_own_rule_def]]) (simp add: assms(2))
  have s3: "prog_step (d, [?W (form_of t a0), q]) (?d1, [?F, q])" for q
    by (rule left_writes [OF refl], rule w1) (use mem in \<open>simp add: then_refresh_def\<close>)
  have s4: "prog_step (?d1, [q, ?W (form_of t0 a)]) (?d2, [q, ?F])" for q
    by (rule right_writes [OF refl], rule w2) (use mem in \<open>simp add: then_refresh_def\<close>)
  have s5: "prog_step (?d2, [?F, q]) (?d2, [?ok, q])" for q
    by (rule left_reads [OF refresh_rule_def]) (simp only: l2, simp add: x)
  have s6: "prog_step (?d2, [q, ?F]) (?d2, [q, ?ok])" for q
    by (rule right_reads [OF refresh_rule_def]) (simp only: l2, simp add: x)
  have "prog_step\<^sup>*\<^sup>* (d, [update_program k (form_of t a0) user, update_program k (form_of t0 a) user])
      (?d2, [?ok, ?ok])"
    by (rule in_turn, rule s1, rule in_turn, rule s2, rule in_turn, rule s3, rule in_turn, rule s4, rule in_turn, rule s5,
        rule in_turn, rule s6, rule rtranclp.rtrancl_refl)
  moreover have "shown_fields ?d2 k = Some (Some t, Some a)" unfolding shown_fields_def l2 using f2 by simp
  ultimately show ?thesis by blast
qed

section \<open>Properties\<close>

text \<open>
  C12: a confirmed edit lasts. When a PATCH of a user's rule is answered with success, the rule has the
  values it names, and still has them when all is over, whatever any users' requests do around it, as long as no
  other request of the same user deletes the rule or names one of the same fields.
\<close>

theorem confirmed_edit_lasts:
  assumes "db_ok d" "owned own d" "\<forall>f \<in> set fs. fresh_ids own d f"
    and "prog_step\<^sup>*\<^sup>* (in_flight d fs) (d', ps)" "i < length fs" "ps ! i = Return (Inr a)"
    and "fl_op (fs ! i) = OpUpdate k b" "own k = fl_sub (fs ! i)"
    and "\<And>j. j < length fs \<Longrightarrow> j \<noteq> i \<Longrightarrow> fl_sub (fs ! j) = fl_sub (fs ! i) \<Longrightarrow> aside k b (fl_op (fs ! j))"
  shows "\<exists>r \<in> set (db_rules d'). ar_id r = k \<and> ar_user_id r = fl_sub (fs ! i) \<and> update_rule b r = r"
proof -
  have sane: "sane own d" using assms(1,2) by (simp add: sane_def)
  have e: "edit_beside.all_ensure own k b i (beside_edit_post k b i) (d, map flight_program fs)"
    using edit_all_ensure [OF sane assms(3,5,7)] assms(9) unfolding assms(8) in_flight_def by blast
  have "i < length (map flight_program fs)" using assms(5) by simp
  from edit_beside.answers [OF e assms(4) [unfolded in_flight_def] this assms(6)]
  have "beside_edit_post k b i i (Inr a) d'" .
  then have "edited k b d'" by (simp add: beside_edit_post_def edit_post_def)
  then obtain r where r: "lookup_row ar_id (db_rules d') k = Some r" "update_rule b r = r"
    unfolding edited_def by blast
  have "sane own d'" using flights_always [OF sane assms(3,4)] by blast
  with lookup_row_Some [OF r(1)] assms(8) have "ar_id r = k \<and> ar_user_id r = fl_sub (fs ! i)"
    by (auto simp: sane_def owned_def)
  with r(2) lookup_row_Some [OF r(1)] show ?thesis by blast
qed

definition sample_patch :: flight where
  "sample_patch = \<lparr>fl_fresh = 0, fl_user = sample_user [''net''] [] False, fl_op = OpUpdate 7 (form_of ''WARNING'' False)\<rparr>"

definition sample_aside :: flight where
  "sample_aside = \<lparr>fl_fresh = 0, fl_user = sample_user [''net''] [] False,
     fl_op = OpUpdate 7 (no_rule_update\<lparr>ru_recipients := Value ''ops@dso.it''\<rparr>)\<rparr>"

theorem confirmed_edit_lasts_witness:
  "\<exists>d' ps x. prog_step\<^sup>*\<^sup>* (in_flight (empty_db\<lparr>db_rules := [sample_created]\<rparr>) [sample_patch, sample_aside]) (d', ps) \<and>
     ps ! 0 = Return (Inr x) \<and>
     (\<exists>r \<in> set (db_rules d'). ar_id r = 7 \<and> update_rule (form_of ''WARNING'' False) r = r)"
proof -
  let ?d = "empty_db\<lparr>db_rules := [sample_created]\<rparr>" and ?user = "sample_user [''net''] [] False"
  let ?b = "form_of ''WARNING'' False" and ?fs = "[sample_patch, sample_aside]"
  have ok: "db_ok ?d" using reachable_invariant [OF sample_reachable] by blast
  have own: "own_rule 7 ?user ?d = Inr (Some sample_created)" by (simp add: own_rule_def scalar_one_or_none_def)
  have "ar_risk_types sample_created = Some [''wind'']"
    by (simp add: sample_created_def new_rule_def sample_create_def)
  then obtain x where x: "rule_response_of (touch_rule 0 sample_created (update_rule ?b sample_created)) = Inr x"
    by (auto simp: rule_response_of_def patched_fields) (simp add: form_of_def upd_def)
  have "check_rule (touch_rule 0 sample_created (update_rule ?b sample_created)) = None"
    by (rule form_checked) (use row_checked [OF ok, of sample_created] in simp_all)
  with x own obtain d' where "update_alert_rule 0 7 ?b ?user ?d = (Inr x, d')"
    by (simp add: update_alert_rule_def replace_row_def Let_def)
  then have "run_prog 0 (flight_program sample_patch) ?d = (Inr (OneRule x), d')"
    by (simp add: flight_program_def sample_patch_def run_update [OF ok] mapO_def)
  from uninterrupted [of 0 "map flight_program ?fs", OF _ _ this]
  have run: "prog_step\<^sup>*\<^sup>* (in_flight ?d ?fs) (d', [Return (Inr (OneRule x)), flight_program sample_aside])"
    by (simp add: in_flight_def)
  have "owned (\<lambda>_. ''op'') ?d" "\<forall>f \<in> set ?fs. fresh_ids (\<lambda>_. ''op'') ?d f" "fl_op (?fs ! 0) = OpUpdate 7 ?b"
    "''op'' = fl_sub (?fs ! 0)"
    by (simp_all add: owned_def fresh_ids_def sample_patch_def sample_aside_def sample_created_def new_rule_def)
  note h = this
  have "aside 7 ?b (fl_op (?fs ! j))" if "j < length ?fs" "j \<noteq> 0" for j
    using that by (auto simp: less_Suc_eq sample_aside_def aside_def apart_def no_rule_update_def form_of_def)
  then have "\<exists>r \<in> set (db_rules d'). ar_id r = 7 \<and> ar_user_id r = fl_sub (?fs ! 0) \<and> update_rule ?b r = r"
    by (intro confirmed_edit_lasts [OF ok h(1,2) run _ _ h(3,4)]) simp_all
  with run show ?thesis by (intro exI conjI) auto
qed

text \<open>
  C28: two edits of one rule can be mixed: each PATCH sends the threshold and the switch, and
  changes one of the two; both are answered with success, and the rule ends with the threshold of
  the one and the switch of the other, which no order of the two leaves, because the ORM writes
  only the columns that differ from the row it selected.
\<close>

theorem edits_mix:
  assumes "db_ok d" "own_rule k user d = Inr (Some rule)" "ar_risk_types rule = Some ts"
    and "ar_threshold rule = Some t0" "ar_active rule = Some a0" "t \<noteq> t0" "length t \<le> 20" "a \<noteq> a0"
  shows "(\<exists>d' x y. prog_step\<^sup>*\<^sup>* (d, [update_program k (form_of t a0) user, update_program k (form_of t0 a) user])
        (d', [Return (Inr x), Return (Inr y)]) \<and> shown_fields d' k = Some (Some t, Some a)) \<and>
    (\<forall>fresh now now'. \<forall>(b, b') \<in> {(form_of t a0, form_of t0 a), (form_of t0 a, form_of t a0)}.
       shown_fields (snd (run_op fresh now' user (OpUpdate k b') (snd (run_op fresh now user (OpUpdate k b) d)))) k \<noteq>
         Some (Some t, Some a))"
proof -
  have "length t0 \<le> 20"
    using row_checked [OF assms(1), of rule] own_rule_Some [OF assms(1,2)] assms(4,5)
    by (auto simp: check_rule_def split: if_splits)
  have serial: "shown_fields (snd (run_op fresh now' user (OpUpdate k (form_of t2 a2))
      (snd (run_op fresh now user (OpUpdate k (form_of t1 a1)) d)))) k = Some (Some t2, Some a2)"
    if "length t1 \<le> 20" "length t2 \<le> 20" for fresh now now' t1 a1 t2 a2
  proof -
    obtain r1 d1 where 1: "run_op fresh now user (OpUpdate k (form_of t1 a1)) d = (r1, d1)" by force
    obtain r2 d2 where 2: "run_op fresh now' user (OpUpdate k (form_of t2 a2)) d1 = (r2, d2)" by force
    from form_run [OF assms(1,2) that(1) 1] obtain rule' where "db_ok d1" "own_rule k user d1 = Inr (Some rule')" by blast
    from form_run [OF this that(2) 2] 1 2 show ?thesis by simp
  qed
  with two_forms [OF assms] assms(6-8) \<open>length t0 \<le> 20\<close> show ?thesis
    by (simp del: run_op.simps)
qed

theorem edits_mix_witness:
  "\<exists>d' x y. prog_step\<^sup>*\<^sup>* (empty_db\<lparr>db_rules := [sample_created]\<rparr>,
       [update_program 7 (form_of ''WARNING'' True) (sample_user [''net''] [] False),
        update_program 7 (form_of ''ALERT'' False) (sample_user [''net''] [] False)])
     (d', [Return (Inr x), Return (Inr y)]) \<and> shown_fields d' 7 = Some (Some ''WARNING'', Some False)"
proof -
  have ok: "db_ok (empty_db\<lparr>db_rules := [sample_created]\<rparr>)" using reachable_invariant [OF sample_reachable] by blast
  have own: "own_rule 7 (sample_user [''net''] [] False) (empty_db\<lparr>db_rules := [sample_created]\<rparr>) =
      Inr (Some sample_created)" by (simp add: own_rule_def scalar_one_or_none_def)
  have f: "ar_risk_types sample_created = Some [''wind'']" "ar_threshold sample_created = Some ''ALERT''"
    "ar_active sample_created = Some True"
    by (simp_all add: sample_created_def new_rule_def sample_create_def)
  from edits_mix [OF ok own f, of "''WARNING''" False] show ?thesis by auto
qed



end
