(* ===== verification/Migrations.thy ===== *)
theory Migrations
  imports PyValue
begin

text \<open>
  \<open>src/alembic/versions/001_initial_schema.py\<close>, \<open>002_risk_types_array.py\<close> and
  \<open>003_fix_migrated_network_id.py\<close>: the schema changes as operations on tables of rows. A row
  is a dictionary from columns to values, SQL's NULL being \<open>VNone\<close>. An operation fails as the
  database fails it: an unknown or existing name, a NULL in a column that must not be NULL,
  a text longer than its column. Revisions are run in the order of their \<open>down_revision\<close> chain.
\<close>

section \<open>Tables\<close>

datatype sql_type = SqlUuid | SqlString nat | SqlText | SqlBoolean | SqlDateTime | SqlInteger | SqlJson

record column =
  co_type :: sql_type
  co_nullable :: bool
  co_default :: "pyval option"
  co_default_now :: bool
  co_unique :: bool

record table =
  ta_columns :: "(string, column) dict"
  ta_primary_key :: "string list"
  ta_rows :: "pydict list"

text \<open>An index has its table, its columns and whether it is unique.\<close>

record schema =
  sm_tables :: "(string, table) dict"
  sm_indexes :: "(string, string \<times> string list \<times> bool) dict"

definition empty_schema :: schema where
  "empty_schema = \<lparr>sm_tables = [], sm_indexes = []\<rparr>"

definition sa_column :: "sql_type \<Rightarrow> bool \<Rightarrow> column" where
  "sa_column ty nullable =
     \<lparr>co_type = ty, co_nullable = nullable, co_default = None, co_default_now = False, co_unique = False\<rparr>"

definition ProgrammingError :: py_error where
  "ProgrammingError = OtherError ''ProgrammingError''"

fun fits :: "sql_type \<Rightarrow> pyval \<Rightarrow> bool" where
  "fits (SqlString n) (VStr s) = (length s \<le> n)"
| "fits ty v = True"

section \<open>Operations\<close>

definition create_table :: "string \<Rightarrow> (string, column) dict \<Rightarrow> string list \<Rightarrow> schema \<Rightarrow> schema res" where
  "create_table name columns key s =
     (if dict_get (sm_tables s) name \<noteq> None then Raise ProgrammingError
      else Ok (s\<lparr>sm_tables := dict_set name \<lparr>ta_columns = columns, ta_primary_key = key, ta_rows = []\<rparr> (sm_tables s)\<rparr>))"

definition drop_table :: "string \<Rightarrow> schema \<Rightarrow> schema res" where
  "drop_table name s =
     (if dict_get (sm_tables s) name = None then Raise ProgrammingError
      else Ok (s\<lparr>sm_tables := dict_pop name (sm_tables s),
                sm_indexes := filter (\<lambda>(i, t, cs). t \<noteq> name) (sm_indexes s)\<rparr>))"

definition create_index :: "string \<Rightarrow> string \<Rightarrow> string list \<Rightarrow> bool \<Rightarrow> schema \<Rightarrow> schema res" where
  "create_index name tab columns unique s =
     (if dict_get (sm_indexes s) name \<noteq> None then Raise ProgrammingError
      else Ok (s\<lparr>sm_indexes := dict_set name (tab, columns, unique) (sm_indexes s)\<rparr>))"

definition drop_index :: "string \<Rightarrow> schema \<Rightarrow> schema res" where
  "drop_index name s =
     (if dict_get (sm_indexes s) name = None then Raise ProgrammingError
      else Ok (s\<lparr>sm_indexes := dict_pop name (sm_indexes s)\<rparr>))"

definition on_table :: "string \<Rightarrow> (table \<Rightarrow> table res) \<Rightarrow> schema \<Rightarrow> schema res" where
  "on_table name f s =
     (case dict_get (sm_tables s) name of
        None \<Rightarrow> Raise ProgrammingError
      | Some t \<Rightarrow> bindR (f t) (\<lambda>t'. Ok (s\<lparr>sm_tables := dict_set name t' (sm_tables s)\<rparr>)))"

definition add_column :: "string \<Rightarrow> column \<Rightarrow> table \<Rightarrow> table res" where
  "add_column name c t =
     (let v = (case co_default c of Some d \<Rightarrow> d | None \<Rightarrow> VNone) in
      if dict_get (ta_columns t) name \<noteq> None then Raise ProgrammingError
      else if \<not> co_nullable c \<and> v = VNone \<and> ta_rows t \<noteq> [] then Raise IntegrityError
      else Ok (t\<lparr>ta_columns := dict_set name c (ta_columns t), ta_rows := map (dict_set name v) (ta_rows t)\<rparr>))"

definition drop_column :: "string \<Rightarrow> table \<Rightarrow> table res" where
  "drop_column name t =
     (if dict_get (ta_columns t) name = None then Raise ProgrammingError
      else Ok (t\<lparr>ta_columns := dict_pop name (ta_columns t), ta_rows := map (dict_pop name) (ta_rows t)\<rparr>))"

definition set_not_null :: "string \<Rightarrow> table \<Rightarrow> table res" where
  "set_not_null name t =
     (case dict_get (ta_columns t) name of
        None \<Rightarrow> Raise ProgrammingError
      | Some c \<Rightarrow>
          if list_ex (\<lambda>row. py_get row name = VNone) (ta_rows t) then Raise IntegrityError
          else Ok (t\<lparr>ta_columns := dict_set name (c\<lparr>co_nullable := False\<rparr>) (ta_columns t)\<rparr>))"

text \<open>\<open>UPDATE table SET column = value WHERE condition\<close>\<close>

definition update_column :: "string \<Rightarrow> (pydict \<Rightarrow> bool) \<Rightarrow> (pydict \<Rightarrow> pyval) \<Rightarrow> table \<Rightarrow> table res" where
  "update_column name cond value t =
     (case dict_get (ta_columns t) name of
        None \<Rightarrow> Raise ProgrammingError
      | Some c \<Rightarrow>
          if list_ex (\<lambda>row. cond row \<and> \<not> fits (co_type c) (value row)) (ta_rows t) then Raise DataError
          else Ok (t\<lparr>ta_rows := map (\<lambda>row. if cond row then dict_set name (value row) row else row) (ta_rows t)\<rparr>))"

section \<open>The revisions\<close>

definition alert_rules_columns :: "(string, column) dict" where
  "alert_rules_columns =
     [(''id'', sa_column SqlUuid False), (''user_id'', sa_column (SqlString 255) False),
      (''risk_type'', sa_column (SqlString 20) False), (''threshold'', sa_column (SqlString 20) False),
      (''operational_unit'', sa_column (SqlString 255) True), (''recipients'', sa_column SqlText True),
      (''active'', (sa_column SqlBoolean False)\<lparr>co_default := Some (VBool True)\<rparr>),
      (''created_at'', (sa_column SqlDateTime False)\<lparr>co_default_now := True\<rparr>),
      (''updated_at'', (sa_column SqlDateTime False)\<lparr>co_default_now := True\<rparr>)]"

definition notification_settings_columns :: "(string, column) dict" where
  "notification_settings_columns =
     [(''id'', sa_column SqlInteger False),
      (''user_id'', (sa_column (SqlString 255) False)\<lparr>co_unique := True\<rparr>),
      (''email_recipients'', sa_column SqlText True), (''webhook_url'', sa_column SqlText True),
      (''created_at'', (sa_column SqlDateTime False)\<lparr>co_default_now := True\<rparr>),
      (''updated_at'', (sa_column SqlDateTime False)\<lparr>co_default_now := True\<rparr>)]"

definition upgrade_001 :: "schema \<Rightarrow> schema res" where
  "upgrade_001 s =
     bindR (create_table ''alert_rules'' alert_rules_columns [''id''] s) (\<lambda>s.
     bindR (create_index ''ix_alert_rules_user_id'' ''alert_rules'' [''user_id''] False s) (\<lambda>s.
     bindR (create_table ''notification_settings'' notification_settings_columns [''id''] s) (\<lambda>s.
       create_index ''ix_notification_settings_user_id'' ''notification_settings'' [''user_id''] False s)))"

definition downgrade_001 :: "schema \<Rightarrow> schema res" where
  "downgrade_001 s =
     bindR (drop_index ''ix_notification_settings_user_id'' s) (\<lambda>s.
     bindR (drop_table ''notification_settings'' s) (\<lambda>s.
     bindR (drop_index ''ix_alert_rules_user_id'' s) (\<lambda>s.
       drop_table ''alert_rules'' s)))"

text \<open>\<open>json_build_array(risk_type)\<close> and \<open>risk_types->>0\<close>: the text of the first element, NULL when
  there is none. The text of an element that is no string is a parameter.\<close>

definition wrap_risk_type :: "pydict \<Rightarrow> pyval" where
  "wrap_risk_type row = VList [py_get row ''risk_type'']"

definition first_risk_type :: "(pyval \<Rightarrow> string) \<Rightarrow> pydict \<Rightarrow> pyval" where
  "first_risk_type json_text row =
     (case py_get row ''risk_types'' of
        VList (VStr s # _) \<Rightarrow> VStr s
      | VList (VNone # _) \<Rightarrow> VNone
      | VList (v # _) \<Rightarrow> VStr (json_text v)
      | _ \<Rightarrow> VNone)"

definition alter_002 :: "table \<Rightarrow> table res" where
  "alter_002 t =
     bindR (add_column ''risk_types'' (sa_column SqlJson True) t) (\<lambda>t.
     bindR (add_column ''network_id'' (sa_column (SqlString 255) True) t) (\<lambda>t.
     bindR (update_column ''network_id'' (\<lambda>row. py_get row ''risk_types'' = VNone) (\<lambda>_. VStr []) t) (\<lambda>t.
     bindR (update_column ''risk_types'' (\<lambda>row. py_get row ''risk_types'' = VNone) wrap_risk_type t) (\<lambda>t.
     bindR (set_not_null ''risk_types'' t) (\<lambda>t. set_not_null ''network_id'' t)))))"

definition drop_002 :: "table \<Rightarrow> table res" where
  "drop_002 t = bindR (drop_column ''risk_type'' t) (\<lambda>t. drop_column ''operational_unit'' t)"

definition upgrade_002 :: "schema \<Rightarrow> schema res" where
  "upgrade_002 s =
     bindR (on_table ''alert_rules'' alter_002 s) (\<lambda>s.
     bindR (create_index ''ix_alert_rules_network_id'' ''alert_rules'' [''network_id''] False s) (\<lambda>s.
       on_table ''alert_rules'' drop_002 s))"

definition restore_002 :: "(pyval \<Rightarrow> string) \<Rightarrow> table \<Rightarrow> table res" where
  "restore_002 json_text t =
     bindR (add_column ''risk_type'' (sa_column (SqlString 20) True) t) (\<lambda>t.
     bindR (add_column ''operational_unit'' (sa_column (SqlString 255) True) t) (\<lambda>t.
     bindR (update_column ''risk_type'' (\<lambda>_. True) (first_risk_type json_text) t) (\<lambda>t.
       set_not_null ''risk_type'' t)))"

definition unalter_002 :: "table \<Rightarrow> table res" where
  "unalter_002 t = bindR (drop_column ''network_id'' t) (\<lambda>t. drop_column ''risk_types'' t)"

definition downgrade_002 :: "(pyval \<Rightarrow> string) \<Rightarrow> schema \<Rightarrow> schema res" where
  "downgrade_002 json_text s =
     bindR (on_table ''alert_rules'' (restore_002 json_text) s) (\<lambda>s.
     bindR (drop_index ''ix_alert_rules_network_id'' s) (\<lambda>s.
       on_table ''alert_rules'' unalter_002 s))"

definition alter_003 :: "table \<Rightarrow> table res" where
  "alter_003 t =
     bindR (add_column ''network_id_unset'' ((sa_column SqlBoolean False)\<lparr>co_default := Some (VBool False)\<rparr>) t) (\<lambda>t.
       update_column ''network_id_unset'' (\<lambda>row. py_get row ''network_id'' = VStr []) (\<lambda>_. VBool True) t)"

definition upgrade_003 :: "schema \<Rightarrow> schema res" where
  "upgrade_003 s = on_table ''alert_rules'' alter_003 s"

definition downgrade_003 :: "schema \<Rightarrow> schema res" where
  "downgrade_003 s = on_table ''alert_rules'' (drop_column ''network_id_unset'') s"

text \<open>\<open>alembic upgrade head\<close> from a revision.\<close>

definition upgrade_head :: "schema \<Rightarrow> schema res" where
  "upgrade_head s = bindR (upgrade_001 s) (\<lambda>s. bindR (upgrade_002 s) upgrade_003)"


section \<open>Lemmas\<close>

lemmas table_op_defs = add_column_def drop_column_def set_not_null_def update_column_def sa_column_def Let_def

text \<open>What the two upgrades do to a row of the first schema.\<close>

definition row_002 :: "pydict \<Rightarrow> pydict" where
  "row_002 row = dict_set ''risk_types'' (VList [py_get row ''risk_type''])
     (dict_set ''network_id'' (VStr []) (dict_set ''network_id'' VNone (dict_set ''risk_types'' VNone row)))"

definition columns_002 :: "(string, column) dict \<Rightarrow> (string, column) dict" where
  "columns_002 cs = dict_set ''network_id'' (sa_column (SqlString 255) False) (dict_set ''risk_types'' (sa_column SqlJson False)
     (dict_set ''network_id'' (sa_column (SqlString 255) True) (dict_set ''risk_types'' (sa_column SqlJson True) cs)))"

lemma row_002_get:
  "py_get (row_002 row) k = (if k = ''risk_types'' then VList [py_get row ''risk_type'']
     else if k = ''network_id'' then VStr [] else py_get row k)"
  by (simp add: row_002_def dict_simps)

lemma alter_002_rows:
  assumes "dict_get (ta_columns t) ''risk_types'' = None" "dict_get (ta_columns t) ''network_id'' = None"
  shows "alter_002 t = Ok (t\<lparr>ta_columns := columns_002 (ta_columns t), ta_rows := map row_002 (ta_rows t)\<rparr>)"
proof -
  have "wrap_risk_type (dict_set ''network_id'' v (dict_set ''network_id'' w (dict_set ''risk_types'' x row))) =
      VList [py_get row ''risk_type'']" for v w x row
    by (simp add: wrap_risk_type_def dict_simps)
  with assms show ?thesis
    by (simp add: alter_002_def table_op_defs dict_simps list_ex_iff comp_def row_002_def columns_002_def)
qed

lemma drop_002_rows:
  assumes "dict_get (ta_columns t) ''risk_type'' \<noteq> None" "dict_get (ta_columns t) ''operational_unit'' \<noteq> None"
  shows "drop_002 t = Ok (t\<lparr>ta_columns := dict_pop ''operational_unit'' (dict_pop ''risk_type'' (ta_columns t)),
    ta_rows := map (\<lambda>row. dict_pop ''operational_unit'' (dict_pop ''risk_type'' row)) (ta_rows t)\<rparr>)"
  using assms by (simp add: drop_002_def table_op_defs dict_simps comp_def)

definition row_003 :: "pydict \<Rightarrow> pydict" where
  "row_003 row = (let row' = dict_set ''network_id_unset'' (VBool False) row in
     if py_get row' ''network_id'' = VStr [] then dict_set ''network_id_unset'' (VBool True) row' else row')"

definition columns_003 :: "(string, column) dict \<Rightarrow> (string, column) dict" where
  "columns_003 = dict_set ''network_id_unset'' ((sa_column SqlBoolean False)\<lparr>co_default := Some (VBool False)\<rparr>)"

lemma row_003_get:
  "py_get (row_003 row) k = (if k = ''network_id_unset'' then VBool (py_get row ''network_id'' = VStr []) else py_get row k)"
  by (simp add: row_003_def Let_def dict_simps)

lemma alter_003_rows:
  assumes "dict_get (ta_columns t) ''network_id_unset'' = None"
  shows "alter_003 t = Ok (t\<lparr>ta_columns := columns_003 (ta_columns t), ta_rows := map row_003 (ta_rows t)\<rparr>)"
  using assms by (simp add: alter_003_def table_op_defs dict_simps list_ex_iff comp_def row_003_def columns_003_def)

lemma py_get_pop: "py_get (dict_pop k' d) k = (if k = k' then VNone else py_get d k)"
  by (simp add: py_get_def dict_simps)

lemma dict_set_same [dict_simps]: "dict_set k v (dict_set k w d) = dict_set k v d"
  by (induction d) (auto simp: dict_set_def)

lemma dict_get_notin: "dict_get d k = None \<Longrightarrow> dict_pop k d = d"
  by (induction d) (auto simp: dict_get_def dict_pop_def split: if_splits)

lemma dict_pop_set: "dict_get d k = None \<Longrightarrow> dict_pop k (dict_set k v d) = d"
  by (induction d) (auto simp: dict_get_def dict_pop_def dict_set_def split: if_splits)


definition row_head :: "pydict \<Rightarrow> pydict" where
  "row_head row = row_003 (dict_pop ''operational_unit'' (dict_pop ''risk_type'' (row_002 row)))"

lemma row_head_get:
  "py_get (row_head row) k =
     (if k = ''network_id_unset'' then VBool True
      else if k \<in> {''risk_type'', ''operational_unit''} then VNone
      else if k = ''risk_types'' then VList [py_get row ''risk_type'']
      else if k = ''network_id'' then VStr [] else py_get row k)"
  by (simp add: row_head_def row_003_get row_002_get py_get_pop)

definition columns_head :: "(string, column) dict \<Rightarrow> (string, column) dict" where
  "columns_head cs = columns_003 (dict_pop ''operational_unit'' (dict_pop ''risk_type'' (columns_002 cs)))"

lemma columns_get:
  "dict_get (columns_002 cs) k = (if k = ''network_id'' then Some (sa_column (SqlString 255) False)
     else if k = ''risk_types'' then Some (sa_column SqlJson False) else dict_get cs k)"
  "dict_get (columns_003 cs) k = (if k = ''network_id_unset'' then
       Some ((sa_column SqlBoolean False)\<lparr>co_default := Some (VBool False)\<rparr>) else dict_get cs k)"
  by (auto simp: columns_002_def columns_003_def dict_simps)

lemma alert_rules_columns_get:
  "dict_get alert_rules_columns ''risk_types'' = None" "dict_get alert_rules_columns ''network_id'' = None"
  "dict_get alert_rules_columns ''network_id_unset'' = None" "dict_get alert_rules_columns ''risk_type'' \<noteq> None"
  "dict_get alert_rules_columns ''operational_unit'' \<noteq> None"
  by (simp_all add: alert_rules_columns_def dict_get_def)

definition table_head :: "table \<Rightarrow> table" where
  "table_head t = t\<lparr>ta_columns := columns_head alert_rules_columns, ta_rows := map row_head (ta_rows t)\<rparr>"

definition schema_head :: "table \<Rightarrow> schema \<Rightarrow> schema" where
  "schema_head t s = s\<lparr>sm_tables := dict_set ''alert_rules'' (table_head t) (sm_tables s),
     sm_indexes := dict_set ''ix_alert_rules_network_id'' (''alert_rules'', [''network_id''], False) (sm_indexes s)\<rparr>"

lemma upgrade_from_001:
  assumes "dict_get (sm_tables s) ''alert_rules'' = Some t" "ta_columns t = alert_rules_columns"
    and "dict_get (sm_indexes s) ''ix_alert_rules_network_id'' = None"
  shows "bindR (upgrade_002 s) upgrade_003 = Ok (schema_head t s)"
proof -
  let ?t1 = "t\<lparr>ta_columns := columns_002 alert_rules_columns, ta_rows := map row_002 (ta_rows t)\<rparr>"
  let ?t2 = "t\<lparr>ta_columns := dict_pop ''operational_unit'' (dict_pop ''risk_type'' (columns_002 alert_rules_columns)),
    ta_rows := map ((\<lambda>row. dict_pop ''operational_unit'' (dict_pop ''risk_type'' row)) \<circ> row_002) (ta_rows t)\<rparr>"
  have 1: "alter_002 t = Ok ?t1"
    using alter_002_rows [of t] assms(2) alert_rules_columns_get by simp
  have 2: "drop_002 ?t1 = Ok ?t2"
    using drop_002_rows [of ?t1] alert_rules_columns_get by (simp add: columns_get comp_def)
  have 3: "alter_003 ?t2 = Ok (table_head t)"
    using alter_003_rows [of ?t2] alert_rules_columns_get
    by (simp add: columns_get dict_simps table_head_def columns_head_def row_head_def comp_def)
  show ?thesis
    using assms(1,3)
    by (simp add: upgrade_002_def upgrade_003_def on_table_def 1 2 3
        create_index_def dict_simps schema_head_def)
qed

text \<open>The way back to the first schema.\<close>

definition row_back :: "(pyval \<Rightarrow> string) \<Rightarrow> pydict \<Rightarrow> pydict" where
  "row_back json_text row =
     (let row' = dict_set ''operational_unit'' VNone (dict_set ''risk_type'' VNone (dict_pop ''network_id_unset'' row))
      in dict_pop ''risk_types'' (dict_pop ''network_id'' (dict_set ''risk_type'' (first_risk_type json_text row') row')))"

lemma first_risk_type_get:
  "py_get r ''risk_types'' = py_get row ''risk_types'' \<Longrightarrow> first_risk_type json_text r = first_risk_type json_text row"
  by (simp add: first_risk_type_def)

lemma row_back_get:
  "py_get (row_back json_text row) k =
     (if k \<in> {''operational_unit'', ''network_id_unset'', ''network_id'', ''risk_types''} then VNone
      else if k = ''risk_type'' then first_risk_type json_text row else py_get row k)"
proof -
  have "first_risk_type json_text (dict_set ''operational_unit'' VNone (dict_set ''risk_type'' VNone
      (dict_pop ''network_id_unset'' row))) = first_risk_type json_text row"
    by (rule first_risk_type_get) (simp add: py_get_pop dict_simps)
  then show ?thesis by (simp add: row_back_def py_get_pop dict_simps Let_def)
qed

lemma downgrade_to_001:
  assumes "dict_get (sm_tables s) ''alert_rules'' = Some t" "dict_get (sm_indexes s) ''ix_alert_rules_network_id'' \<noteq> None"
    and "ta_columns t = columns_head alert_rules_columns"
    and "\<And>row. row \<in> set (ta_rows t) \<Longrightarrow> \<exists>x. first_risk_type json_text row = VStr x \<and> length x \<le> 20"
  shows "\<exists>cs. bindR (downgrade_003 s) (downgrade_002 json_text) =
    Ok (s\<lparr>sm_tables := dict_set ''alert_rules'' (t\<lparr>ta_columns := cs, ta_rows := map (row_back json_text) (ta_rows t)\<rparr>) (sm_tables s),
         sm_indexes := dict_pop ''ix_alert_rules_network_id'' (sm_indexes s)\<rparr>)"
proof -
  let ?pop = "\<lambda>row. dict_pop ''network_id_unset'' row"
  let ?null = "\<lambda>row. dict_set ''operational_unit'' VNone (dict_set ''risk_type'' VNone (?pop row))"
  have first: "first_risk_type json_text (?null row) = first_risk_type json_text row" for row
    by (rule first_risk_type_get) (simp add: py_get_pop dict_simps)
  have col: "dict_get (ta_columns t) k = (if k = ''network_id_unset'' then
        Some ((sa_column SqlBoolean False)\<lparr>co_default := Some (VBool False)\<rparr>)
      else if k = ''operational_unit'' \<or> k = ''risk_type'' then None
      else if k = ''network_id'' then Some (sa_column (SqlString 255) False)
      else if k = ''risk_types'' then Some (sa_column SqlJson False) else dict_get alert_rules_columns k)" for k
    using assms(3) by (simp add: columns_head_def columns_get dict_simps)
  let ?c0 = "?pop (ta_columns t)"
  let ?t1 = "t\<lparr>ta_columns := ?c0, ta_rows := map ?pop (ta_rows t)\<rparr>"
  have 1: "drop_column ''network_id_unset'' t = Ok ?t1"
    by (simp add: drop_column_def col)
  let ?c2 = "dict_set ''risk_type'' (sa_column (SqlString 20) False)
    (dict_set ''operational_unit'' (sa_column (SqlString 255) True) (dict_set ''risk_type'' (sa_column (SqlString 20) True) ?c0))"
  let ?set = "\<lambda>row. dict_set ''risk_type'' (first_risk_type json_text (?null row)) (?null row)"
  let ?t2 = "t\<lparr>ta_columns := ?c2, ta_rows := map ?set (ta_rows t)\<rparr>"
  have fit: "fits (SqlString 20) (first_risk_type json_text row)" "first_risk_type json_text row \<noteq> VNone"
    if "row \<in> set (ta_rows t)" for row
    using assms(4) [OF that] by auto
  have 2: "restore_002 json_text ?t1 = Ok ?t2"
    using fit by (simp add: restore_002_def table_op_defs dict_simps list_ex_iff comp_def col first)
  let ?t3 = "t\<lparr>ta_columns := dict_pop ''risk_types'' (dict_pop ''network_id'' ?c2), ta_rows := map (row_back json_text) (ta_rows t)\<rparr>"
  have 3: "unalter_002 ?t2 = Ok ?t3"
    by (simp add: unalter_002_def drop_column_def dict_simps col comp_def row_back_def Let_def)
  show ?thesis
    using assms(1,2)
    by (intro exI [of _ "dict_pop ''risk_types'' (dict_pop ''network_id'' ?c2)"])
      (simp add: downgrade_003_def downgrade_002_def on_table_def 1 2 3
        drop_index_def dict_simps)
qed


section \<open>The mapped tables\<close>

text \<open>
  The columns \<open>src/celine/grid/db/models.py\<close> declares. A \<open>default\<close> is applied by the client and is none of the
  database's; \<open>unique=True\<close> beside \<open>index=True\<close> makes the index unique and adds no constraint.
\<close>

definition orm_alert_rules :: "(string, column) dict" where
  "orm_alert_rules =
     [(''id'', sa_column SqlUuid False), (''user_id'', sa_column (SqlString 255) False),
      (''network_id'', sa_column (SqlString 255) False), (''risk_types'', sa_column SqlJson False),
      (''threshold'', sa_column (SqlString 20) False), (''network_id_unset'', sa_column SqlBoolean False),
      (''recipients'', sa_column SqlText True), (''active'', sa_column SqlBoolean False),
      (''created_at'', (sa_column SqlDateTime False)\<lparr>co_default_now := True\<rparr>),
      (''updated_at'', (sa_column SqlDateTime False)\<lparr>co_default_now := True\<rparr>)]"

definition orm_rule_defaults :: "(string \<times> pyval) list" where
  "orm_rule_defaults = [(''network_id_unset'', VBool False), (''active'', VBool True)]"

definition orm_notification_settings :: "(string, column) dict" where
  "orm_notification_settings =
     [(''id'', sa_column SqlInteger False), (''user_id'', sa_column (SqlString 255) False),
      (''email_recipients'', sa_column SqlText True), (''webhook_url'', sa_column SqlText True),
      (''created_at'', (sa_column SqlDateTime False)\<lparr>co_default_now := True\<rparr>),
      (''updated_at'', (sa_column SqlDateTime False)\<lparr>co_default_now := True\<rparr>)]"

text \<open>
  What a schema is to the program: of every table the columns by name (type, whether NULL is
  allowed, whether the database fills in the time) and the primary key; every index by name,
  with its table and columns; and the columns, alone or together, in which no two rows of a
  table may agree, be it by a constraint or by a unique index.
\<close>

type_synonym table_shape = "(string \<rightharpoonup> sql_type \<times> bool \<times> bool) \<times> string list"

definition column_shapes :: "(string, column) dict \<Rightarrow> string \<rightharpoonup> sql_type \<times> bool \<times> bool" where
  "column_shapes cs n = map_option (\<lambda>c. (co_type c, co_nullable c, co_default_now c)) (dict_get cs n)"

definition table_shapes :: "schema \<Rightarrow> string \<rightharpoonup> table_shape" where
  "table_shapes s n = map_option (\<lambda>t. (column_shapes (ta_columns t), ta_primary_key t)) (dict_get (sm_tables s) n)"

definition index_columns :: "schema \<Rightarrow> string \<rightharpoonup> string \<times> string list" where
  "index_columns s n = map_option (\<lambda>(t, cs, u). (t, cs)) (dict_get (sm_indexes s) n)"

definition unique_keys :: "schema \<Rightarrow> (string \<times> string list) set" where
  "unique_keys s =
     set (concat (map (\<lambda>(n, t). map (\<lambda>(c, x). (n, [c])) (filter (\<lambda>(c, x). co_unique x) (ta_columns t))) (sm_tables s))) \<union>
     set (map (\<lambda>(i, t, cs, u). (t, cs)) (filter (\<lambda>(i, t, cs, u). u) (sm_indexes s)))"

definition same_shape :: "schema \<Rightarrow> schema \<Rightarrow> bool" where
  "same_shape s s' \<longleftrightarrow> table_shapes s = table_shapes s' \<and> index_columns s = index_columns s' \<and>
     unique_keys s = unique_keys s'"

text \<open>The constant defaults that the database fills in.\<close>

definition server_defaults :: "schema \<Rightarrow> string \<Rightarrow> string \<rightharpoonup> pyval" where
  "server_defaults s n c = (case dict_get (sm_tables s) n of
     None \<Rightarrow> None | Some t \<Rightarrow> Option.bind (dict_get (ta_columns t) c) co_default)"

section \<open>The start of the service\<close>

text \<open>\<open>init_db\<close> in \<open>src/celine/grid/db/session.py\<close>: \<open>create_all\<close> creates every mapped table that does not
  exist, with its indexes, and looks at nothing else.\<close>

definition create_missing :: "string \<Rightarrow> (schema \<Rightarrow> schema res) \<Rightarrow> schema \<Rightarrow> schema res" where
  "create_missing name create s = (if dict_get (sm_tables s) name \<noteq> None then Ok s else create s)"

definition create_orm_rules :: "schema \<Rightarrow> schema res" where
  "create_orm_rules s =
     bindR (create_table ''alert_rules'' orm_alert_rules [''id''] s) (\<lambda>s.
     bindR (create_index ''ix_alert_rules_network_id'' ''alert_rules'' [''network_id''] False s) (\<lambda>s.
       create_index ''ix_alert_rules_user_id'' ''alert_rules'' [''user_id''] False s))"

definition create_orm_settings :: "schema \<Rightarrow> schema res" where
  "create_orm_settings s =
     bindR (create_table ''notification_settings'' orm_notification_settings [''id''] s) (\<lambda>s.
       create_index ''ix_notification_settings_user_id'' ''notification_settings'' [''user_id''] True s)"

definition init_db :: "schema \<Rightarrow> schema res" where
  "init_db s = bindR (create_missing ''alert_rules'' create_orm_rules s) (create_missing ''notification_settings'' create_orm_settings)"

section \<open>Properties\<close>

text \<open>
  Upgrading a database of the first revision to the head never fails, keeps every rule, wraps
  its one hazard into a list, and marks it as belonging to no network by the empty network
  and the flag; every other column but the dropped \<open>operational_unit\<close> keeps its value.
\<close>

theorem upgrade_marks_legacy_rules:
  assumes "dict_get (sm_tables s) ''alert_rules'' = Some t" "ta_columns t = alert_rules_columns"
    and "dict_get (sm_indexes s) ''ix_alert_rules_network_id'' = None"
  shows "\<exists>s' t'. bindR (upgrade_002 s) upgrade_003 = Ok s' \<and> dict_get (sm_tables s') ''alert_rules'' = Some t' \<and>
    list_all2 (\<lambda>row row'. py_get row' ''risk_types'' = VList [py_get row ''risk_type''] \<and>
        py_get row' ''network_id'' = VStr [] \<and> py_get row' ''network_id_unset'' = VBool True \<and>
        (\<forall>k. k \<notin> {''risk_type'', ''operational_unit'', ''risk_types'', ''network_id'', ''network_id_unset''} \<longrightarrow>
           py_get row' k = py_get row k))
      (ta_rows t) (ta_rows t')"
proof (intro exI conjI)
  show "bindR (upgrade_002 s) upgrade_003 = Ok (schema_head t s)" by (rule upgrade_from_001 [OF assms])
  show "dict_get (sm_tables (schema_head t s)) ''alert_rules'' = Some (table_head t)"
    by (simp add: schema_head_def dict_simps)
  show "list_all2 (\<lambda>row row'. py_get row' ''risk_types'' = VList [py_get row ''risk_type''] \<and>
        py_get row' ''network_id'' = VStr [] \<and> py_get row' ''network_id_unset'' = VBool True \<and>
        (\<forall>k. k \<notin> {''risk_type'', ''operational_unit'', ''risk_types'', ''network_id'', ''network_id_unset''} \<longrightarrow>
           py_get row' k = py_get row k)) (ta_rows t) (ta_rows (table_head t))"
    by (simp add: table_head_def list_all2_map2 list_all2_same row_head_get)
qed

definition sample_table :: table where
  "sample_table = \<lparr>ta_columns = alert_rules_columns, ta_primary_key = [''id''],
     ta_rows = [[(''id'', VInt 4), (''risk_type'', VStr ''heat''), (''operational_unit'', VStr ''U''),
                 (''threshold'', VStr ''ALERT'')]]\<rparr>"

definition sample_legacy :: schema where
  "sample_legacy = \<lparr>sm_tables = [(''alert_rules'', sample_table)], sm_indexes = []\<rparr>"

lemma sample_legacy_parts:
  "dict_get (sm_tables sample_legacy) ''alert_rules'' = Some sample_table"
  "dict_get (sm_indexes sample_legacy) ''ix_alert_rules_network_id'' = None"
  "ta_columns sample_table = alert_rules_columns"
  by (simp_all add: sample_legacy_def sample_table_def dict_get_Cons)

theorem upgrade_marks_legacy_rules_witness:
  "\<exists>s' t'. bindR (upgrade_002 sample_legacy) upgrade_003 = Ok s' \<and> dict_get (sm_tables s') ''alert_rules'' = Some t' \<and>
     map (\<lambda>row. py_get row ''risk_types'') (ta_rows t') = [VList [VStr ''heat'']]"
proof -
  from upgrade_marks_legacy_rules [OF sample_legacy_parts(1,3,2)] obtain s' t' where
    up: "bindR (upgrade_002 sample_legacy) upgrade_003 = Ok s'" "dict_get (sm_tables s') ''alert_rules'' = Some t'"
    and all: "list_all2 (\<lambda>row row'. py_get row' ''risk_types'' = VList [py_get row ''risk_type''] \<and>
        py_get row' ''network_id'' = VStr [] \<and> py_get row' ''network_id_unset'' = VBool True \<and>
        (\<forall>k. k \<notin> {''risk_type'', ''operational_unit'', ''risk_types'', ''network_id'', ''network_id_unset''} \<longrightarrow>
           py_get row' k = py_get row k)) (ta_rows sample_table) (ta_rows t')"
    by (elim exE conjE)
  obtain row where "ta_rows t' = [row]" "py_get row ''risk_types'' = VList [VStr ''heat'']"
    using all by (auto simp: sample_table_def list_all2_Cons1 dict_simps)
  then have "map (\<lambda>row. py_get row ''risk_types'') (ta_rows t') = [VList [VStr ''heat'']]" by simp
  with up show ?thesis by (intro exI conjI)
qed

text \<open>
  C40: going back restores what the first revision stored: upgrading its rules to the head and
  downgrading again succeeds and gives every rule its own hazard back and every other
  column its value, except \<open>operational_unit\<close>, which is lost.
\<close>

theorem upgrade_downgrade:
  assumes "dict_get (sm_tables s) ''alert_rules'' = Some t" "ta_columns t = alert_rules_columns"
    and "dict_get (sm_indexes s) ''ix_alert_rules_network_id'' = None"
    and "\<forall>row \<in> set (ta_rows t). (\<exists>x. py_get row ''risk_type'' = VStr x \<and> length x \<le> 20) \<and>
      py_get row ''network_id'' = VNone \<and> py_get row ''risk_types'' = VNone \<and> py_get row ''network_id_unset'' = VNone"
  shows "\<exists>s' t'. bindR (bindR (upgrade_002 s) upgrade_003) (\<lambda>s. bindR (downgrade_003 s) (downgrade_002 json_text)) = Ok s' \<and>
    dict_get (sm_tables s') ''alert_rules'' = Some t' \<and> dict_get (sm_indexes s') ''ix_alert_rules_network_id'' = None \<and>
    list_all2 (\<lambda>row row'. py_get row' ''operational_unit'' = VNone \<and>
        (\<forall>k. k \<noteq> ''operational_unit'' \<longrightarrow> py_get row' k = py_get row k)) (ta_rows t) (ta_rows t')"
proof -
  have first: "first_risk_type json_text (row_head row) = py_get row ''risk_type''" if "row \<in> set (ta_rows t)" for row
    using that assms(4) by (auto simp: first_risk_type_def row_head_get)
  have up: "bindR (upgrade_002 s) upgrade_003 = Ok (schema_head t s)" by (rule upgrade_from_001 [OF assms(1-3)])
  have tab: "dict_get (sm_tables (schema_head t s)) ''alert_rules'' = Some (table_head t)"
    and ix: "dict_get (sm_indexes (schema_head t s)) ''ix_alert_rules_network_id'' \<noteq> None"
    by (simp_all add: schema_head_def dict_simps)
  have cols: "ta_columns (table_head t) = columns_head alert_rules_columns" by (simp add: table_head_def)
  have "\<exists>x. first_risk_type json_text row = VStr x \<and> length x \<le> 20" if "row \<in> set (ta_rows (table_head t))" for row
    using that assms(4) first by (auto simp: table_head_def)
  from downgrade_to_001 [OF tab ix cols this] obtain cs where down:
    "bindR (downgrade_003 (schema_head t s)) (downgrade_002 json_text) = Ok ((schema_head t s)
       \<lparr>sm_tables := dict_set ''alert_rules'' ((table_head t)\<lparr>ta_columns := cs,
           ta_rows := map (row_back json_text) (ta_rows (table_head t))\<rparr>) (sm_tables (schema_head t s)),
        sm_indexes := dict_pop ''ix_alert_rules_network_id'' (sm_indexes (schema_head t s))\<rparr>)" by blast
  have "py_get (row_back json_text (row_head row)) k = (if k = ''operational_unit'' then VNone else py_get row k)"
    if "row \<in> set (ta_rows t)" for row k
    using that assms(4) first [OF that] by (auto simp: row_back_get row_head_get)
  then have rows: "list_all2 (\<lambda>row row'. py_get row' ''operational_unit'' = VNone \<and>
        (\<forall>k. k \<noteq> ''operational_unit'' \<longrightarrow> py_get row' k = py_get row k)) (ta_rows t)
      (map (row_back json_text) (ta_rows (table_head t)))"
    by (simp add: table_head_def list_all2_map2 list_all2_same)
  show ?thesis
    unfolding up bindR.simps down
    by (rule exI, rule exI, intro conjI, rule refl, simp add: dict_simps, simp add: dict_simps, simp add: rows)
qed

theorem upgrade_downgrade_witness:
  "\<exists>s' t'. bindR (bindR (upgrade_002 sample_legacy) upgrade_003) (\<lambda>s. bindR (downgrade_003 s) (downgrade_002 py_str)) = Ok s' \<and>
     dict_get (sm_tables s') ''alert_rules'' = Some t' \<and> map (\<lambda>row. py_get row ''risk_type'') (ta_rows t') = [VStr ''heat'']"
proof -
  have r: "\<forall>row \<in> set (ta_rows sample_table). (\<exists>x. py_get row ''risk_type'' = VStr x \<and> length x \<le> 20) \<and>
      py_get row ''network_id'' = VNone \<and> py_get row ''risk_types'' = VNone \<and> py_get row ''network_id_unset'' = VNone"
    by (simp add: sample_table_def dict_simps)
  from upgrade_downgrade [OF sample_legacy_parts(1,3,2) r, of py_str] obtain s' t' where
    down: "bindR (bindR (upgrade_002 sample_legacy) upgrade_003) (\<lambda>s. bindR (downgrade_003 s) (downgrade_002 py_str)) = Ok s'"
      "dict_get (sm_tables s') ''alert_rules'' = Some t'"
    and all: "list_all2 (\<lambda>row row'. py_get row' ''operational_unit'' = VNone \<and>
        (\<forall>k. k \<noteq> ''operational_unit'' \<longrightarrow> py_get row' k = py_get row k)) (ta_rows sample_table) (ta_rows t')"
    by (elim exE conjE)
  obtain row where "ta_rows t' = [row]" "py_get row ''risk_type'' = VStr ''heat''"
    using all by (auto simp: sample_table_def list_all2_Cons1 dict_simps)
  then have "map (\<lambda>row. py_get row ''risk_type'') (ta_rows t') = [VStr ''heat'']" by simp
  with down show ?thesis by (intro exI conjI)
qed

definition first_rules :: table where
  "first_rules = \<lparr>ta_columns = alert_rules_columns, ta_primary_key = [''id''], ta_rows = []\<rparr>"

definition first_settings :: table where
  "first_settings = \<lparr>ta_columns = notification_settings_columns, ta_primary_key = [''id''], ta_rows = []\<rparr>"

definition migrated_schema :: schema where
  "migrated_schema = \<lparr>
     sm_tables = [(''alert_rules'', table_head first_rules), (''notification_settings'', first_settings)],
     sm_indexes = [(''ix_alert_rules_user_id'', ''alert_rules'', [''user_id''], False),
       (''ix_notification_settings_user_id'', ''notification_settings'', [''user_id''], False),
       (''ix_alert_rules_network_id'', ''alert_rules'', [''network_id''], False)]\<rparr>"

definition started_schema :: schema where
  "started_schema = \<lparr>
     sm_tables = [(''alert_rules'', \<lparr>ta_columns = orm_alert_rules, ta_primary_key = [''id''], ta_rows = []\<rparr>),
       (''notification_settings'', \<lparr>ta_columns = orm_notification_settings, ta_primary_key = [''id''], ta_rows = []\<rparr>)],
     sm_indexes = [(''ix_alert_rules_network_id'', ''alert_rules'', [''network_id''], False),
       (''ix_alert_rules_user_id'', ''alert_rules'', [''user_id''], False),
       (''ix_notification_settings_user_id'', ''notification_settings'', [''user_id''], True)]\<rparr>"

lemma head_from_nothing: "upgrade_head empty_schema = Ok migrated_schema"
proof -
  let ?s = "\<lparr>sm_tables = [(''alert_rules'', first_rules), (''notification_settings'', first_settings)],
     sm_indexes = [(''ix_alert_rules_user_id'', ''alert_rules'', [''user_id''], False),
       (''ix_notification_settings_user_id'', ''notification_settings'', [''user_id''], False)]\<rparr>"
  have s: "upgrade_001 empty_schema = Ok ?s"
    by (simp add: upgrade_001_def create_table_def create_index_def empty_schema_def dict_simps dict_get_Cons
        dict_set_def first_rules_def first_settings_def)
  have "bindR (upgrade_002 ?s) upgrade_003 = Ok (schema_head first_rules ?s)"
    by (rule upgrade_from_001) (simp_all add: dict_get_Cons first_rules_def)
  then show ?thesis
    by (simp add: upgrade_head_def s schema_head_def migrated_schema_def dict_set_def)
qed

lemmas start_defs = init_db_def create_missing_def create_orm_rules_def create_orm_settings_def create_table_def
  create_index_def empty_schema_def

lemma start_on_nothing: "init_db empty_schema = Ok started_schema"
  by (simp add: start_defs started_schema_def dict_simps dict_get_Cons dict_set_def)

lemma start_on_migrated: "init_db migrated_schema = Ok migrated_schema"
  by (simp add: init_db_def create_missing_def migrated_schema_def dict_get_Cons)

lemma head_on_started: "upgrade_head started_schema = Raise ProgrammingError"
  by (simp add: upgrade_head_def upgrade_001_def create_table_def started_schema_def dict_get_Cons)

lemma head_after_start: "init_db empty_schema = Ok s \<Longrightarrow> upgrade_head s = Raise ProgrammingError"
  using start_on_nothing head_on_started by auto

lemma migrated_rules: "column_shapes (columns_head alert_rules_columns) = column_shapes orm_alert_rules"
  by (rule ext) (auto simp: column_shapes_def columns_head_def columns_get dict_simps alert_rules_columns_def
      orm_alert_rules_def dict_get_Cons sa_column_def)

lemma migrated_settings: "column_shapes notification_settings_columns = column_shapes orm_notification_settings"
  by (rule ext) (simp add: column_shapes_def notification_settings_columns_def orm_notification_settings_def
      dict_get_Cons sa_column_def)

lemma migrated_unique: "unique_keys migrated_schema = {(''notification_settings'', [''user_id''])}"
  by (simp add: unique_keys_def migrated_schema_def table_head_def first_settings_def notification_settings_columns_def
      columns_head_def columns_002_def columns_003_def alert_rules_columns_def dict_set_def dict_pop_def sa_column_def)

lemma migrated_shape: "same_shape migrated_schema started_schema"
  unfolding same_shape_def
proof (intro conjI)
  show "table_shapes migrated_schema = table_shapes started_schema"
    by (rule ext) (simp add: table_shapes_def migrated_schema_def started_schema_def dict_get_Cons table_head_def
        first_rules_def first_settings_def migrated_rules migrated_settings)
  show "index_columns migrated_schema = index_columns started_schema"
  proof (rule ext)
    fix n
    show "index_columns migrated_schema n = index_columns started_schema n"
      by (cases "n = ''ix_notification_settings_user_id''"; cases "n = ''ix_alert_rules_user_id''")
        (simp_all add: index_columns_def migrated_schema_def started_schema_def dict_get_Cons)
  qed
  have "unique_keys started_schema = {(''notification_settings'', [''user_id''])}"
    by (simp add: unique_keys_def started_schema_def orm_alert_rules_def orm_notification_settings_def sa_column_def)
  with migrated_unique show "unique_keys migrated_schema = unique_keys started_schema" by simp
qed

lemma migrated_rule_defaults: "server_defaults migrated_schema ''alert_rules'' = map_of orm_rule_defaults"
  by (rule ext) (auto simp: server_defaults_def migrated_schema_def dict_get_Cons table_head_def columns_head_def
      columns_get dict_simps alert_rules_columns_def sa_column_def orm_rule_defaults_def)

lemma migrated_settings_defaults: "server_defaults migrated_schema ''notification_settings'' = Map.empty"
  by (rule ext) (simp add: server_defaults_def migrated_schema_def dict_get_Cons first_settings_def
      notification_settings_columns_def sa_column_def)

lemmas migrated_defaults = migrated_rule_defaults migrated_settings_defaults

lemma migrated_empty: "\<forall>(n, t) \<in> set (sm_tables migrated_schema). ta_rows t = []"
  by (simp add: migrated_schema_def table_head_def first_rules_def first_settings_def)

text \<open>
  The schema that the migrations build from nothing is the one the mapped classes declare, as
  \<open>create_all\<close> builds it: the same two tables with the same columns, primary keys, indexes and unique
  keys; and where a mapped class has a default, the database has the same.
\<close>

theorem migrations_build_mapped_tables:
  "\<exists>s s'. upgrade_head empty_schema = Ok s \<and> init_db empty_schema = Ok s' \<and> same_shape s s' \<and>
     server_defaults s ''alert_rules'' = map_of orm_rule_defaults \<and> server_defaults s ''notification_settings'' = Map.empty"
  using head_from_nothing start_on_nothing migrated_shape migrated_defaults by blast

text \<open>
  The order of the start and the migrations matters: after the migrations the start changes
  nothing, but a start on an empty database creates both tables, and from then on the
  migrations fail at their first statement.
\<close>

theorem start_before_migrations:
  "(\<exists>s. upgrade_head empty_schema = Ok s \<and> init_db s = Ok s) \<and>
   (\<exists>s. init_db empty_schema = Ok s \<and> dict_get (sm_tables s) ''alert_rules'' \<noteq> None \<and>
      dict_get (sm_tables s) ''notification_settings'' \<noteq> None \<and> upgrade_head s = Raise ProgrammingError)"
proof
  show "\<exists>s. upgrade_head empty_schema = Ok s \<and> init_db s = Ok s"
    using head_from_nothing start_on_migrated by blast
  have "dict_get (sm_tables started_schema) ''alert_rules'' \<noteq> None"
    "dict_get (sm_tables started_schema) ''notification_settings'' \<noteq> None"
    by (simp_all add: started_schema_def dict_get_Cons)
  then show "\<exists>s. init_db empty_schema = Ok s \<and> dict_get (sm_tables s) ''alert_rules'' \<noteq> None \<and>
      dict_get (sm_tables s) ''notification_settings'' \<noteq> None \<and> upgrade_head s = Raise ProgrammingError"
    using start_on_nothing head_on_started by blast
qed

end
