(* ===== verification/Sessions.thy ===== *)
theory Sessions
  imports AlembicEnv
begin

text \<open>
  \<open>src/celine/grid/db/session.py\<close>: the engines, the session factory and \<open>get_db\<close>, the dependency
  that lends a session to a handler and closes it whichever way the handler ends. A session
  works on its own copy of the data from its first statement on; a commit publishes the copy,
  closing drops it. The handler is any sequence of statements and commits, which an exception
  (or a cancellation) may cut anywhere.
\<close>

section \<open>Engines\<close>

record engine =
  en_url :: string
  en_echo :: bool
  en_pre_ping :: bool
  en_pool_size :: "nat option"
  en_max_overflow :: "nat option"

record session_factory =
  sf_engine :: engine
  sf_expire_on_commit :: bool

definition async_engine :: "settings \<Rightarrow> engine" where
  "async_engine cfg =
     \<lparr>en_url = st_database_url cfg, en_echo = st_database_echo cfg, en_pre_ping = True,
      en_pool_size = Some 5, en_max_overflow = Some 10\<rparr>"

definition AsyncSessionLocal :: "settings \<Rightarrow> session_factory" where
  "AsyncSessionLocal cfg = \<lparr>sf_engine = async_engine cfg, sf_expire_on_commit = False\<rparr>"

definition sync_engine :: "settings \<Rightarrow> engine" where
  "sync_engine cfg =
     \<lparr>en_url = py_remove ''+asyncpg'' (st_database_url cfg), en_echo = st_database_echo cfg, en_pre_ping = False,
      en_pool_size = None, en_max_overflow = None\<rparr>"

section \<open>Sessions\<close>

record 'd session =
  se_committed :: 'd
  se_working :: "'d option"
  se_open :: bool

definition new_session :: "'d \<Rightarrow> 'd session" where
  "new_session d = \<lparr>se_committed = d, se_working = None, se_open = True\<rparr>"

definition session_execute :: "('d \<Rightarrow> 'd) \<Rightarrow> 'd session \<Rightarrow> 'd session" where
  "session_execute f s = s\<lparr>se_working := Some (f (case se_working s of Some d \<Rightarrow> d | None \<Rightarrow> se_committed s))\<rparr>"

definition session_commit :: "'d session \<Rightarrow> 'd session" where
  "session_commit s = (case se_working s of Some d \<Rightarrow> s\<lparr>se_committed := d, se_working := None\<rparr> | None \<Rightarrow> s)"

definition session_close :: "'d session \<Rightarrow> 'd session" where
  "session_close s = s\<lparr>se_working := None, se_open := False\<rparr>"

datatype 'd action = Execute "'d \<Rightarrow> 'd" | Commit | Throw py_error

fun run_actions :: "'d action list \<Rightarrow> 'd session \<Rightarrow> unit res \<times> 'd session" where
  "run_actions [] s = (Ok (), s)"
| "run_actions (Execute f # as) s = run_actions as (session_execute f s)"
| "run_actions (Commit # as) s = run_actions as (session_commit s)"
| "run_actions (Throw e # as) s = (Raise e, s)"

text \<open>\<open>get_db\<close>: the \<open>finally\<close> closes the session, and so does leaving \<open>async with\<close>; an exception goes on.\<close>

definition get_db :: "'d action list \<Rightarrow> 'd \<Rightarrow> unit res \<times> 'd session" where
  "get_db handler d =
     (case run_actions handler (new_session d) of (r, s) \<Rightarrow> (r, session_close (session_close s)))"

section \<open>What is kept\<close>

text \<open>The work up to the last commit before the handler ended.\<close>

fun published :: "('d \<Rightarrow> 'd) \<Rightarrow> 'd action list \<Rightarrow> 'd \<Rightarrow> 'd" where
  "published pending [] d = d"
| "published pending (Execute f # as) d = published (f \<circ> pending) as d"
| "published pending (Commit # as) d = published id as (pending d)"
| "published pending (Throw e # as) d = d"

fun outcome_of :: "'d action list \<Rightarrow> unit res" where
  "outcome_of [] = Ok ()"
| "outcome_of (Throw e # as) = Raise e"
| "outcome_of (a # as) = outcome_of as"

lemma run_actions_published:
  assumes "\<And>d. se_working s = Some d \<Longrightarrow> d = pending (se_committed s)" "se_working s = None \<Longrightarrow> pending = id"
  shows "fst (run_actions as s) = outcome_of as \<and>
    se_committed (snd (run_actions as s)) = published pending as (se_committed s)"
  using assms
proof (induction as s arbitrary: pending rule: run_actions.induct)
  case (2 f as s)
  have "fst (run_actions as (session_execute f s)) = outcome_of as \<and>
      se_committed (snd (run_actions as (session_execute f s))) =
        published (f \<circ> pending) as (se_committed (session_execute f s))"
    by (rule "2.IH") (use "2.prems" in \<open>auto simp: session_execute_def split: option.splits\<close>)
  then show ?case by (simp add: session_execute_def)
next
  case (3 as s)
  have "se_committed (session_commit s) = pending (se_committed s) \<and> se_working (session_commit s) = None"
    using "3.prems" by (auto simp: session_commit_def split: option.splits)
  with "3.IH" [of id] show ?case by (simp add: id_def)
qed simp_all

text \<open>
  Whichever way a handler ends, its session is closed once it is over, and exactly the work up
  to its last commit is kept: statements after that, or cut off before a commit, leave nothing.
\<close>

theorem get_db_keeps_commits:
  assumes "get_db handler d = (r, s)"
  shows "r = outcome_of handler \<and> se_committed s = published id handler d \<and> \<not> se_open s \<and> se_working s = None"
  using assms run_actions_published [of "new_session d" id handler]
  by (auto simp: get_db_def session_close_def new_session_def split: prod.splits)

theorem get_db_keeps_commits_witness:
  "se_committed (snd (get_db [Execute (\<lambda>n. n + 1), Commit, Execute (\<lambda>n. n + 10), Throw KeyError] (0::nat))) = 1"
proof -
  obtain r s where run: "get_db [Execute (\<lambda>n. n + 1), Commit, Execute (\<lambda>n. n + 10), Throw KeyError] (0::nat) = (r, s)"
    by force
  from get_db_keeps_commits [OF run] run show ?thesis by simp
qed

text \<open>
  The engine for Alembic in the service and the script of Alembic connect to the same place,
  and a single process holds at most fifteen connections of its pool.
\<close>

lemma engines_agree:
  "en_url (sync_engine cfg) = sync_url cfg" "en_url (sf_engine (AsyncSessionLocal cfg)) = st_database_url cfg"
  "\<exists>p q. en_pool_size (async_engine cfg) = Some p \<and> en_max_overflow (async_engine cfg) = Some q \<and> p + q = 15"
  by (simp_all add: sync_engine_def sync_url_def AsyncSessionLocal_def async_engine_def)

end
