(* ===== verification/Spec2Isabelle.thy ===== *)
theory Spec2Isabelle
  imports App InterleavedReports InterleavedEdits Sessions
begin

text \<open>
  A model of the Grid BFF: the web service in front of the grid page of the CELINE front end,
  and the listener that turns a completed forecast run into alert e-mails. Sources are under
  \<open>src/celine/grid/\<close>, the access policy in \<open>policies/grid.rego\<close>, the migrations in \<open>alembic/\<close>.

  The program. A request passes the middlewares (\<open>main.py\<close>, \<open>security/middleware.py\<close>), is routed to one of
  three routers (\<open>api/user.py\<close>, \<open>api/alerts.py\<close>, \<open>api/grid.py\<close>), and runs its dependencies
  (\<open>api/deps.py\<close>), which verify the caller and ask the policy (\<open>security/policy.py\<close>). The alerts router
  keeps the rules and the settings of an operator in two tables (\<open>db/models.py\<close>); the grid router
  forwards one call to the Digital Twin. Independently, a message of the pipeline
  (\<open>services/pipeline_listener.py\<close>) has the dispatcher (\<open>services/alert_dispatcher.py\<close>) evaluate the active
  rules of every network over the horizon, with the arithmetic of \<open>services/risk_summary.py\<close> and the
  recipients of \<open>services/notification_recipients.py\<close>. The process starts with the posture check
  (\<open>security/posture.py\<close>), the tables and the broker (\<open>lifespan\<close> in \<open>main.py\<close>).

  The theories.
  \<^item> \<open>Prelude\<close>: results that are a value or an exception (\<open>bindR\<close>, \<open>mapR\<close>), dictionaries in insertion order with
    their lookup laws, first occurrences, and the collections of simplification rules.
  \<^item> \<open>PyText\<close>, \<open>PyFloat\<close>, \<open>PyValue\<close>, \<open>Sha256\<close>, \<open>Calendar\<close>: what the code uses of Python: text over Latin-1 code
    points, binary64 numbers as rationals with infinities and NaN (sum, round, division, \<open>float\<close> of
    texts and integers), dynamic values, SHA-256 on 32-bit words, dates.
  \<^item> \<open>Recipients\<close>, \<open>RiskSummary\<close>, \<open>Dispatcher\<close>, \<open>Listener\<close>: the four service modules, one definition per function.
    The state of a run is a log of calls, attempts and deliveries.
  \<^item> \<open>Tables\<close>, \<open>Models\<close>: keyed tables as a locale with the laws of insert, replace, delete and lookup, interpreted
    on the two tables of the models.
  \<^item> \<open>Http\<close>, \<open>Policy\<close>, \<open>Identity\<close>: requests, failures and responses; the policy input, the Rego package and the
    fail-closed wrapper (locale \<open>decision_engine\<close>, interpreted on the Rego rules); the token gate and
    the dependencies (locale \<open>credential_gate\<close>, interpreted on gate and reader).
  \<^item> \<open>AlertsApi\<close> (bodies, handlers, routes), \<open>AlertsSpec\<close> (the specification of a private collection per
    operator, the refinement, reachable databases), \<open>Interleaving\<close> (the six handlers cut at their awaits,
    any number of them in flight), \<open>InterleavedRuns\<close> (pipeline runs cut at their awaits, any number of them
    beside the requests), \<open>InterleavedReports\<close> (what their reports are worth), \<open>InterleavedEdits\<close> (edits of one rule).
  \<^item> \<open>Systems\<close>: the locales of systems that keep an invariant and of systems whose runs end, interpreted on
    the service and on programs in flight. \<open>Statements\<close>: programs that await a shared database, their
    interleaving, and the locale of the rely-guarantee rule, interpreted on the requests of users, on runs beside them and on an edit
    beside them.
  \<^item> \<open>GridProxy\<close>, \<open>UserApi\<close>: the routes of the other two routers.
  \<^item> \<open>Settings\<close>: the configuration and the credentials of the service. \<open>Lifespan\<close>: posture, service clients and
    the start as a trace of effects.
  \<^item> \<open>Migrations\<close>: the three revisions and \<open>create_all\<close> as operations on tables of rows. \<open>AlembicEnv\<close>: the
    script that runs them (\<open>alembic/env.py\<close>) on the databases of a server. \<open>Sessions\<close>: the engines and \<open>get_db\<close>
    of \<open>db/session.py\<close>.
  \<^item> \<open>App\<close>: the stack of middlewares, the table of routes, and the effects of a request on the world.
  \<^item> This theory: a property from the API to the report, across all components.

  What is shown. For the API: every handler refines the private collection of its caller, requests
  keep the tables well formed and the rules typed, failures change nothing but for one case that is
  named, and a request acts only with a verified token, only on its caller's rows, and asks the Digital
  Twin only about networks its caller may read. For requests that overlap: in every interleaving the tables stay well formed
  and every answer is about its asker, a user's only request in flight does what the specification says
  whatever the others do, every run ends within the statements of its requests with every one of them
  answered so, one request alone is the handler, and requests of one user
  can lose to each other in the ways that are named; a confirmed edit lasts where nobody names the same
  fields; pipeline runs beside them disturb none of them, alert every operator who has no request in flight, and report
  only what rests on a rule that was stored and active while they ran. For the alerts: no false
  alarm, no missed alarm, one report per recipient list, failures of a send isolated, and a rule posted
  over the API is honoured by the next run. For the arithmetic: thresholds are floors, summaries
  partition their rows, reports have every day and hazard. For the rest: the horizon is never
  empty, the policy fails closed, the gate and the reader of the token agree, languages, GeoJSON and
  payloads are as documented, the posture comes before any effect, the migrations build the
  mapped tables as \<open>create_all\<close> builds them (columns, keys, indexes, defaults), can be repeated and can be undone, fail as a whole and fail for good on tables the
  service made itself, a session keeps what was committed, and API and listener ask the Digital Twin as
  one client.

  Parameters. The Digital Twin, the nudging service, token verification, the SDK's posture checks,
  \<open>organization_groups\<close>, \<open>database_exists\<close> and \<open>create_database\<close>, JSON decoding, validation of booleans, integers and UUIDs, the clock, drawn ids, the
  CORS middleware and the framework's own pages are arguments of the definitions. The policy engine is
  a parameter too; where a property says so it is the Rego package.

  Bounds. No definition needs fuel: loops are structural recursion over the lists they consume, or
  functions with a measure; the depth of \<open>interpolate\<close> is the ten levels of \<open>ConfigParser\<close> itself. A request
  has at most three statements; those of a run are not bounded, but every run of programs ends. The rows a run evaluates are bounded by the limit of its call, which the
  model passes on and does not enforce.

  Not modelled. Package markers (re-exports), loggers and their configuration, the title and the pages of
  the documentation (where they are mounted is in \<open>App\<close>), the \<open>uvicorn\<close> call, and the texts of 422 bodies. The
  connection pool is its configuration. Text is Latin-1 code points, so letters beyond it are outside
  the model; so are NUL characters, which PostgreSQL refuses, and answers of the Digital
  Twin that JSON cannot carry (a NaN). A statement is atomic and a transaction commits or fails as a
  whole; requests and runs interleave at the statements of the alerts handlers and of the
  dispatcher (\<open>Interleaving\<close>, \<open>InterleavedRuns\<close>), elsewhere they are answered one at a time.
  Every statement can run whenever its request is next: row locks, with which one commit may wait for
  another, and waiting for a connection of the pool (\<open>db/session.py\<close>) are not modelled, nor are the
  cancellation of tasks and the loss of a connection.
\<close>

section \<open>From a rule to an alert\<close>







end
